(* ===== verification/Prelude.thy ===== *)
theory Prelude
  imports Main "HOL-Library.Word" "HOL-Library.FSet" "HOL-Library.Finite_Map"
    "HOL-Library.List_Lexorder" "HOL-Library.Monad_Syntax"
begin

text \<open>
  The shared vocabulary of the development: the widths of Rust's integers, panics as values,
  the iteration order of hash sets as an interface, and the loop combinators that stateful
  iterator chains of the source (\<^verbatim>\<open>for_each\<close>, \<^verbatim>\<open>fold\<close>, \<^verbatim>\<open>flat_map\<close> with a mutating closure) become.
\<close>

section \<open>Machine integers\<close>

type_synonym u8 = "8 word"
type_synonym u16 = "16 word"
type_synonym u32 = "32 word"
type_synonym u64 = "64 word"
type_synonym u128 = "128 word"
type_synonym bytes = "8 word list"

text \<open>
  A value of Rust's \<open>i64\<close> is an \<open>int\<close> in its range; \<open>wrap_i64\<close> is what arithmetic in a
  release build (no overflow checks) leaves of an exact result.
\<close>

definition i64_max :: int where
  "i64_max = 2 ^ 63 - 1"

definition wrap_i64 :: "int \<Rightarrow> int" where
  "wrap_i64 x = (x + 2 ^ 63) mod 2 ^ 64 - 2 ^ 63"

lemma wrap_i64_id [simp]: "- (2 ^ 63) \<le> x \<Longrightarrow> x \<le> i64_max \<Longrightarrow> wrap_i64 x = x"
  by (simp add: wrap_i64_def i64_max_def)

lemma wrap_i64_le_max: "wrap_i64 x \<le> i64_max"
proof -
  have "(x + 2 ^ 63) mod 2 ^ 64 < (2 ^ 64 :: int)" by simp
  then show ?thesis by (simp add: wrap_i64_def i64_max_def)
qed

section \<open>Comparisons\<close>

text \<open>Rust's \<open>Ordering\<close>, and \<open>partial_cmp\<close> of its integers, which never fails.\<close>

datatype ordering = Less | Equal | Greater

definition partial_cmp :: "'a::linorder \<Rightarrow> 'a \<Rightarrow> ordering option" where
  "partial_cmp x y = Some (if x < y then Less else if x = y then Equal else Greater)"

section \<open>Panics\<close>

text \<open>
  A computation that can panic returns \<open>None\<close> where the source panics (\<^verbatim>\<open>panic!\<close>,
  \<^verbatim>\<open>expect\<close>, \<^verbatim>\<open>unimplemented!\<close>, an index out of range) and \<open>Some\<close> of its result otherwise, so the
  option monad sequences it. A Rust \<open>Result\<close> is a sum, \<open>Inl\<close> of the error or
  \<open>Inr\<close> of the value.
\<close>

type_synonym 'a run = "'a option"

abbreviation panic :: "'a run" where
  "panic \<equiv> None"

abbreviation ret :: "'a \<Rightarrow> 'a run" where
  "ret x \<equiv> Some x"

definition runs :: "'a run \<Rightarrow> bool" where
  "runs m \<longleftrightarrow> m \<noteq> None"

lemma runs_ret [simp]: "runs (Some x)"
  by (simp add: runs_def)

lemma runsE: "runs m \<Longrightarrow> (\<And>x. m = Some x \<Longrightarrow> P) \<Longrightarrow> P"
  by (auto simp: runs_def)

lemma runs_bindI: "runs m \<Longrightarrow> (\<And>x. m = Some x \<Longrightarrow> runs (f x)) \<Longrightarrow> runs (m \<bind> f)"
  by (auto simp: runs_def)

lemma those_map_Some:
  assumes "\<And>x. x \<in> set xs \<Longrightarrow> f x \<noteq> None"
  shows "those (map f xs) = Some (map (\<lambda>x. the (f x)) xs)"
  using assms by (induction xs) force+

section \<open>Iterating over a hash set\<close>

text \<open>
  The order in which Rust's \<open>HashSet\<close> yields its elements is unspecified. Every definition that
  iterates over one takes the order as an argument, and the lemmas about it hold for every order
  that yields each element once.
\<close>

locale hash_iteration =
  fixes iter :: "'a fset \<Rightarrow> 'a list"
  assumes set_iter [simp]: "set (iter S) = fset S"
    and distinct_iter [simp]: "distinct (iter S)"
begin

lemma iter_empty [simp]: "iter {||} = []"
  by (metis bot_fset.rep_eq set_empty set_iter)

lemma length_iter [simp]: "length (iter S) = fcard S"
  using distinct_card [OF distinct_iter, of S] by (simp add: fcard.rep_eq)

lemma iter_eq_Nil_iff [simp]: "iter S = [] \<longleftrightarrow> S = {||}"
proof
  assume "iter S = []"
  then have "fset S = {}" using set_iter [of S] by simp
  then show "S = {||}" by (simp add: fset_inject [symmetric])
qed simp

end

text \<open>Ascending order, which is also the order of a \<open>BTreeSet\<close>, is one such order.\<close>

interpretation ascending: hash_iteration "sorted_list_of_fset :: 'a::linorder fset \<Rightarrow> 'a list"
  by unfold_locales (simp_all add: sorted_list_of_fset.rep_eq)

section \<open>Loops\<close>

text \<open>
  \<open>iter_flat_map f xs s\<close> runs \<open>f\<close> on every element in turn, threads the state \<open>s\<close> and appends
  the results; \<open>iter_each\<close> is the loop without a result.
\<close>

fun iter_flat_map :: "('a \<Rightarrow> 's \<Rightarrow> ('b list \<times> 's) run) \<Rightarrow> 'a list \<Rightarrow> 's \<Rightarrow> ('b list \<times> 's) run" where
  "iter_flat_map f [] s = ret ([], s)"
| "iter_flat_map f (x # xs) s = do {
     (ys, s') \<leftarrow> f x s;
     (zs, s'') \<leftarrow> iter_flat_map f xs s';
     ret (ys @ zs, s'') }"

fun iter_each :: "('a \<Rightarrow> 's \<Rightarrow> 's run) \<Rightarrow> 'a list \<Rightarrow> 's \<Rightarrow> 's run" where
  "iter_each f [] s = ret s"
| "iter_each f (x # xs) s = do { s' \<leftarrow> f x s; iter_each f xs s' }"

lemma iter_flat_map_cong [fundef_cong]:
  assumes "xs = ys" and "s = t" and "\<And>x u. x \<in> set ys \<Longrightarrow> f x u = g x u"
  shows "iter_flat_map f xs s = iter_flat_map g ys t"
  using assms(3) unfolding assms(1,2)
proof (induction ys arbitrary: t)
  case Nil
  then show ?case by simp
next
  case (Cons y ys)
  then have "\<And>u. iter_flat_map f ys u = iter_flat_map g ys u" and "f y t = g y t"
    by simp_all
  then show ?case by simp
qed

lemma iter_each_cong [fundef_cong]:
  assumes "xs = ys" and "s = t" and "\<And>x u. x \<in> set ys \<Longrightarrow> f x u = g x u"
  shows "iter_each f xs s = iter_each g ys t"
  using assms(3) unfolding assms(1,2)
proof (induction ys arbitrary: t)
  case Nil
  then show ?case by simp
next
  case (Cons y ys)
  then have "iter_each f ys = iter_each g ys" and "f y t = g y t"
    by auto
  then show ?case by simp
qed

text \<open>An invariant that no element breaks, and that keeps every element from panicking, makes the loop run.\<close>

lemma iter_each_inv:
  assumes "I s" and "\<And>x u. x \<in> set xs \<Longrightarrow> I u \<Longrightarrow> \<exists>u'. f x u = Some u' \<and> I u'"
  shows "\<exists>s'. iter_each f xs s = Some s' \<and> I s'"
  using assms
proof (induction xs arbitrary: s)
  case Nil
  then show ?case by simp
next
  case (Cons x xs)
  from Cons.prems(2) [of x s] Cons.prems(1) obtain u where u: "f x s = Some u" "I u"
    by auto
  from Cons.IH [OF u(2)] Cons.prems(2) obtain s' where "iter_each f xs u = Some s'" "I s'"
    by auto
  with u show ?case by simp
qed

lemma iter_each_invD:
  assumes "iter_each f xs s = Some s'" and "I s"
    and "\<And>x u u'. x \<in> set xs \<Longrightarrow> I u \<Longrightarrow> f x u = Some u' \<Longrightarrow> I u'"
  shows "I s'"
  using assms
proof (induction xs arbitrary: s)
  case Nil
  then show ?case by simp
next
  case (Cons x xs)
  from Cons.prems(1) obtain u where u: "f x s = Some u" "iter_each f xs u = Some s'"
    by (auto split: bind_splits)
  then show ?case
    using Cons.IH [OF u(2)] Cons.prems(2,3) by auto
qed

end
