(* ===== verification/Node_Addr.thy ===== *)
theory Node_Addr
  imports Prelude
begin

text \<open>
  Network addresses: \<^verbatim>\<open>node/src/sub_lib/node_addr.rs\<close> and the parts of \<^verbatim>\<open>std::net\<close> it uses.
  A \<open>NodeAddr\<close> built by its constructor has ascending ports without repetition; \<open>clone\<close> goes
  through the constructor, so it normalises a \<open>NodeAddr\<close> that was deserialised with other ports.
\<close>

datatype ip_addr = V4 u32 | V6 u128

record socket_addr =
  sa_ip :: ip_addr
  sa_port :: u16

record node_addr =
  na_ip_addr :: ip_addr
  na_ports :: "u16 list"

definition node_addr_new :: "ip_addr \<Rightarrow> u16 list \<Rightarrow> node_addr" where
  "node_addr_new ip ports = \<lparr>na_ip_addr = ip, na_ports = remdups_adj (sort ports)\<rparr>"

definition node_addr_clone :: "node_addr \<Rightarrow> node_addr" where
  "node_addr_clone na = node_addr_new (na_ip_addr na) (na_ports na)"

definition node_addr_of_socket_addr :: "socket_addr \<Rightarrow> node_addr" where
  "node_addr_of_socket_addr sa = node_addr_new (sa_ip sa) [sa_port sa]"

definition socket_addrs_of_node_addr :: "node_addr \<Rightarrow> socket_addr list" where
  "socket_addrs_of_node_addr na = map (\<lambda>port. \<lparr>sa_ip = na_ip_addr na, sa_port = port\<rparr>) (na_ports na)"

text \<open>The ports of a \<open>NodeAddr\<close> that came from the constructor.\<close>

definition normal_node_addr :: "node_addr \<Rightarrow> bool" where
  "normal_node_addr na \<longleftrightarrow> sorted_wrt (<) (na_ports na)"

lemma remdups_adj_sorted_strict: "sorted xs \<Longrightarrow> sorted_wrt (<) (remdups_adj (xs :: 'a::linorder list))"
  by (induction xs rule: remdups_adj.induct) (auto simp: less_le)

lemma distinct_adj_strict: "sorted_wrt (<) (xs :: 'a::linorder list) \<Longrightarrow> remdups_adj (sort xs) = xs"
  by (simp add: strict_sorted_iff sorted_sort_id remdups_adj_distinct)

lemma node_addr_new_normal [simp]: "normal_node_addr (node_addr_new ip ports)"
  by (simp add: normal_node_addr_def node_addr_new_def remdups_adj_sorted_strict)

lemma node_addr_clone_normal [simp]: "normal_node_addr (node_addr_clone na)"
  by (simp add: node_addr_clone_def)

lemma node_addr_clone_id [simp]: "normal_node_addr na \<Longrightarrow> node_addr_clone na = na"
  by (simp add: node_addr_clone_def node_addr_new_def normal_node_addr_def distinct_adj_strict)

lemma node_addr_clone_ip [simp]: "na_ip_addr (node_addr_clone na) = na_ip_addr na"
  by (simp add: node_addr_clone_def node_addr_new_def)

lemma node_addr_new_sel [simp]:
  "na_ip_addr (node_addr_new ip ports) = ip"
  "set (na_ports (node_addr_new ip ports)) = set ports"
  by (simp_all add: node_addr_new_def)

lemma node_addr_new_no_ports [simp]: "na_ports (node_addr_new ip ports) = [] \<longleftrightarrow> ports = []"
  by (metis node_addr_new_sel(2) set_empty)

lemma node_addr_clone_no_ports [simp]: "na_ports (node_addr_clone na) = [] \<longleftrightarrow> na_ports na = []"
  by (simp add: node_addr_clone_def)

lemma node_addr_of_socket_addr_sel [simp]:
  "na_ip_addr (node_addr_of_socket_addr sa) = sa_ip sa"
  "na_ports (node_addr_of_socket_addr sa) = [sa_port sa]"
  by (simp_all add: node_addr_of_socket_addr_def node_addr_new_def)

lemma in_socket_addrs [simp]:
  "sa \<in> set (socket_addrs_of_node_addr na) \<longleftrightarrow> sa_ip sa = na_ip_addr na \<and> sa_port sa \<in> set (na_ports na)"
  by (cases sa) (auto simp: socket_addrs_of_node_addr_def)

lemma node_addr_clone_socket_addrs [simp]:
  "set (socket_addrs_of_node_addr (node_addr_clone na)) = set (socket_addrs_of_node_addr na)"
  by (auto simp: node_addr_clone_def)

end
