(* ===== verification/Node_Record.thy ===== *)
theory Node_Record
  imports Node_Addr
begin

text \<open>
  The record of one Node: \<^verbatim>\<open>node/src/neighborhood/node_record.rs\<close>, the gossip records of
  \<^verbatim>\<open>gossip.rs\<close> it is built from, \<open>RatePack\<close> of \<^verbatim>\<open>sub_lib/neighborhood.rs\<close> and
  \<^verbatim>\<open>node_location.rs\<close>. A public key is its bytes, ordered as the derived \<open>Ord\<close> of \<open>Vec<u8>\<close>
  orders them. What the code takes from other crates (CBOR serialisation, the signing and
  verifying half of \<open>CryptDE\<close>, the country table), the clock and the order of hash sets are
  fields of one environment record.
\<close>

section \<open>Data\<close>

type_synonym public_key = bytes
type_synonym country_code = string

datatype wallet =
    WalletAddress "160 word"
  | WalletSecretKey bytes
  | WalletPublicKey bytes
  | WalletUninitialized

record rate_pack =
  routing_byte_rate :: u64
  routing_service_rate :: u64
  exit_byte_rate :: u64
  exit_service_rate :: u64

definition routing_charge :: "rate_pack \<Rightarrow> u64 \<Rightarrow> u64" where
  "routing_charge rp payload_size = routing_service_rate rp + routing_byte_rate rp * payload_size"

definition exit_charge :: "rate_pack \<Rightarrow> u64 \<Rightarrow> u64" where
  "exit_charge rp payload_size = exit_service_rate rp + exit_byte_rate rp * payload_size"

definition zero_rate_pack :: rate_pack where
  "zero_rate_pack = \<lparr>routing_byte_rate = 0, routing_service_rate = 0,
     exit_byte_rate = 0, exit_service_rate = 0\<rparr>"

record node_location =
  nl_country_code :: country_code

record node_record_inner =
  nri_public_key :: public_key
  nri_earning_wallet :: wallet
  nri_rate_pack :: rate_pack
  nri_neighbors :: "public_key fset"
  nri_accepts_connections :: bool
  nri_routes_data :: bool
  nri_version :: u32
  nri_country_code_opt :: "country_code option"

record node_record_metadata =
  nrm_last_update :: u32
  nrm_node_addr_opt :: "node_addr option"
  nrm_unreachable_hosts :: "string fset"
  nrm_node_location_opt :: "node_location option"
  nrm_country_undesirability :: u32

record node_record =
  nr_inner :: node_record_inner
  nr_metadata :: node_record_metadata
  nr_signed_gossip :: bytes
  nr_signature :: bytes

record node_record_inputs =
  nin_earning_wallet :: wallet
  nin_rate_pack :: rate_pack
  nin_accepts_connections :: bool
  nin_routes_data :: bool
  nin_version :: u32
  nin_location_opt :: "node_location option"

record gossip_node_record =
  gnr_signed_data :: bytes
  gnr_signature :: bytes
  gnr_node_addr_opt :: "node_addr option"

record accessible_gossip_record =
  agr_signed_gossip :: bytes
  agr_signature :: bytes
  agr_node_addr_opt :: "node_addr option"
  agr_inner :: node_record_inner

datatype node_record_error = SelfNeighborAttempt public_key

datatype neighborhood_database_error =
    NodeKeyNotFound public_key
  | NodeKeyCollision public_key
  | DbSelfNeighborAttempt public_key
  | NodeAddrAlreadySet node_addr
  | EmptyPortList

datatype update_error =
    PublicKeyChange public_key public_key
  | RatePackChange rate_pack rate_pack
  | NodeAddrChange node_addr node_addr

text \<open>
  The environment: \<open>env_to_vec\<close> and \<open>env_from_slice\<close> are \<^verbatim>\<open>serde_cbor\<close>'s, \<open>env_sign\<close> and
  \<open>env_verify_signature\<close> the \<open>CryptDE\<close>'s (\<open>None\<close> for an error), \<open>env_public_key\<close> its public key,
  \<open>env_find_country\<close> the country table, \<open>env_now\<close> the time of the call in seconds
  (\<^verbatim>\<open>time_t_timestamp\<close>), \<open>env_system_time\<close> the same instant as a \<open>SystemTime\<close> in nanoseconds and
  \<open>env_iter\<close> the order of a \<open>HashSet\<close>.
\<close>

record node_env =
  env_public_key :: public_key
  env_sign :: "bytes \<Rightarrow> bytes option"
  env_verify_signature :: "bytes \<Rightarrow> bytes \<Rightarrow> public_key \<Rightarrow> bool"
  env_to_vec :: "node_record_inner \<Rightarrow> bytes option"
  env_from_slice :: "bytes \<Rightarrow> node_record_inner option"
  env_find_country :: "ip_addr \<Rightarrow> country_code option"
  env_now :: u32
  env_system_time :: int
  env_iter :: "public_key fset \<Rightarrow> public_key list"

section \<open>Operations\<close>

definition get_node_location :: "node_env \<Rightarrow> ip_addr option \<Rightarrow> node_location option" where
  "get_node_location E ip_opt = (case ip_opt of
      Some ip_addr \<Rightarrow> map_option (\<lambda>country. \<lparr>nl_country_code = country\<rparr>) (env_find_country E ip_addr)
    | None \<Rightarrow> None)"

definition metadata_new :: "node_env \<Rightarrow> node_record_metadata" where
  "metadata_new E = \<lparr>nrm_last_update = env_now E, nrm_node_addr_opt = None,
     nrm_unreachable_hosts = {||}, nrm_node_location_opt = None, nrm_country_undesirability = 0\<rparr>"

definition regenerate_signed_gossip_of :: "node_env \<Rightarrow> node_record_inner \<Rightarrow> (bytes \<times> bytes) run" where
  "regenerate_signed_gossip_of E inner = do {
     signed_gossip \<leftarrow> env_to_vec E inner;
     signature \<leftarrow> env_sign E signed_gossip;
     ret (signed_gossip, signature) }"

definition regenerate_signed_gossip :: "node_env \<Rightarrow> node_record \<Rightarrow> node_record run" where
  "regenerate_signed_gossip E r = do {
     (signed_gossip, signature) \<leftarrow> regenerate_signed_gossip_of E (nr_inner r);
     ret (r\<lparr>nr_signed_gossip := signed_gossip, nr_signature := signature\<rparr>) }"

definition node_record_new :: "node_env \<Rightarrow> public_key \<Rightarrow> node_record_inputs \<Rightarrow> node_record run" where
  "node_record_new E pk inputs =
     (let country_opt = map_option nl_country_code (nin_location_opt inputs);
          r = \<lparr>nr_inner = \<lparr>nri_public_key = pk, nri_earning_wallet = nin_earning_wallet inputs,
                 nri_rate_pack = nin_rate_pack inputs, nri_neighbors = {||},
                 nri_accepts_connections = nin_accepts_connections inputs,
                 nri_routes_data = nin_routes_data inputs, nri_version = nin_version inputs,
                 nri_country_code_opt = country_opt\<rparr>,
               nr_metadata = (metadata_new E)\<lparr>nrm_node_location_opt := nin_location_opt inputs\<rparr>,
               nr_signed_gossip = [], nr_signature = []\<rparr>
      in regenerate_signed_gossip E r)"

definition public_key :: "node_record \<Rightarrow> public_key" where
  "public_key r = nri_public_key (nr_inner r)"

definition node_addr_opt :: "node_record \<Rightarrow> node_addr option" where
  "node_addr_opt r = map_option node_addr_clone (nrm_node_addr_opt (nr_metadata r))"

definition put_node_addr :: "node_addr option \<Rightarrow> node_record \<Rightarrow> node_record" where
  "put_node_addr na_opt r = r\<lparr>nr_metadata := (nr_metadata r)\<lparr>nrm_node_addr_opt := na_opt\<rparr>\<rparr>"

definition set_node_addr :: "node_addr \<Rightarrow> node_record \<Rightarrow> (neighborhood_database_error + bool) \<times> node_record" where
  "set_node_addr na r = (case nrm_node_addr_opt (nr_metadata r) of
      Some inner_node_addr \<Rightarrow>
        if na = inner_node_addr then (Inr False, r)
        else (Inl (NodeAddrAlreadySet (node_addr_clone inner_node_addr)), r)
    | None \<Rightarrow> (Inr True, put_node_addr (Some (node_addr_clone na)) r))"

definition unset_node_addr :: "node_record \<Rightarrow> node_record" where
  "unset_node_addr r = put_node_addr None r"

definition half_neighbor_keys :: "node_record \<Rightarrow> public_key fset" where
  "half_neighbor_keys r = nri_neighbors (nr_inner r)"

definition has_half_neighbor :: "node_record \<Rightarrow> public_key \<Rightarrow> bool" where
  "has_half_neighbor r key \<longleftrightarrow> key |\<in>| nri_neighbors (nr_inner r)"

definition put_neighbors :: "public_key fset \<Rightarrow> node_record \<Rightarrow> node_record" where
  "put_neighbors ns r = r\<lparr>nr_inner := (nr_inner r)\<lparr>nri_neighbors := ns\<rparr>\<rparr>"

definition add_half_neighbor_key :: "public_key \<Rightarrow> node_record \<Rightarrow> (node_record_error + unit) \<times> node_record" where
  "add_half_neighbor_key key r =
     (if key = public_key r then (Inl (SelfNeighborAttempt (public_key r)), r)
      else (Inr (), put_neighbors (finsert key (nri_neighbors (nr_inner r))) r))"

definition remove_half_neighbor_key :: "public_key \<Rightarrow> node_record \<Rightarrow> bool \<times> node_record" where
  "remove_half_neighbor_key key r =
     (key |\<in>| nri_neighbors (nr_inner r), put_neighbors (nri_neighbors (nr_inner r) |-| {|key|}) r)"

definition clear_half_neighbors :: "node_record \<Rightarrow> node_record" where
  "clear_half_neighbors r = put_neighbors {||} r"

definition accepts_connections :: "node_record \<Rightarrow> bool" where
  "accepts_connections r = nri_accepts_connections (nr_inner r)"

definition routes_data :: "node_record \<Rightarrow> bool" where
  "routes_data r = nri_routes_data (nr_inner r)"

definition version :: "node_record \<Rightarrow> u32" where
  "version r = nri_version (nr_inner r)"

definition set_version :: "u32 \<Rightarrow> node_record \<Rightarrow> node_record" where
  "set_version v r = r\<lparr>nr_inner := (nr_inner r)\<lparr>nri_version := v\<rparr>\<rparr>"

definition increment_version :: "node_record \<Rightarrow> node_record" where
  "increment_version r = set_version (version r + 1) r"

definition last_updated :: "node_record \<Rightarrow> u32" where
  "last_updated r = nrm_last_update (nr_metadata r)"

definition touch :: "node_env \<Rightarrow> node_record \<Rightarrow> node_record" where
  "touch E r = r\<lparr>nr_metadata := (nr_metadata r)\<lparr>nrm_last_update := env_now E\<rparr>\<rparr>"

definition earning_wallet :: "node_record \<Rightarrow> wallet" where
  "earning_wallet r = nri_earning_wallet (nr_inner r)"

definition set_earning_wallet :: "wallet \<Rightarrow> node_record \<Rightarrow> bool \<times> node_record" where
  "set_earning_wallet w r =
     (if nri_earning_wallet (nr_inner r) = w then (False, r)
      else (True, r\<lparr>nr_inner := (nr_inner r)\<lparr>nri_earning_wallet := w\<rparr>\<rparr>))"

definition rate_pack_of :: "node_record \<Rightarrow> rate_pack" where
  "rate_pack_of r = nri_rate_pack (nr_inner r)"

definition update_node_record ::
  "node_env \<Rightarrow> accessible_gossip_record \<Rightarrow> node_record \<Rightarrow> (update_error + unit) \<times> node_record" where
  "update_node_record E agr r =
     (if nri_public_key (agr_inner agr) \<noteq> public_key r
      then (Inl (PublicKeyChange (public_key r) (nri_public_key (agr_inner agr))), r)
      else if nri_rate_pack (agr_inner agr) \<noteq> rate_pack_of r
      then (Inl (RatePackChange (rate_pack_of r) (nri_rate_pack (agr_inner agr))), r)
      else
        let accept = (\<lambda>r'. (touch E r')\<lparr>nr_signed_gossip := agr_signed_gossip agr,
              nr_signature := agr_signature agr, nr_inner := agr_inner agr\<rparr>)
        in case (nrm_node_addr_opt (nr_metadata r), agr_node_addr_opt agr) of
            (None, None) \<Rightarrow> (Inr (), accept r)
          | (None, Some na) \<Rightarrow> (Inr (), accept (put_node_addr (Some (node_addr_clone na)) r))
          | (Some _, None) \<Rightarrow> (Inr (), accept r)
          | (Some existing, Some incoming) \<Rightarrow>
              if existing \<noteq> incoming then (Inl (NodeAddrChange existing incoming), r)
              else (Inr (), accept r))"

definition agr_clone :: "accessible_gossip_record \<Rightarrow> accessible_gossip_record" where
  "agr_clone agr = agr\<lparr>agr_node_addr_opt := map_option node_addr_clone (agr_node_addr_opt agr)\<rparr>"

definition node_record_of_agr :: "node_env \<Rightarrow> accessible_gossip_record \<Rightarrow> node_record" where
  "node_record_of_agr E agr =
     \<lparr>nr_inner = agr_inner agr,
      nr_metadata = (metadata_new E)\<lparr>
        nrm_node_location_opt := get_node_location E (map_option na_ip_addr (agr_node_addr_opt agr)),
        nrm_node_addr_opt := agr_node_addr_opt agr\<rparr>,
      nr_signed_gossip = agr_signed_gossip agr,
      nr_signature = agr_signature agr\<rparr>"

definition node_record_of_agr_ref :: "node_env \<Rightarrow> accessible_gossip_record \<Rightarrow> node_record" where
  "node_record_of_agr_ref E agr_ref = node_record_of_agr E (agr_clone agr_ref)"

definition node_record_clone :: "node_record \<Rightarrow> node_record" where
  "node_record_clone r = put_node_addr (node_addr_opt r) r"

section \<open>How the operations move the fields\<close>

lemmas node_record_defs [simp] =
  public_key_def has_half_neighbor_def half_neighbor_keys_def put_neighbors_def put_node_addr_def
  accepts_connections_def routes_data_def version_def set_version_def increment_version_def
  last_updated_def touch_def earning_wallet_def rate_pack_of_def clear_half_neighbors_def
  unset_node_addr_def

lemma regenerate_signed_gossip_frame:
  assumes "regenerate_signed_gossip E r = Some r'"
  shows "nr_inner r' = nr_inner r" "nr_metadata r' = nr_metadata r"
  using assms by (auto simp: regenerate_signed_gossip_def split: bind_splits)

text \<open>
  What the code expects of its environment: a hash set yields each element once, and serialising
  and signing the local Node's own data do not fail (the source calls \<^verbatim>\<open>expect\<close> on both).
\<close>

definition env_ok :: "node_env \<Rightarrow> bool" where
  "env_ok E \<longleftrightarrow> hash_iteration (env_iter E) \<and> (\<forall>inner. env_to_vec E inner \<noteq> None) \<and> (\<forall>b. env_sign E b \<noteq> None)"

lemma env_ok_iter [simp]:
  assumes "env_ok E"
  shows "set (env_iter E S) = fset S" "distinct (env_iter E S)"
  using assms by (simp_all add: env_ok_def hash_iteration_def)

lemma env_ok_regenerate_of:
  assumes "env_ok E"
  obtains g s where "regenerate_signed_gossip_of E inner = Some (g, s)"
proof -
  from assms obtain g where g: "env_to_vec E inner = Some g" by (auto simp: env_ok_def)
  from assms obtain s where "env_sign E g = Some s" by (auto simp: env_ok_def)
  with g show thesis by (intro that [of g s]) (simp add: regenerate_signed_gossip_of_def)
qed

lemma env_ok_regenerate:
  assumes "env_ok E"
  obtains r' where "regenerate_signed_gossip E r = Some r'" "nr_inner r' = nr_inner r"
    "nr_metadata r' = nr_metadata r"
proof -
  from assms obtain g s where "regenerate_signed_gossip_of E (nr_inner r) = Some (g, s)"
    by (rule env_ok_regenerate_of)
  then have "regenerate_signed_gossip E r = Some (r\<lparr>nr_signed_gossip := g, nr_signature := s\<rparr>)"
    by (simp add: regenerate_signed_gossip_def)
  then show thesis by (rule that) simp_all
qed

lemma node_record_of_agr_sel [simp]:
  "nr_inner (node_record_of_agr E agr) = agr_inner agr"
  "nrm_node_addr_opt (nr_metadata (node_record_of_agr E agr)) = agr_node_addr_opt agr"
  "nr_inner (node_record_of_agr_ref E agr) = agr_inner agr"
  "nrm_node_addr_opt (nr_metadata (node_record_of_agr_ref E agr)) =
     map_option node_addr_clone (agr_node_addr_opt agr)"
  by (simp_all add: node_record_of_agr_def node_record_of_agr_ref_def agr_clone_def)

lemma agr_clone_sel [simp]:
  "agr_inner (agr_clone agr) = agr_inner agr"
  "agr_node_addr_opt (agr_clone agr) = map_option node_addr_clone (agr_node_addr_opt agr)"
  by (simp_all add: agr_clone_def)

lemma node_record_clone_sel [simp]:
  "nr_inner (node_record_clone r) = nr_inner r"
  "nr_signed_gossip (node_record_clone r) = nr_signed_gossip r"
  "nr_signature (node_record_clone r) = nr_signature r"
  by (simp_all add: node_record_clone_def)

lemma update_node_record_error:
  "update_node_record E agr r = (Inl e, r') \<Longrightarrow> r' = r"
  by (auto simp: update_node_record_def Let_def split: if_splits option.splits)

lemma update_node_record_ok:
  assumes "update_node_record E agr r = (Inr u, r')"
  shows "nr_inner r' = agr_inner agr" "nri_public_key (agr_inner agr) = nri_public_key (nr_inner r)"
    "nri_rate_pack (agr_inner agr) = nri_rate_pack (nr_inner r)"
    "nrm_country_undesirability (nr_metadata r') = nrm_country_undesirability (nr_metadata r)"
    "nrm_node_addr_opt (nr_metadata r') = (case nrm_node_addr_opt (nr_metadata r) of
       Some na \<Rightarrow> Some na | None \<Rightarrow> map_option node_addr_clone (agr_node_addr_opt agr))"
  using assms by (auto simp: update_node_record_def Let_def split: if_splits option.splits)

text \<open>A Node is never its own neighbor, and \<open>add_half_neighbor_key\<close> keeps it so.\<close>

definition no_self_neighbor :: "node_record \<Rightarrow> bool" where
  "no_self_neighbor r \<longleftrightarrow> \<not> has_half_neighbor r (public_key r)"

lemma add_half_neighbor_key_no_self:
  "no_self_neighbor r \<Longrightarrow> no_self_neighbor (snd (add_half_neighbor_key key r))"
  by (auto simp: no_self_neighbor_def add_half_neighbor_key_def)

end
