(* ===== verification/Chains.thy ===== *)
theory Chains
  imports Prelude
begin

text \<open>
  The blockchains a Node can work on: \<^verbatim>\<open>pulsemesh_lib/src/blockchains/chains.rs\<close>, the record table
  of \<^verbatim>\<open>blockchain_records.rs\<close> and the identifiers of \<^verbatim>\<open>constants.rs\<close>.
\<close>

datatype chain =
    PulseMainnet
  | EthMainnet
  | EthRopsten
  | PolyMainnet
  | PolyAmoy
  | BaseMainnet
  | BaseSepolia
  | Dev

definition POLYGON_MAINNET_FULL_IDENTIFIER :: string where
  "POLYGON_MAINNET_FULL_IDENTIFIER = ''polygon-mainnet''"

definition POLYGON_AMOY_FULL_IDENTIFIER :: string where
  "POLYGON_AMOY_FULL_IDENTIFIER = ''polygon-amoy''"

definition ETH_MAINNET_FULL_IDENTIFIER :: string where
  "ETH_MAINNET_FULL_IDENTIFIER = ''eth-mainnet''"

definition ETH_ROPSTEN_FULL_IDENTIFIER :: string where
  "ETH_ROPSTEN_FULL_IDENTIFIER = ''eth-ropsten''"

definition BASE_MAINNET_FULL_IDENTIFIER :: string where
  "BASE_MAINNET_FULL_IDENTIFIER = ''base-mainnet''"

definition BASE_SEPOLIA_FULL_IDENTIFIER :: string where
  "BASE_SEPOLIA_FULL_IDENTIFIER = ''base-sepolia''"

definition PULSE_MAINNET_FULL_IDENTIFIER :: string where
  "PULSE_MAINNET_FULL_IDENTIFIER = ''pulse-mainnet''"

definition DEV_CHAIN_FULL_IDENTIFIER :: string where
  "DEV_CHAIN_FULL_IDENTIFIER = ''dev''"

lemmas chain_identifiers =
  POLYGON_MAINNET_FULL_IDENTIFIER_def POLYGON_AMOY_FULL_IDENTIFIER_def
  ETH_MAINNET_FULL_IDENTIFIER_def ETH_ROPSTEN_FULL_IDENTIFIER_def
  BASE_MAINNET_FULL_IDENTIFIER_def BASE_SEPOLIA_FULL_IDENTIFIER_def
  PULSE_MAINNET_FULL_IDENTIFIER_def DEV_CHAIN_FULL_IDENTIFIER_def

record blockchain_record =
  self_id :: chain
  num_chain_id :: u64
  literal_identifier :: string
  contract :: bytes
  contract_creation_block :: u64

definition CHAINS :: "blockchain_record list" where
  "CHAINS = [
     \<lparr>self_id = PulseMainnet, num_chain_id = 369,
      literal_identifier = PULSE_MAINNET_FULL_IDENTIFIER,
      contract = [0x00, 0x00, 0x00, 0x00, 0x00, 0x00, 0x00, 0x00, 0x00, 0x00,
                  0x00, 0x00, 0x00, 0x00, 0x00, 0x00, 0x00, 0x00, 0x00, 0x00],
      contract_creation_block = 0\<rparr>,
     \<lparr>self_id = PolyMainnet, num_chain_id = 137,
      literal_identifier = POLYGON_MAINNET_FULL_IDENTIFIER,
      contract = [0xEe, 0x9A, 0x35, 0x2F, 0x6a, 0xAc, 0x4a, 0xF1, 0xA5, 0xB9,
                  0xf4, 0x67, 0xF6, 0xa9, 0x3E, 0x0f, 0xfB, 0xe9, 0xDd, 0x35],
      contract_creation_block = 14863650\<rparr>,
     \<lparr>self_id = EthMainnet, num_chain_id = 1,
      literal_identifier = ETH_MAINNET_FULL_IDENTIFIER,
      contract = [0x06, 0xF3, 0xC3, 0x23, 0xf0, 0x23, 0x8c, 0x72, 0xBF, 0x35,
                  0x01, 0x10, 0x71, 0xf2, 0xb5, 0xB7, 0xF4, 0x3A, 0x05, 0x4c],
      contract_creation_block = 11170708\<rparr>,
     \<lparr>self_id = BaseMainnet, num_chain_id = 8453,
      literal_identifier = BASE_MAINNET_FULL_IDENTIFIER,
      contract = [0x45, 0xD9, 0xC1, 0x01, 0xa3, 0x87, 0x0C, 0xa5, 0x02, 0x45,
                  0x82, 0xfd, 0x78, 0x8F, 0x4E, 0x1e, 0x8F, 0x79, 0x71, 0xc3],
      contract_creation_block = 19711235\<rparr>,
     \<lparr>self_id = BaseSepolia, num_chain_id = 84532,
      literal_identifier = BASE_SEPOLIA_FULL_IDENTIFIER,
      contract = [0x89, 0x8e, 0x1c, 0xe7, 0x20, 0x08, 0x4A, 0x90, 0x2b, 0xc3,
                  0x7d, 0xd8, 0x22, 0xed, 0x6d, 0x6a, 0x5f, 0x02, 0x7e, 0x10],
      contract_creation_block = 14732730\<rparr>,
     \<lparr>self_id = PolyAmoy, num_chain_id = 80002,
      literal_identifier = POLYGON_AMOY_FULL_IDENTIFIER,
      contract = [0xd9, 0x8c, 0x3e, 0xbd, 0x6b, 0x7f, 0x9b, 0x7c, 0xda, 0x24,
                  0x49, 0xec, 0xac, 0x00, 0xd1, 0xe5, 0xf4, 0x7a, 0x81, 0x93],
      contract_creation_block = 5323366\<rparr>,
     \<lparr>self_id = EthRopsten, num_chain_id = 3,
      literal_identifier = ETH_ROPSTEN_FULL_IDENTIFIER,
      contract = [0x38, 0x4d, 0xec, 0x25, 0xe0, 0x3f, 0x94, 0x93, 0x17, 0x67,
                  0xce, 0x4c, 0x35, 0x56, 0x16, 0x84, 0x68, 0xba, 0x24, 0xc3],
      contract_creation_block = 8688171\<rparr>,
     \<lparr>self_id = Dev, num_chain_id = 2,
      literal_identifier = DEV_CHAIN_FULL_IDENTIFIER,
      contract = [0x59, 0x88, 0x2e, 0x4a, 0x8f, 0x5d, 0x24, 0x64, 0x3d, 0x4d,
                  0xda, 0x42, 0x29, 0x22, 0xa8, 0x70, 0xf1, 0xb3, 0xe6, 0x64],
      contract_creation_block = 0\<rparr>]"

definition chain_of_str :: "string \<Rightarrow> chain run" where
  "chain_of_str str =
     (if str = PULSE_MAINNET_FULL_IDENTIFIER then ret PulseMainnet
      else if str = POLYGON_MAINNET_FULL_IDENTIFIER then ret PolyMainnet
      else if str = ETH_MAINNET_FULL_IDENTIFIER then ret EthMainnet
      else if str = BASE_MAINNET_FULL_IDENTIFIER then ret BaseMainnet
      else if str = BASE_SEPOLIA_FULL_IDENTIFIER then ret BaseSepolia
      else if str = POLYGON_AMOY_FULL_IDENTIFIER then ret PolyAmoy
      else if str = ETH_ROPSTEN_FULL_IDENTIFIER then ret EthRopsten
      else if str = DEV_CHAIN_FULL_IDENTIFIER then ret Dev
      else panic)"

fun chain_display :: "chain \<Rightarrow> string" where
  "chain_display PulseMainnet = PULSE_MAINNET_FULL_IDENTIFIER"
| "chain_display EthMainnet = ETH_MAINNET_FULL_IDENTIFIER"
| "chain_display EthRopsten = ETH_ROPSTEN_FULL_IDENTIFIER"
| "chain_display PolyMainnet = POLYGON_MAINNET_FULL_IDENTIFIER"
| "chain_display PolyAmoy = POLYGON_AMOY_FULL_IDENTIFIER"
| "chain_display BaseMainnet = BASE_MAINNET_FULL_IDENTIFIER"
| "chain_display BaseSepolia = BASE_SEPOLIA_FULL_IDENTIFIER"
| "chain_display Dev = DEV_CHAIN_FULL_IDENTIFIER"

definition chain_rec :: "chain \<Rightarrow> blockchain_record run" where
  "chain_rec c = find (\<lambda>b. self_id b = c) CHAINS"

definition mainnets :: "chain list" where
  "mainnets = [PulseMainnet, PolyMainnet, BaseMainnet, EthMainnet]"

definition is_mainnet :: "chain \<Rightarrow> bool" where
  "is_mainnet c = list_ex (\<lambda>mainnet_chain. mainnet_chain = c) mainnets"

definition return_record_opt_body ::
  "(blockchain_record \<Rightarrow> bool) \<Rightarrow> blockchain_record list \<Rightarrow> blockchain_record option run" where
  "return_record_opt_body closure collection_of_chains =
     (case filter closure collection_of_chains of
        [] \<Rightarrow> ret None
      | [b] \<Rightarrow> ret (Some b)
      | _ \<Rightarrow> panic)"

definition chain_from_chain_identifier_opt :: "string \<Rightarrow> chain option run" where
  "chain_from_chain_identifier_opt identifier =
     map_option (map_option self_id)
       (return_record_opt_body (\<lambda>b. literal_identifier b = identifier) CHAINS)"

section \<open>Lookup in the table\<close>

lemma chain_rec_total: "\<exists>b. chain_rec c = Some b \<and> self_id b = c \<and> literal_identifier b = chain_display c"
  by (cases c) (simp_all add: chain_rec_def CHAINS_def)

lemma chain_display_inj: "chain_display c = chain_display d \<Longrightarrow> c = d"
  by (cases c; cases d; simp add: chain_identifiers)

lemma chain_of_str_display: "chain_of_str (chain_display c) = Some c"
  by (cases c) (simp_all add: chain_of_str_def chain_identifiers)

lemma chain_identifiers_distinct: "distinct (map literal_identifier CHAINS)"
  by (simp add: CHAINS_def chain_identifiers)

lemma filter_distinct_key:
  assumes "distinct (map f xs)"
  shows "filter (\<lambda>x. f x = k) xs = (case find (\<lambda>x. f x = k) xs of None \<Rightarrow> [] | Some x \<Rightarrow> [x])"
  using assms
proof (induction xs)
  case Nil
  then show ?case by simp
next
  case (Cons x xs)
  moreover from Cons.prems have "f x = k \<Longrightarrow> find (\<lambda>x. f x = k) xs = None"
    by (clarsimp simp: find_None_iff) (metis imageI)
  ultimately show ?case by simp
qed

lemma chain_from_chain_identifier_opt_eq:
  "chain_from_chain_identifier_opt s = Some (map_option self_id (find (\<lambda>b. literal_identifier b = s) CHAINS))"
  by (simp add: chain_from_chain_identifier_opt_def return_record_opt_body_def
      filter_distinct_key [OF chain_identifiers_distinct] split: option.split)

end
