(* ===== verification/Neighborhood_Types.thy ===== *)
theory Neighborhood_Types
  imports Node_Record Chains
begin

text \<open>
  The messages and settings of \<^verbatim>\<open>node/src/sub_lib/neighborhood.rs\<close> that the Neighborhood's
  components exchange.
\<close>

record node_descriptor =
  nd_blockchain :: chain
  nd_encryption_public_key :: public_key
  nd_node_addr_opt :: "node_addr option"

datatype neighborhood_mode =
    Standard node_addr "node_descriptor list" rate_pack
  | ZeroHop
  | OriginateOnly "node_descriptor list" rate_pack
  | ConsumeOnly "node_descriptor list"

datatype neighborhood_mode_light = StandardLight | ConsumeOnlyLight | OriginateOnlyLight | ZeroHopLight

fun mode_light :: "neighborhood_mode \<Rightarrow> neighborhood_mode_light" where
  "mode_light (Standard _ _ _) = StandardLight"
| "mode_light (ConsumeOnly _) = ConsumeOnlyLight"
| "mode_light (OriginateOnly _ _) = OriginateOnlyLight"
| "mode_light ZeroHop = ZeroHopLight"

fun mode_neighbor_configs :: "neighborhood_mode \<Rightarrow> node_descriptor list" where
  "mode_neighbor_configs (Standard _ neighbor_configs _) = neighbor_configs"
| "mode_neighbor_configs ZeroHop = []"
| "mode_neighbor_configs (OriginateOnly neighbor_configs _) = neighbor_configs"
| "mode_neighbor_configs (ConsumeOnly neighbor_configs) = neighbor_configs"

fun mode_node_addr_opt :: "neighborhood_mode \<Rightarrow> node_addr option" where
  "mode_node_addr_opt (Standard node_addr _ _) = Some (node_addr_clone node_addr)"
| "mode_node_addr_opt _ = None"

fun mode_rate_pack :: "neighborhood_mode \<Rightarrow> rate_pack" where
  "mode_rate_pack (Standard _ _ rate_pack) = rate_pack"
| "mode_rate_pack (OriginateOnly _ rate_pack) = rate_pack"
| "mode_rate_pack _ = zero_rate_pack"

fun mode_accepts_connections :: "neighborhood_mode \<Rightarrow> bool" where
  "mode_accepts_connections (Standard _ _ _) = True"
| "mode_accepts_connections _ = False"

fun mode_routes_data :: "neighborhood_mode \<Rightarrow> bool" where
  "mode_routes_data (Standard _ _ _) = True"
| "mode_routes_data (OriginateOnly _ _) = True"
| "mode_routes_data _ = False"

datatype hops = OneHop | TwoHops | ThreeHops | FourHops | FiveHops | SixHops

fun hops_num :: "hops \<Rightarrow> nat" where
  "hops_num OneHop = 1"
| "hops_num TwoHops = 2"
| "hops_num ThreeHops = 3"
| "hops_num FourHops = 4"
| "hops_num FiveHops = 5"
| "hops_num SixHops = 6"

definition hops_of_str :: "string \<Rightarrow> string + hops" where
  "hops_of_str value =
     (if value = ''1'' then Inr OneHop
      else if value = ''2'' then Inr TwoHops
      else if value = ''3'' then Inr ThreeHops
      else if value = ''4'' then Inr FourHops
      else if value = ''5'' then Inr FiveHops
      else if value = ''6'' then Inr SixHops
      else Inl ''Invalid value for min hops provided'')"

datatype connection_progress_event =
    TcpConnectionSuccessful
  | TcpConnectionFailedEvent
  | NoGossipResponseReceivedEvent
  | PassLoopFoundEvent
  | StandardGossipReceived
  | IntroductionGossipReceived ip_addr
  | PassGossipReceived ip_addr

record connection_progress_message =
  cpm_peer_addr :: ip_addr
  cpm_event :: connection_progress_event

datatype gossip_failure = NoNeighbors | NoSuitableNeighbors | ManualRejection | UnknownFailure

datatype component = NeighborhoodComponent | HopperComponent | ProxyServerComponent | ProxyClientComponent

record route_query_message =
  rqm_target_key_opt :: "public_key option"
  rqm_target_component :: component
  rqm_return_component_opt :: "component option"
  rqm_payload_size :: u64
  rqm_hostname_opt :: "string option"

datatype expected_service =
    RoutingService public_key wallet rate_pack
  | ExitService public_key wallet rate_pack
  | NoService

end
