(* ===== verification/Neighborhood_Database.thy ===== *)
theory Neighborhood_Database
  imports Neighborhood_Types
begin

text \<open>
  The database of known Nodes: \<^verbatim>\<open>node/src/neighborhood/neighborhood_database.rs\<close>, with the methods of
  \<open>NodeRecord\<close> that read it. Two finite maps, from keys to records and from addresses to keys,
  and the key of the local Node (the root).
\<close>

section \<open>State and operations\<close>

record neighborhood_database =
  ndb_this_node :: public_key
  ndb_by_public_key :: "(public_key, node_record) fmap"
  ndb_by_ip_addr :: "(ip_addr, public_key) fmap"

definition ISOLATED_NODE_GRACE_PERIOD_SECS :: u32 where
  "ISOLATED_NODE_GRACE_PERIOD_SECS = 30"

definition node_by_key :: "neighborhood_database \<Rightarrow> public_key \<Rightarrow> node_record option" where
  "node_by_key db key = fmlookup (ndb_by_public_key db) key"

definition put_node :: "public_key \<Rightarrow> node_record \<Rightarrow> neighborhood_database \<Rightarrow> neighborhood_database" where
  "put_node key r db = db\<lparr>ndb_by_public_key := fmupd key r (ndb_by_public_key db)\<rparr>"

definition root :: "neighborhood_database \<Rightarrow> node_record run" where
  "root db = node_by_key db (ndb_this_node db)"

definition root_mut :: "(node_record \<Rightarrow> node_record run) \<Rightarrow> neighborhood_database \<Rightarrow> neighborhood_database run" where
  "root_mut f db = do { r \<leftarrow> root db; r' \<leftarrow> f r; ret (put_node (ndb_this_node db) r' db) }"

definition keys :: "neighborhood_database \<Rightarrow> public_key fset" where
  "keys db = fmdom (ndb_by_public_key db)"

definition node_by_ip :: "neighborhood_database \<Rightarrow> ip_addr \<Rightarrow> node_record option" where
  "node_by_ip db ip = (case fmlookup (ndb_by_ip_addr db) ip of
      Some key \<Rightarrow> node_by_key db key
    | None \<Rightarrow> None)"

definition db_has_half_neighbor :: "neighborhood_database \<Rightarrow> public_key \<Rightarrow> public_key \<Rightarrow> bool" where
  "db_has_half_neighbor db from to = (case node_by_key db from of
      Some f \<Rightarrow> has_half_neighbor f to
    | None \<Rightarrow> False)"

definition db_has_full_neighbor :: "neighborhood_database \<Rightarrow> public_key \<Rightarrow> public_key \<Rightarrow> bool" where
  "db_has_full_neighbor db from to \<longleftrightarrow> db_has_half_neighbor db from to \<and> db_has_half_neighbor db to from"

definition full_neighbor_keys :: "node_record \<Rightarrow> neighborhood_database \<Rightarrow> public_key fset" where
  "full_neighbor_keys r db = ffilter (\<lambda>k. case node_by_key db k of
      Some node_record_ref \<Rightarrow> has_half_neighbor node_record_ref (public_key r)
    | None \<Rightarrow> False) (half_neighbor_keys r)"

definition full_neighbors :: "node_env \<Rightarrow> node_record \<Rightarrow> neighborhood_database \<Rightarrow> node_record list run" where
  "full_neighbors E r db = those (map (node_by_key db) (env_iter E (full_neighbor_keys r db)))"

definition has_full_neighbor :: "node_record \<Rightarrow> neighborhood_database \<Rightarrow> public_key \<Rightarrow> bool" where
  "has_full_neighbor r db key =
     (if key |\<notin>| half_neighbor_keys r then False
      else case node_by_key db key of
          Some neighbor \<Rightarrow> public_key r |\<in>| half_neighbor_keys neighbor
        | None \<Rightarrow> False)"

definition gossip_target_degree :: "node_env \<Rightarrow> neighborhood_database \<Rightarrow> public_key \<Rightarrow> nat run" where
  "gossip_target_degree E db target = (case node_by_key db target of
      None \<Rightarrow> ret 0
    | Some target_node \<Rightarrow> do {
        ns \<leftarrow> full_neighbors E target_node db;
        let full_accepting_degree = length (filter accepts_connections ns);
            nonexistent_degree = fcard (ffilter (\<lambda>k. k |\<notin>| keys db) (half_neighbor_keys target_node))
        in ret (full_accepting_degree + nonexistent_degree) })"

definition add_arbitrary_node :: "node_record \<Rightarrow> neighborhood_database \<Rightarrow> neighborhood_database" where
  "add_arbitrary_node r db =
     (let db' = put_node (public_key r) r db
      in case node_addr_opt r of
          Some na \<Rightarrow> db'\<lparr>ndb_by_ip_addr := fmupd (na_ip_addr na) (public_key r) (ndb_by_ip_addr db')\<rparr>
        | None \<Rightarrow> db')"

definition check_for_ports :: "node_addr option \<Rightarrow> neighborhood_database_error + unit" where
  "check_for_ports na_opt = (case na_opt of
      None \<Rightarrow> Inr ()
    | Some na \<Rightarrow> if na_ports na = [] then Inl EmptyPortList else Inr ())"

definition check_for_collision ::
  "neighborhood_database \<Rightarrow> public_key \<Rightarrow> neighborhood_database_error + unit" where
  "check_for_collision db key = (if key |\<in>| keys db then Inl (NodeKeyCollision key) else Inr ())"

definition add_node ::
  "node_record \<Rightarrow> neighborhood_database \<Rightarrow> (neighborhood_database_error + public_key) \<times> neighborhood_database" where
  "add_node r db = (case check_for_ports (node_addr_opt r) of
      Inl e \<Rightarrow> (Inl e, db)
    | Inr _ \<Rightarrow> (case check_for_collision db (public_key r) of
        Inl e \<Rightarrow> (Inl e, db)
      | Inr _ \<Rightarrow> (Inr (public_key r), add_arbitrary_node r db)))"

definition add_half_neighbor ::
  "node_env \<Rightarrow> public_key \<Rightarrow> neighborhood_database \<Rightarrow>
     (neighborhood_database_error + bool) \<times> neighborhood_database" where
  "add_half_neighbor E new_neighbor db =
     (if new_neighbor |\<notin>| keys db then (Inl (NodeKeyNotFound new_neighbor), db)
      else
        let node_key = ndb_this_node db
        in if db_has_half_neighbor db node_key new_neighbor then (Inr False, db)
           else case node_by_key db node_key of
               Some node \<Rightarrow> (case add_half_neighbor_key new_neighbor node of
                   (Inl (SelfNeighborAttempt key), _) \<Rightarrow> (Inl (DbSelfNeighborAttempt key), db)
                 | (Inr _, node') \<Rightarrow> (Inr True, put_node node_key (touch E node') db))
             | None \<Rightarrow> (Inl (NodeKeyNotFound node_key), db))"

definition remove_by_ip :: "ip_addr option \<Rightarrow> neighborhood_database \<Rightarrow> neighborhood_database" where
  "remove_by_ip ip_opt db = (case ip_opt of
      Some ip \<Rightarrow> db\<lparr>ndb_by_ip_addr := fmdrop ip (ndb_by_ip_addr db)\<rparr>
    | None \<Rightarrow> db)"

definition remove_neighbor ::
  "public_key \<Rightarrow> neighborhood_database \<Rightarrow> ((public_key + bool) \<times> neighborhood_database) run" where
  "remove_neighbor node_key db = (case node_by_key db node_key of
      None \<Rightarrow> ret (Inl node_key, db)
    | Some node_record \<Rightarrow> do {
        let ip_addr = map_option na_ip_addr (node_addr_opt node_record);
            db1 = put_node node_key (unset_node_addr node_record) db;
            db2 = remove_by_ip ip_addr db1
        in do {
          r \<leftarrow> root db2;
          (case remove_half_neighbor_key node_key r of (removed, r') \<Rightarrow>
             if removed then ret (Inr True, put_node (ndb_this_node db2) (increment_version r') db2)
             else ret (Inr False, put_node (ndb_this_node db2) r' db2)) } })"

definition remove_node :: "public_key \<Rightarrow> neighborhood_database \<Rightarrow> neighborhood_database" where
  "remove_node node_key db =
     (let ip_addr_opt = (case node_by_key db node_key of
            None \<Rightarrow> None
          | Some node \<Rightarrow> map_option na_ip_addr (node_addr_opt node))
      in remove_by_ip ip_addr_opt (db\<lparr>ndb_by_public_key := fmdrop node_key (ndb_by_public_key db)\<rparr>))"

definition referenced_node_keys :: "neighborhood_database \<Rightarrow> public_key fset run" where
  "referenced_node_keys db = do {
     r \<leftarrow> root db;
     ret (finsert (public_key r)
       (ffUnion ((\<lambda>n. nri_neighbors (nr_inner n)) |`| fmran (ndb_by_public_key db)))) }"

definition isolated_since :: "neighborhood_database \<Rightarrow> public_key fset \<Rightarrow> u32 \<Rightarrow> public_key fset" where
  "isolated_since db referenced deadline = ffilter (\<lambda>k. k |\<notin>| referenced \<and>
     (case node_by_key db k of Some n \<Rightarrow> last_updated n \<le> deadline | None \<Rightarrow> False)) (keys db)"

definition cull_dead_nodes :: "node_env \<Rightarrow> neighborhood_database \<Rightarrow> neighborhood_database run" where
  "cull_dead_nodes E db = do {
     referenced \<leftarrow> referenced_node_keys db;
     let deadline = env_now E - ISOLATED_NODE_GRACE_PERIOD_SECS;
         to_cull = isolated_since db referenced deadline
     in ret (fold remove_node (sorted_list_of_fset to_cull) db) }"

definition new_public_ip :: "ip_addr \<Rightarrow> neighborhood_database \<Rightarrow> neighborhood_database run" where
  "new_public_ip public_ip db = do {
     record \<leftarrow> root db;
     old_node_addr \<leftarrow> nrm_node_addr_opt (nr_metadata record);
     let new_node_addr = node_addr_new public_ip (na_ports old_node_addr);
         db' = put_node (ndb_this_node db) (put_node_addr (Some new_node_addr) record) db
     in ret (db'\<lparr>ndb_by_ip_addr := fmupd public_ip (public_key record)
          (fmdrop (na_ip_addr old_node_addr) (ndb_by_ip_addr db'))\<rparr>) }"

definition database_new ::
  "node_env \<Rightarrow> neighborhood_mode \<Rightarrow> wallet \<Rightarrow> neighborhood_database run" where
  "database_new E mode wallet = do {
     let result = \<lparr>ndb_this_node = env_public_key E, ndb_by_public_key = fmempty, ndb_by_ip_addr = fmempty\<rparr>;
         location_opt = (case mode_node_addr_opt mode of
             Some na \<Rightarrow> get_node_location E (Some (na_ip_addr na))
           | None \<Rightarrow> None);
         inputs = \<lparr>nin_earning_wallet = wallet, nin_rate_pack = mode_rate_pack mode,
             nin_accepts_connections = mode_accepts_connections mode,
             nin_routes_data = mode_routes_data mode, nin_version = 0, nin_location_opt = location_opt\<rparr>
     in do {
       r \<leftarrow> node_record_new E (env_public_key E) inputs;
       r' \<leftarrow> (case mode_node_addr_opt mode of
           Some na \<Rightarrow> (case set_node_addr na r of (Inl _, _) \<Rightarrow> panic | (Inr _, r') \<Rightarrow> ret r')
         | None \<Rightarrow> ret r);
       r'' \<leftarrow> regenerate_signed_gossip E r';
       ret (add_arbitrary_node r'' result) } }"

section \<open>The database as a keyed store\<close>

named_theorems db_simps

lemma node_by_key_put_node [db_simps, simp]:
  "node_by_key (put_node k r db) k' = (if k' = k then Some r else node_by_key db k')"
  by (simp add: node_by_key_def put_node_def)

lemma put_node_frame [db_simps, simp]:
  "ndb_this_node (put_node k r db) = ndb_this_node db"
  "ndb_by_ip_addr (put_node k r db) = ndb_by_ip_addr db"
  "keys (put_node k r db) = finsert k (keys db)"
  by (simp_all add: put_node_def keys_def)

lemma in_keys [db_simps]: "k |\<in>| keys db \<longleftrightarrow> node_by_key db k \<noteq> None"
  by (simp add: keys_def node_by_key_def fmlookup_dom_iff)

lemma remove_by_ip_frame [db_simps, simp]:
  "ndb_this_node (remove_by_ip ip_opt db) = ndb_this_node db"
  "node_by_key (remove_by_ip ip_opt db) = node_by_key db"
  "keys (remove_by_ip ip_opt db) = keys db"
  by (auto simp: remove_by_ip_def node_by_key_def keys_def fun_eq_iff split: option.splits)

lemma remove_by_ip_lookup [db_simps]:
  "fmlookup (ndb_by_ip_addr (remove_by_ip ip_opt db)) ip =
     (if ip_opt = Some ip then None else fmlookup (ndb_by_ip_addr db) ip)"
  by (auto simp: remove_by_ip_def split: option.splits)

lemma node_by_key_remove_node [db_simps, simp]:
  "node_by_key (remove_node k db) k' = (if k' = k then None else node_by_key db k')"
  unfolding remove_node_def Let_def remove_by_ip_frame by (simp add: node_by_key_def)

lemma remove_node_frame [db_simps, simp]: "ndb_this_node (remove_node k db) = ndb_this_node db"
  by (simp add: remove_node_def Let_def)

lemma add_arbitrary_node_frame [db_simps, simp]:
  "ndb_this_node (add_arbitrary_node r db) = ndb_this_node db"
  "node_by_key (add_arbitrary_node r db) k =
     (if k = public_key r then Some r else node_by_key db k)"
  "keys (add_arbitrary_node r db) = finsert (public_key r) (keys db)"
  by (auto simp: add_arbitrary_node_def Let_def node_by_key_def put_node_def keys_def split: option.splits)

lemma add_arbitrary_node_by_ip [db_simps]:
  "fmlookup (ndb_by_ip_addr (add_arbitrary_node r db)) ip =
     (if map_option na_ip_addr (nrm_node_addr_opt (nr_metadata r)) = Some ip then Some (public_key r)
      else fmlookup (ndb_by_ip_addr db) ip)"
  by (auto simp: add_arbitrary_node_def Let_def node_addr_opt_def split: option.splits)

text \<open>
  What the maintenance code relies on: entries are found after they are put, not found after they
  are deleted, and other entries are untouched.
\<close>

locale keyed_store =
  fixes lookup :: "'db \<Rightarrow> 'k \<Rightarrow> 'v option"
    and put :: "'k \<Rightarrow> 'v \<Rightarrow> 'db \<Rightarrow> 'db"
    and del :: "'k \<Rightarrow> 'db \<Rightarrow> 'db"
  assumes lookup_put: "lookup (put k v db) k' = (if k' = k then Some v else lookup db k')"
    and lookup_del: "lookup (del k db) k' = (if k' = k then None else lookup db k')"
begin

lemma lookup_del_all: "lookup (fold del ks db) k = (if k \<in> set ks then None else lookup db k)"
  by (induction ks arbitrary: db) (auto simp: lookup_del)

lemma lookup_put_put: "lookup (put k v (put k w db)) = lookup (put k v db)"
  by (auto simp: lookup_put fun_eq_iff)

end

interpretation nodes: keyed_store node_by_key put_node remove_node
  by unfold_locales simp_all

section \<open>Well-formed databases\<close>

text \<open>
  Records are stored under their own key; the address index points only at Nodes known at that
  address; the root is there, is not its own neighbor, has an address if it accepts connections,
  and every half neighbor of the root is a known Node with a known address.
\<close>

definition has_node_addr :: "node_record \<Rightarrow> bool" where
  "has_node_addr r \<longleftrightarrow> nrm_node_addr_opt (nr_metadata r) \<noteq> None"

definition keys_consistent :: "neighborhood_database \<Rightarrow> bool" where
  "keys_consistent db \<longleftrightarrow> (\<forall>k r. node_by_key db k = Some r \<longrightarrow> public_key r = k)"

definition ips_consistent :: "neighborhood_database \<Rightarrow> bool" where
  "ips_consistent db \<longleftrightarrow> (\<forall>ip k. fmlookup (ndb_by_ip_addr db) ip = Some k \<longrightarrow>
     (\<exists>r na. node_by_key db k = Some r \<and> nrm_node_addr_opt (nr_metadata r) = Some na \<and> na_ip_addr na = ip))"

definition root_sound :: "neighborhood_database \<Rightarrow> node_record \<Rightarrow> bool" where
  "root_sound db r \<longleftrightarrow> no_self_neighbor r \<and> (accepts_connections r \<longrightarrow> has_node_addr r) \<and>
     (\<forall>k. has_half_neighbor r k \<longrightarrow> (\<exists>n. node_by_key db k = Some n \<and> has_node_addr n))"

definition wf_db :: "neighborhood_database \<Rightarrow> bool" where
  "wf_db db \<longleftrightarrow> keys_consistent db \<and> ips_consistent db \<and> (\<exists>r. root db = Some r \<and> root_sound db r)"

lemmas wf_db_defs = wf_db_def keys_consistent_def ips_consistent_def root_sound_def has_node_addr_def
  root_def no_self_neighbor_def

lemma wf_db_root:
  assumes "wf_db db"
  obtains r where "root db = Some r" "node_by_key db (ndb_this_node db) = Some r"
    "nri_public_key (nr_inner r) = ndb_this_node db" "root_sound db r"
  using assms by (auto simp: wf_db_def keys_consistent_def root_def)

lemma wf_db_key: "wf_db db \<Longrightarrow> node_by_key db k = Some r \<Longrightarrow> nri_public_key (nr_inner r) = k"
  by (auto simp: wf_db_def keys_consistent_def)

lemma wf_db_ip:
  assumes "wf_db db" and "fmlookup (ndb_by_ip_addr db) ip = Some k"
  obtains r na where "node_by_key db k = Some r" "nrm_node_addr_opt (nr_metadata r) = Some na"
    "na_ip_addr na = ip"
proof -
  from assms(1) have "ips_consistent db" by (simp add: wf_db_def)
  with assms(2) have "\<exists>r na. node_by_key db k = Some r \<and>
      nrm_node_addr_opt (nr_metadata r) = Some na \<and> na_ip_addr na = ip"
    unfolding ips_consistent_def by simp
  then show thesis using that by blast
qed

lemma wf_db_neighbor:
  assumes "wf_db db" and "root db = Some r" and "k |\<in>| nri_neighbors (nr_inner r)"
  obtains n where "node_by_key db k = Some n" "has_node_addr n" "k \<noteq> ndb_this_node db"
proof -
  from assms(1) obtain r' where r': "root db = Some r'" "nri_public_key (nr_inner r') = ndb_this_node db"
    "root_sound db r'"
    by (rule wf_db_root)
  with assms(2) have "r' = r" by simp
  with r' assms(3) have "\<exists>n. node_by_key db k = Some n \<and> has_node_addr n" "k \<noteq> ndb_this_node db"
    by (auto simp: root_sound_def no_self_neighbor_def)
  then show thesis using that by blast
qed

text \<open>Replacing one record: its key stays, a known address stays at the same IP.\<close>

definition same_place :: "node_record \<Rightarrow> node_record \<Rightarrow> bool" where
  "same_place n n' \<longleftrightarrow> nri_public_key (nr_inner n') = nri_public_key (nr_inner n) \<and>
     (\<forall>na. nrm_node_addr_opt (nr_metadata n) = Some na \<longrightarrow>
        (\<exists>na'. nrm_node_addr_opt (nr_metadata n') = Some na' \<and> na_ip_addr na' = na_ip_addr na))"

lemma same_place_ips:
  assumes "ips_consistent db" and "node_by_key db k = Some n" and "same_place n n'"
  shows "ips_consistent (put_node k n' db)"
  unfolding ips_consistent_def
proof (intro allI impI)
  fix ip k' assume "fmlookup (ndb_by_ip_addr (put_node k n' db)) ip = Some k'"
  then have "fmlookup (ndb_by_ip_addr db) ip = Some k'" by simp
  with assms(1) obtain r na where r: "node_by_key db k' = Some r"
    "nrm_node_addr_opt (nr_metadata r) = Some na" "na_ip_addr na = ip"
    unfolding ips_consistent_def by blast
  with assms(2,3) show "\<exists>r na. node_by_key (put_node k n' db) k' = Some r \<and>
      nrm_node_addr_opt (nr_metadata r) = Some na \<and> na_ip_addr na = ip"
    by (cases "k' = k") (auto simp: same_place_def)
qed

lemma wf_db_replace:
  assumes "wf_db db" and "node_by_key db k = Some n" and "same_place n n'" and "k \<noteq> ndb_this_node db"
  shows "wf_db (put_node k n' db)"
proof -
  from assms(1) obtain r where r: "root db = Some r" "node_by_key db (ndb_this_node db) = Some r"
    "root_sound db r" by (rule wf_db_root)
  have "has_node_addr n \<Longrightarrow> has_node_addr n'"
    using assms(3) by (auto simp: same_place_def has_node_addr_def)
  with r(3) assms(2,4) have "root_sound (put_node k n' db) r"
    by (auto simp: root_sound_def)
  moreover have "keys_consistent (put_node k n' db)"
    using assms(1-3) by (auto simp: wf_db_def keys_consistent_def same_place_def)
  moreover have "ips_consistent (put_node k n' db)"
    using assms(1-3) by (auto simp: wf_db_def intro: same_place_ips)
  ultimately show ?thesis
    using r(2) assms(4) by (auto simp: wf_db_def root_def)
qed

lemma wf_db_replace_root:
  assumes "wf_db db" and "root db = Some r" and "same_place r r'"
    and "accepts_connections r' = accepts_connections r"
    and "\<And>k. k |\<in>| nri_neighbors (nr_inner r') \<Longrightarrow>
      \<exists>n. node_by_key db k = Some n \<and> has_node_addr n \<and> k \<noteq> ndb_this_node db"
  shows "wf_db (put_node (ndb_this_node db) r' db)"
proof -
  from assms(1) obtain q where q: "root db = Some q" "node_by_key db (ndb_this_node db) = Some q"
    "nri_public_key (nr_inner q) = ndb_this_node db" "root_sound db q" by (rule wf_db_root)
  with assms(2) have r: "q = r" by simp
  have "nri_public_key (nr_inner r') = ndb_this_node db"
    using assms(3) q(3) r by (simp add: same_place_def)
  moreover have "has_node_addr r \<Longrightarrow> has_node_addr r'"
    using assms(3) by (auto simp: same_place_def has_node_addr_def)
  ultimately have "root_sound (put_node (ndb_this_node db) r' db) r'"
    using q(4) r assms(4,5) by (auto simp: root_sound_def no_self_neighbor_def)
  moreover have "keys_consistent (put_node (ndb_this_node db) r' db)"
    using assms(1,3) q r by (auto simp: wf_db_def keys_consistent_def same_place_def)
  moreover have "ips_consistent (put_node (ndb_this_node db) r' db)"
    using assms(1,3) q(2) r by (auto simp: wf_db_def intro: same_place_ips)
  ultimately show ?thesis
    by (auto simp: wf_db_def root_def)
qed

lemma wf_db_root_unchanged_neighbors:
  assumes "wf_db db" and "root db = Some r" and "same_place r r'"
    and "accepts_connections r' = accepts_connections r"
    and "nri_neighbors (nr_inner r') |\<subseteq>| nri_neighbors (nr_inner r)"
  shows "wf_db (put_node (ndb_this_node db) r' db)"
proof (rule wf_db_replace_root [OF assms(1-4)])
  fix k assume "k |\<in>| nri_neighbors (nr_inner r')"
  with assms(5) have "k |\<in>| nri_neighbors (nr_inner r)" by blast
  from wf_db_neighbor [OF assms(1,2) this]
  show "\<exists>n. node_by_key db k = Some n \<and> has_node_addr n \<and> k \<noteq> ndb_this_node db" by blast
qed

lemma same_place_touch [simp]: "same_place r (touch E r)"
  and same_place_refl [simp]: "same_place r r"
  and same_place_increment_version [simp]: "same_place r (increment_version r)"
  and same_place_neighbors [simp]: "same_place r (put_neighbors ns r)"
  by (simp_all add: same_place_def)

lemma same_place_frame: "nri_public_key (nr_inner r') = nri_public_key (nr_inner r) \<Longrightarrow>
    nr_metadata r' = nr_metadata r \<Longrightarrow> same_place r r'"
  by (simp add: same_place_def)

lemma same_place_update:
  "update_node_record E agr r = (Inr u, r') \<Longrightarrow> same_place r r'"
  by (frule update_node_record_ok(1), frule update_node_record_ok(2), frule update_node_record_ok(5))
    (auto simp: same_place_def)

section \<open>The operations keep databases well-formed\<close>

lemma wf_db_add_arbitrary_node:
  assumes "wf_db db" and "node_by_key db (nri_public_key (nr_inner r)) = None"
  shows "wf_db (add_arbitrary_node r db)"
proof -
  from assms(1) obtain q where q: "root db = Some q" "node_by_key db (ndb_this_node db) = Some q"
    "root_sound db q" by (rule wf_db_root)
  have "root_sound (add_arbitrary_node r db) q"
    using q(3) assms(2) by (force simp: root_sound_def)
  moreover have "ndb_this_node db \<noteq> nri_public_key (nr_inner r)"
    using q(2) assms(2) by auto
  moreover have "ips_consistent (add_arbitrary_node r db)"
    unfolding ips_consistent_def add_arbitrary_node_by_ip
    using assms by (auto split: if_splits elim!: wf_db_ip)
  moreover have "keys_consistent (add_arbitrary_node r db)"
    using assms(1) by (auto simp: wf_db_def keys_consistent_def)
  ultimately show ?thesis
    using q(2) by (auto simp: wf_db_def root_def)
qed

lemma add_node_cases:
  obtains (fail) e where "add_node r db = (Inl e, db)"
    | (ok) "add_node r db = (Inr (public_key r), add_arbitrary_node r db)"
        "node_by_key db (public_key r) = None"
proof (cases "check_for_ports (node_addr_opt r)")
  case (Inl e)
  then show thesis by (intro fail [of e]) (simp add: add_node_def)
next
  case (Inr u)
  then show thesis
    by (cases "node_by_key db (public_key r)")
      (auto simp: add_node_def check_for_collision_def in_keys intro: fail ok)
qed

lemma add_node_new:
  assumes "node_by_key db (public_key r) = None"
    and "\<And>na. nrm_node_addr_opt (nr_metadata r) = Some na \<Longrightarrow> na_ports na \<noteq> []"
  shows "add_node r db = (Inr (public_key r), add_arbitrary_node r db)"
  using assms by (auto simp: add_node_def check_for_ports_def check_for_collision_def in_keys
      node_addr_opt_def split: option.splits)

lemma wf_db_add_node: "wf_db db \<Longrightarrow> wf_db (snd (add_node r db))"
  by (cases rule: add_node_cases [of r db]) (auto intro: wf_db_add_arbitrary_node)

lemma add_half_neighbor_ok:
  assumes "root db = Some r" and "node_by_key db k \<noteq> None" and "k \<noteq> nri_public_key (nr_inner r)"
    and "k |\<notin>| nri_neighbors (nr_inner r)"
  shows "add_half_neighbor E k db =
    (Inr True, put_node (ndb_this_node db) (touch E (put_neighbors (finsert k (nri_neighbors (nr_inner r))) r)) db)"
  using assms by (auto simp: add_half_neighbor_def Let_def in_keys root_def db_has_half_neighbor_def
      add_half_neighbor_key_def)

lemma add_half_neighbor_other:
  assumes "root db = Some r" and "node_by_key db k = None \<or> k = nri_public_key (nr_inner r) \<or>
    k |\<in>| nri_neighbors (nr_inner r)"
  shows "snd (add_half_neighbor E k db) = db" "fst (add_half_neighbor E k db) \<noteq> Inr True"
  using assms by (auto simp: add_half_neighbor_def Let_def in_keys root_def db_has_half_neighbor_def
      add_half_neighbor_key_def)

lemma wf_db_add_half_neighbor:
  assumes wf: "wf_db db" and n: "node_by_key db k = Some n" "has_node_addr n"
  shows "wf_db (snd (add_half_neighbor E k db))"
proof -
  from wf obtain r where r: "root db = Some r" "nri_public_key (nr_inner r) = ndb_this_node db"
    by (rule wf_db_root)
  show ?thesis
  proof (cases "k = nri_public_key (nr_inner r) \<or> k |\<in>| nri_neighbors (nr_inner r)")
    case True
    then show ?thesis using wf add_half_neighbor_other(1) [OF r(1)] by auto
  next
    case False
    let ?r' = "touch E (put_neighbors (finsert k (nri_neighbors (nr_inner r))) r)"
    have "wf_db (put_node (ndb_this_node db) ?r' db)"
    proof (rule wf_db_replace_root [OF wf r(1)])
      show "same_place r ?r'" by (simp add: same_place_def)
      show "accepts_connections ?r' = accepts_connections r" by simp
      fix k' assume "k' |\<in>| nri_neighbors (nr_inner ?r')"
      then consider "k' = k" | "k' |\<in>| nri_neighbors (nr_inner r)" by auto
      then show "\<exists>n. node_by_key db k' = Some n \<and> has_node_addr n \<and> k' \<noteq> ndb_this_node db"
        using n False r(2) wf_db_neighbor [OF wf r(1)] by cases auto
    qed
    then show ?thesis
      using False add_half_neighbor_ok [OF r(1), of k E] n by auto
  qed
qed

lemma ips_consistent_forget:
  assumes "ips_consistent db" and "node_by_key db k = Some n"
    and "ndb_by_ip_addr db' = ndb_by_ip_addr (remove_by_ip (map_option na_ip_addr (node_addr_opt n)) db)"
    and "\<And>k' m. k' \<noteq> k \<Longrightarrow> node_by_key db k' = Some m \<Longrightarrow> \<exists>m'. node_by_key db' k' = Some m' \<and>
      nrm_node_addr_opt (nr_metadata m') = nrm_node_addr_opt (nr_metadata m)"
  shows "ips_consistent db'"
  unfolding ips_consistent_def
proof (intro allI impI)
  fix ip k' assume "fmlookup (ndb_by_ip_addr db') ip = Some k'"
  then have ip: "fmlookup (ndb_by_ip_addr db) ip = Some k'"
    "map_option na_ip_addr (node_addr_opt n) \<noteq> Some ip"
    by (auto simp: assms(3) remove_by_ip_lookup split: if_splits)
  with assms(1) obtain r na where r: "node_by_key db k' = Some r"
    "nrm_node_addr_opt (nr_metadata r) = Some na" "na_ip_addr na = ip"
    unfolding ips_consistent_def by blast
  with ip(2) assms(2) have "k' \<noteq> k" by (auto simp: node_addr_opt_def)
  with r assms(4) show "\<exists>r na. node_by_key db' k' = Some r \<and>
      nrm_node_addr_opt (nr_metadata r) = Some na \<and> na_ip_addr na = ip" by fastforce
qed

lemma fmdrop_absent: "fmlookup m k = None \<Longrightarrow> fmdrop k m = m"
  by (rule fmap_ext) simp

lemma wf_db_remove_node:
  assumes "wf_db db" and "k \<noteq> ndb_this_node db"
    and "\<And>r. root db = Some r \<Longrightarrow> k |\<notin>| nri_neighbors (nr_inner r)"
  shows "wf_db (remove_node k db)"
proof (cases "node_by_key db k")
  case None
  then have "remove_node k db = db"
    by (cases db) (simp add: remove_node_def remove_by_ip_def node_by_key_def fmdrop_absent)
  with assms(1) show ?thesis by simp
next
  case (Some n)
  from assms(1) obtain r where r: "root db = Some r" "node_by_key db (ndb_this_node db) = Some r"
    "root_sound db r" by (rule wf_db_root)
  have ip: "ndb_by_ip_addr (remove_node k db) =
      ndb_by_ip_addr (remove_by_ip (map_option na_ip_addr (node_addr_opt n)) db)"
    using Some by (auto simp: remove_node_def remove_by_ip_def split: option.splits)
  have "ips_consistent db" using assms(1) by (simp add: wf_db_def)
  then have "ips_consistent (remove_node k db)"
    using Some ip by (rule ips_consistent_forget) simp
  moreover have "keys_consistent (remove_node k db)"
    using assms(1) by (auto simp: wf_db_def keys_consistent_def)
  moreover have "root_sound (remove_node k db) r"
    using r(3) assms(3) [OF r(1)] by (force simp: root_sound_def)
  ultimately show ?thesis
    using r(2) assms(2) by (simp add: wf_db_def root_def)
qed

lemma remove_neighbor_run:
  assumes "wf_db db" and "node_by_key db k = Some n" and "root db = Some r" and "k \<noteq> ndb_this_node db"
  obtains db' where "remove_neighbor k db = Some (Inr (has_half_neighbor r k), db')"
    "\<And>k'. node_by_key db' k' = (if k' = ndb_this_node db
        then Some ((if has_half_neighbor r k then increment_version else id)
               (put_neighbors (nri_neighbors (nr_inner r) |-| {|k|}) r))
        else if k' = k then Some (unset_node_addr n) else node_by_key db k')"
    "ndb_this_node db' = ndb_this_node db"
    "ndb_by_ip_addr db' = ndb_by_ip_addr (remove_by_ip (map_option na_ip_addr (node_addr_opt n)) db)"
proof -
  let ?db2 = "remove_by_ip (map_option na_ip_addr (node_addr_opt n)) (put_node k (unset_node_addr n) db)"
  have "root ?db2 = Some r" using assms(3,4) by (simp add: root_def)
  moreover have "ndb_by_ip_addr ?db2 = ndb_by_ip_addr (remove_by_ip (map_option na_ip_addr (node_addr_opt n)) db)"
    by (auto simp: remove_by_ip_def split: option.splits)
  ultimately show thesis
    using assms(2,4)
    by (intro that [of "put_node (ndb_this_node db)
          ((if has_half_neighbor r k then increment_version else id)
             (put_neighbors (nri_neighbors (nr_inner r) |-| {|k|}) r)) ?db2"])
      (auto simp: remove_neighbor_def Let_def remove_half_neighbor_key_def)
qed

lemma wf_db_remove_neighbor:
  assumes "wf_db db" and "k \<noteq> ndb_this_node db"
  obtains res db' where "remove_neighbor k db = Some (res, db')" "wf_db db'"
proof (cases "node_by_key db k")
  case None
  then show thesis using assms(1) by (intro that [of "Inl k" db]) (simp_all add: remove_neighbor_def)
next
  case (Some n)
  from assms(1) obtain r where r: "root db = Some r" "node_by_key db (ndb_this_node db) = Some r"
    "nri_public_key (nr_inner r) = ndb_this_node db" "root_sound db r" by (rule wf_db_root)
  from remove_neighbor_run [OF assms(1) Some r(1) assms(2)] obtain db' where
    db': "remove_neighbor k db = Some (Inr (has_half_neighbor r k), db')"
    "\<And>k'. node_by_key db' k' = (if k' = ndb_this_node db
        then Some ((if has_half_neighbor r k then increment_version else id)
               (put_neighbors (nri_neighbors (nr_inner r) |-| {|k|}) r))
        else if k' = k then Some (unset_node_addr n) else node_by_key db k')"
    "ndb_this_node db' = ndb_this_node db"
    "ndb_by_ip_addr db' = ndb_by_ip_addr (remove_by_ip (map_option na_ip_addr (node_addr_opt n)) db)"
    by blast
  show thesis
  proof (rule that [OF db'(1)])
    have "keys_consistent db'"
      using assms(1) Some r(3) by (auto simp: wf_db_def keys_consistent_def db')
    moreover have "ips_consistent db" using assms(1) by (simp add: wf_db_def)
    then have "ips_consistent db'"
      using Some db'(4) by (rule ips_consistent_forget) (use r(2) in \<open>auto simp: db'\<close>)
    moreover have "\<exists>r'. root db' = Some r' \<and> root_sound db' r'"
      using r(3,4) assms(2) by (force simp: root_def root_sound_def no_self_neighbor_def has_node_addr_def db')
    ultimately show "wf_db db'" by (simp add: wf_db_def)
  qed
qed

text \<open>What is culled: the Nodes that no record and not the root refers to, after the grace period.\<close>

lemma in_isolated_since:
  "k |\<in>| isolated_since db referenced deadline \<longleftrightarrow> k |\<notin>| referenced \<and>
     (\<exists>n. node_by_key db k = Some n \<and> nrm_last_update (nr_metadata n) \<le> deadline)"
  by (cases "node_by_key db k") (simp_all add: isolated_since_def in_keys)

lemma in_referenced_node_keys:
  assumes "referenced_node_keys db = Some referenced" and "wf_db db"
  shows "k |\<in>| referenced \<longleftrightarrow> k = ndb_this_node db \<or>
    (\<exists>k' n. node_by_key db k' = Some n \<and> k |\<in>| nri_neighbors (nr_inner n))"
proof -
  from assms(2) obtain r where r: "root db = Some r" "nri_public_key (nr_inner r) = ndb_this_node db"
    by (rule wf_db_root)
  have "k |\<in>| ffUnion ((\<lambda>n. nri_neighbors (nr_inner n)) |`| fmran (ndb_by_public_key db)) \<longleftrightarrow>
      (\<exists>k' n. node_by_key db k' = Some n \<and> k |\<in>| nri_neighbors (nr_inner n))"
    by (auto simp: node_by_key_def fmlookup_ran_iff ffUnion.rep_eq; blast intro: fmranI)
  with assms(1) r show ?thesis
    by (auto simp: referenced_node_keys_def)
qed

lemma wf_db_referenced:
  assumes "wf_db db"
  obtains referenced where "referenced_node_keys db = Some referenced"
  by (rule wf_db_root [OF assms], rule that) (simp add: referenced_node_keys_def)

lemma fold_remove_node_frame [simp]: "ndb_this_node (fold remove_node ks db) = ndb_this_node db"
  by (induction ks arbitrary: db) auto

lemma wf_db_fold_remove_node:
  assumes "wf_db db" and "root db = Some r"
    and "\<And>k. k \<in> set ks \<Longrightarrow> k \<noteq> ndb_this_node db \<and> k |\<notin>| nri_neighbors (nr_inner r)"
  shows "wf_db (fold remove_node ks db)"
  using assms
proof (induction ks arbitrary: db)
  case (Cons k ks)
  have "wf_db (remove_node k db)"
    using Cons.prems by (intro wf_db_remove_node) auto
  moreover have "root (remove_node k db) = Some r"
    using Cons.prems by (auto simp: root_def)
  ultimately show ?case using Cons by simp
qed simp

lemma cull_dead_nodes_run:
  assumes "wf_db db"
  obtains db' where "cull_dead_nodes E db = Some db'" "wf_db db'" "ndb_this_node db' = ndb_this_node db"
    "\<And>referenced k. referenced_node_keys db = Some referenced \<Longrightarrow> node_by_key db' k =
       (if k |\<in>| isolated_since db referenced (env_now E - ISOLATED_NODE_GRACE_PERIOD_SECS)
        then None else node_by_key db k)"
proof -
  from assms obtain referenced where ref: "referenced_node_keys db = Some referenced"
    by (rule wf_db_referenced)
  from assms obtain r where r: "root db = Some r" "node_by_key db (ndb_this_node db) = Some r"
    by (rule wf_db_root)
  let ?ks = "sorted_list_of_fset (isolated_since db referenced (env_now E - ISOLATED_NODE_GRACE_PERIOD_SECS))"
  have "wf_db (fold remove_node ?ks db)"
    using r(2) by (intro wf_db_fold_remove_node [OF assms r(1)])
      (auto simp: in_isolated_since in_referenced_node_keys [OF ref assms])
  then show thesis
    by (intro that [of "fold remove_node ?ks db"])
      (auto simp: cull_dead_nodes_def ref Let_def nodes.lookup_del_all)
qed

lemma new_public_ip_eq:
  assumes "root db = Some r" and "nrm_node_addr_opt (nr_metadata r) = Some na"
    and "nri_public_key (nr_inner r) = ndb_this_node db"
  shows "new_public_ip ip db =
    Some ((put_node (ndb_this_node db) (put_node_addr (Some (node_addr_new ip (na_ports na))) r) db)\<lparr>ndb_by_ip_addr :=
      fmupd ip (ndb_this_node db) (fmdrop (na_ip_addr na) (ndb_by_ip_addr db))\<rparr>)"
  using assms by (simp add: new_public_ip_def)

lemma new_public_ip_run:
  assumes "wf_db db" and "root db = Some r" and "nrm_node_addr_opt (nr_metadata r) = Some na"
  obtains db' where "new_public_ip ip db = Some db'" "wf_db db'" "ndb_this_node db' = ndb_this_node db"
    "node_by_ip db' ip = Some (put_node_addr (Some (node_addr_new ip (na_ports na))) r)"
    "\<And>k. node_by_key db' k = (if k = ndb_this_node db
       then Some (put_node_addr (Some (node_addr_new ip (na_ports na))) r) else node_by_key db k)"
proof -
  define r' where "r' = put_node_addr (Some (node_addr_new ip (na_ports na))) r"
  define db' where "db' = (put_node (ndb_this_node db) r' db)\<lparr>ndb_by_ip_addr :=
     fmupd ip (ndb_this_node db) (fmdrop (na_ip_addr na) (ndb_by_ip_addr db))\<rparr>"
  have key: "nri_public_key (nr_inner r) = ndb_this_node db" and sound: "root_sound db r"
    using wf_db_root [OF assms(1)] assms(2) by (metis option.inject)+
  have r': "nr_inner r' = nr_inner r" "nrm_node_addr_opt (nr_metadata r') = Some (node_addr_new ip (na_ports na))"
    by (simp_all add: r'_def)
  have run: "new_public_ip ip db = Some db'"
    unfolding db'_def r'_def using assms(2,3) key by (rule new_public_ip_eq)
  have look: "node_by_key db' k = (if k = ndb_this_node db then Some r' else node_by_key db k)" for k
    by (simp add: node_by_key_def put_node_def db'_def)
  have frame: "ndb_this_node db' = ndb_this_node db" by (simp add: db'_def)
  have by_ip: "fmlookup (ndb_by_ip_addr db') ip' = (if ip' = ip then Some (ndb_this_node db)
      else if ip' = na_ip_addr na then None else fmlookup (ndb_by_ip_addr db) ip')" for ip'
    by (simp add: db'_def)
  have "ips_consistent db'"
    unfolding ips_consistent_def look
  proof (intro allI impI)
    fix ip' k assume *: "fmlookup (ndb_by_ip_addr db') ip' = Some k"
    show "\<exists>m a. (if k = ndb_this_node db then Some r' else node_by_key db k) = Some m \<and>
        nrm_node_addr_opt (nr_metadata m) = Some a \<and> na_ip_addr a = ip'"
    proof (cases "ip' = ip")
      case True
      with * show ?thesis by (simp add: by_ip r')
    next
      case False
      with * have old: "fmlookup (ndb_by_ip_addr db) ip' = Some k" and "ip' \<noteq> na_ip_addr na"
        by (simp_all add: by_ip split: if_splits)
      with wf_db_ip [OF assms(1) old] assms(2,3) show ?thesis
        by (metis option.inject root_def)
    qed
  qed
  moreover have "keys_consistent db'"
    unfolding keys_consistent_def look using assms(1) key by (auto simp: wf_db_def keys_consistent_def r')
  moreover have "root_sound db' r'"
    unfolding root_sound_def look using sound by (auto simp: root_sound_def no_self_neighbor_def has_node_addr_def r')
  ultimately have "wf_db db'" by (simp add: wf_db_def root_def look frame)
  moreover have "node_by_ip db' ip = Some r'" by (simp add: node_by_ip_def by_ip look)
  ultimately show thesis using run look frame unfolding r'_def by (intro that [of db'])
qed

lemma database_new_run:
  assumes "env_ok E"
  obtains db r where "database_new E mode w = Some db" "wf_db db" "root db = Some r"
    "ndb_this_node db = env_public_key E" "nri_neighbors (nr_inner r) = {||}" "version r = 0"
    "nrm_node_addr_opt (nr_metadata r) = mode_node_addr_opt mode" "keys db = {|env_public_key E|}"
proof -
  define location_opt where "location_opt = (case mode_node_addr_opt mode of
      Some na \<Rightarrow> get_node_location E (Some (na_ip_addr na)) | None \<Rightarrow> None)"
  define r0 where "r0 = \<lparr>nr_inner = \<lparr>nri_public_key = env_public_key E, nri_earning_wallet = w,
      nri_rate_pack = mode_rate_pack mode, nri_neighbors = {||},
      nri_accepts_connections = mode_accepts_connections mode,
      nri_routes_data = mode_routes_data mode, nri_version = 0,
      nri_country_code_opt = map_option nl_country_code location_opt\<rparr>,
    nr_metadata = (metadata_new E)\<lparr>nrm_node_location_opt := location_opt\<rparr>,
    nr_signed_gossip = [], nr_signature = []\<rparr>"
  obtain r1 where r1: "regenerate_signed_gossip E r0 = Some r1" "nr_inner r1 = nr_inner r0"
    "nr_metadata r1 = nr_metadata r0" using assms by (rule env_ok_regenerate)
  define r2 where "r2 = put_node_addr (mode_node_addr_opt mode) r1"
  obtain r where r: "regenerate_signed_gossip E r2 = Some r" "nr_inner r = nr_inner r2"
    "nr_metadata r = nr_metadata r2" using assms by (rule env_ok_regenerate)
  let ?db0 = "\<lparr>ndb_this_node = env_public_key E, ndb_by_public_key = fmempty, ndb_by_ip_addr = fmempty\<rparr>"
  have r2: "(case mode_node_addr_opt mode of
      Some na \<Rightarrow> (case set_node_addr na r1 of (Inl _, _) \<Rightarrow> panic | (Inr _, r') \<Rightarrow> ret r')
    | None \<Rightarrow> ret r1) = ret r2"
    using r1 by (cases mode) (auto simp: r2_def set_node_addr_def r0_def metadata_new_def)
  have new: "database_new E mode w = Some (add_arbitrary_node r ?db0)"
    using r1(1) r2 r(1)
    by (simp add: database_new_def node_record_new_def Let_def r0_def location_opt_def)
  have inner: "nr_inner r = nr_inner r0" "nrm_node_addr_opt (nr_metadata r) = mode_node_addr_opt mode"
    by (simp_all add: r r2_def r1)
  have db0: "node_by_key ?db0 k = None" "fmlookup (ndb_by_ip_addr ?db0) ip = None" "keys ?db0 = {||}" for k ip
    by (simp_all add: node_by_key_def keys_def)
  have key: "nri_public_key (nr_inner r) = env_public_key E" by (simp add: inner r0_def)
  have root: "root (add_arbitrary_node r ?db0) = Some r" by (simp add: root_def key)
  have "ips_consistent (add_arbitrary_node r ?db0)"
    unfolding ips_consistent_def add_arbitrary_node_by_ip by (auto simp: db0 split: if_splits)
  moreover have "keys_consistent (add_arbitrary_node r ?db0)"
    by (simp add: keys_consistent_def db0)
  moreover have "root_sound (add_arbitrary_node r ?db0) r"
    by (cases mode) (simp_all add: root_sound_def no_self_neighbor_def has_node_addr_def inner r0_def)
  ultimately have "wf_db (add_arbitrary_node r ?db0)" by (simp add: wf_db_def root)
  then show thesis using new root key inner
    by (intro that [of "add_arbitrary_node r ?db0" r]) (simp_all add: r0_def db0)
qed

section \<open>Neighbors and degrees\<close>

lemma in_full_neighbor_keys:
  "k |\<in>| full_neighbor_keys r db \<longleftrightarrow> k |\<in>| nri_neighbors (nr_inner r) \<and>
     (\<exists>n. node_by_key db k = Some n \<and> nri_public_key (nr_inner r) |\<in>| nri_neighbors (nr_inner n))"
  by (auto simp: full_neighbor_keys_def split: option.splits)

lemma has_full_neighbor_iff: "has_full_neighbor r db k \<longleftrightarrow> k |\<in>| full_neighbor_keys r db"
  by (auto simp: has_full_neighbor_def in_full_neighbor_keys split: option.splits)

lemma db_has_full_neighbor_iff:
  assumes "wf_db db"
  shows "db_has_full_neighbor db a b \<longleftrightarrow> (\<exists>r. node_by_key db a = Some r \<and> has_full_neighbor r db b)"
  using wf_db_key [OF assms, of a]
  by (auto simp: db_has_full_neighbor_def db_has_half_neighbor_def has_full_neighbor_iff
      in_full_neighbor_keys split: option.splits)

lemma db_has_full_neighbor_sym: "db_has_full_neighbor db a b \<longleftrightarrow> db_has_full_neighbor db b a"
  by (auto simp: db_has_full_neighbor_def)

lemma full_neighbors_run:
  assumes "env_ok E"
  shows "full_neighbors E r db = Some (map (\<lambda>k. the (node_by_key db k)) (env_iter E (full_neighbor_keys r db)))"
  unfolding full_neighbors_def using assms
  by (intro those_map_Some) (auto simp: in_full_neighbor_keys)

lemma gossip_target_degree_run:
  assumes "env_ok E"
  obtains d where "gossip_target_degree E db k = Some d"
  using assms by (cases "node_by_key db k") (auto simp: gossip_target_degree_def full_neighbors_run Let_def)

section \<open>A sample network\<close>

text \<open>
  Four Nodes on a path 3 - 1 - 0 - 2, seen from Node 0, for the instances below. Signing prepends the
  signer's key; the encoding of a record is its key, its version and its neighbors, and decoding
  looks a record up among the four.
\<close>

definition sample_sign :: "bytes \<Rightarrow> bytes option" where
  "sample_sign b = Some (0 # b)"

definition sample_verify :: "bytes \<Rightarrow> bytes \<Rightarrow> public_key \<Rightarrow> bool" where
  "sample_verify d s k \<longleftrightarrow> s = k @ d"

definition sample_to_vec :: "node_record_inner \<Rightarrow> bytes option" where
  "sample_to_vec i = Some (nri_public_key i @ [ucast (nri_version i)] @ concat (sorted_list_of_fset (nri_neighbors i)))"

definition sample_find_country :: "ip_addr \<Rightarrow> country_code option" where
  "sample_find_country ip = (if ip = V4 11 then Some ''CZ'' else if ip = V4 12 then Some ''US'' else None)"

definition sample_wallet :: wallet where
  "sample_wallet = WalletAddress 7"

definition sample_addr :: "nat \<Rightarrow> node_addr" where
  "sample_addr i = \<lparr>na_ip_addr = V4 (of_nat i), na_ports = [5000]\<rparr>"

definition sample_inner :: "public_key \<Rightarrow> public_key list \<Rightarrow> node_record_inner" where
  "sample_inner k ns = \<lparr>nri_public_key = k, nri_earning_wallet = sample_wallet, nri_rate_pack = zero_rate_pack,
     nri_neighbors = fset_of_list ns, nri_accepts_connections = True, nri_routes_data = True,
     nri_version = 0, nri_country_code_opt = None\<rparr>"

definition sample_record :: "nat \<Rightarrow> node_addr option \<Rightarrow> nat list \<Rightarrow> u32 \<Rightarrow> node_record" where
  "sample_record i na_opt ns t = \<lparr>nr_inner = sample_inner [of_nat i] (map (\<lambda>j. [of_nat j]) ns),
     nr_metadata = \<lparr>nrm_last_update = t, nrm_node_addr_opt = na_opt, nrm_unreachable_hosts = {||},
       nrm_node_location_opt = None, nrm_country_undesirability = 0\<rparr>,
     nr_signed_gossip = [of_nat i], nr_signature = [of_nat i, of_nat i]\<rparr>"

definition sample_from_slice :: "bytes \<Rightarrow> node_record_inner option" where
  "sample_from_slice b = find (\<lambda>i. sample_to_vec i = Some b)
     [sample_inner [0] [[1], [2]], sample_inner [1] [[0], [3]], sample_inner [2] [[0]], sample_inner [3] [[1]]]"

definition sample_env :: node_env where
  "sample_env = \<lparr>env_public_key = [0], env_sign = sample_sign, env_verify_signature = sample_verify,
     env_to_vec = sample_to_vec, env_from_slice = sample_from_slice, env_find_country = sample_find_country,
     env_now = 1000, env_system_time = 1000000000000, env_iter = sorted_list_of_fset\<rparr>"

definition sample_db :: neighborhood_database where
  "sample_db = \<lparr>ndb_this_node = [0],
     ndb_by_public_key = fmap_of_list
       [([0], sample_record 0 (Some (sample_addr 10)) [1, 2] 900),
        ([1], sample_record 1 (Some (sample_addr 11)) [0, 3] 900),
        ([2], sample_record 2 (Some (sample_addr 12)) [0] 900),
        ([3], sample_record 3 None [1] 900)],
     ndb_by_ip_addr = fmap_of_list [(V4 10, [0]), (V4 11, [1]), (V4 12, [2])]\<rparr>"

lemma sample_env_ok: "env_ok sample_env"
  by (simp add: env_ok_def sample_env_def sample_sign_def sample_to_vec_def ascending.hash_iteration_axioms)

text \<open>Well-formedness of a concrete database is computable.\<close>

lemma keys_consistent_code [code]:
  "keys_consistent db \<longleftrightarrow> fmpred (\<lambda>k r. public_key r = k) (ndb_by_public_key db)"
  unfolding keys_consistent_def node_by_key_def fmpred_iff by (rule refl)

lemma ips_consistent_code [code]:
  "ips_consistent db \<longleftrightarrow> fmpred (\<lambda>ip k. case node_by_key db k of None \<Rightarrow> False
       | Some r \<Rightarrow> (case nrm_node_addr_opt (nr_metadata r) of None \<Rightarrow> False | Some na \<Rightarrow> na_ip_addr na = ip))
     (ndb_by_ip_addr db)"
proof -
  have "(case node_by_key db k of None \<Rightarrow> False
       | Some r \<Rightarrow> (case nrm_node_addr_opt (nr_metadata r) of None \<Rightarrow> False | Some na \<Rightarrow> na_ip_addr na = ip)) \<longleftrightarrow>
     (\<exists>r na. node_by_key db k = Some r \<and> nrm_node_addr_opt (nr_metadata r) = Some na \<and> na_ip_addr na = ip)" for k ip
    by (simp split: option.split)
  then show ?thesis by (simp only: ips_consistent_def fmpred_iff)
qed

lemma root_sound_code [code]:
  "root_sound db r \<longleftrightarrow> no_self_neighbor r \<and> (accepts_connections r \<longrightarrow> has_node_addr r) \<and>
     fBall (nri_neighbors (nr_inner r)) (\<lambda>k. case node_by_key db k of None \<Rightarrow> False | Some n \<Rightarrow> has_node_addr n)"
  unfolding root_sound_def by (simp split: option.split) (metis option.distinct(1) option.exhaust option.inject)

lemma wf_db_code [code]:
  "wf_db db \<longleftrightarrow> keys_consistent db \<and> ips_consistent db \<and>
     (case root db of None \<Rightarrow> False | Some r \<Rightarrow> root_sound db r)"
  by (simp add: wf_db_def split: option.splits)

lemma sample_db_wf: "wf_db sample_db"
  by code_simp

section \<open>Properties\<close>

text \<open>
  The life of a database as a transition system: it starts as \<open>database_new\<close> makes it, and every
  step is one operation of its interface. Half neighbors are added only when their address is
  known, and the local Node is never removed as its own neighbor; both are what the callers do.
\<close>

inductive db_step :: "neighborhood_database \<Rightarrow> neighborhood_database \<Rightarrow> bool" where
  step_add_node: "db_step db (snd (add_node r db))"
| step_add_half_neighbor:
    "node_by_key db k = Some n \<Longrightarrow> has_node_addr n \<Longrightarrow> db_step db (snd (add_half_neighbor E k db))"
| step_update: "k \<noteq> ndb_this_node db \<Longrightarrow> node_by_key db k = Some n \<Longrightarrow>
    db_step db (put_node k (snd (update_node_record E agr n)) db)"
| step_remove_neighbor: "k \<noteq> ndb_this_node db \<Longrightarrow> remove_neighbor k db = Some (res, db') \<Longrightarrow> db_step db db'"
| step_cull: "cull_dead_nodes E db = Some db' \<Longrightarrow> db_step db db'"
| step_new_public_ip: "new_public_ip ip db = Some db' \<Longrightarrow> db_step db db'"
| step_root_version: "root_mut (\<lambda>r. Some (increment_version r)) db = Some db' \<Longrightarrow> db_step db db'"
| step_root_signature: "root_mut (regenerate_signed_gossip E) db = Some db' \<Longrightarrow> db_step db db'"

inductive_cases db_stepE: "db_step db db'"

lemma wf_db_root_mut:
  assumes "wf_db db" and "root_mut f db = Some db'"
    and "\<And>r r'. f r = Some r' \<Longrightarrow> same_place r r' \<and> nri_neighbors (nr_inner r') = nri_neighbors (nr_inner r) \<and>
      accepts_connections r' = accepts_connections r"
  shows "wf_db db'"
proof -
  from assms(2) obtain r r' where r: "root db = Some r" "f r = Some r'"
    "db' = put_node (ndb_this_node db) r' db"
    by (auto simp: root_mut_def split: bind_splits)
  with assms(3) [OF r(2)] show ?thesis
    using wf_db_root_unchanged_neighbors [OF assms(1) r(1), of r'] by simp
qed

lemma wf_db_step: "db_step db db' \<Longrightarrow> wf_db db \<Longrightarrow> wf_db db'"
proof (induction rule: db_step.induct)
  case (step_add_node db r)
  then show ?case by (simp add: wf_db_add_node)
next
  case (step_add_half_neighbor db k n E)
  then show ?case by (simp add: wf_db_add_half_neighbor)
next
  case (step_update k db n E agr)
  then show ?case
    using update_node_record_error [of E agr n] same_place_update [of E agr n]
    by (cases "update_node_record E agr n"; cases "fst (update_node_record E agr n)")
      (auto intro: wf_db_replace)
next
  case (step_remove_neighbor k db res db')
  then show ?case using wf_db_remove_neighbor [of db k] by (metis option.inject prod.inject)
next
  case (step_cull E db db')
  then show ?case using cull_dead_nodes_run [of db E] by (metis option.inject)
next
  case (step_new_public_ip ip db db')
  then obtain r na where "root db = Some r" "nrm_node_addr_opt (nr_metadata r) = Some na"
    by (auto simp: new_public_ip_def split: bind_splits)
  with step_new_public_ip show ?case using new_public_ip_run [of db r na ip] by (metis option.inject)
next
  case (step_root_version db db')
  show ?case
    by (rule wf_db_root_mut [OF step_root_version(2,1)]) (auto simp: same_place_def)
next
  case (step_root_signature E db db')
  show ?case
    by (rule wf_db_root_mut [OF step_root_signature(2,1)])
      (auto simp: same_place_def dest: regenerate_signed_gossip_frame)
qed



text \<open>
  C19. A record that \<open>add_node\<close> accepts is new, is then found by its key and by its address, and
  no other record changes; a record that it refuses, because its key is taken or its address has no
  ports, leaves the database as it was.
\<close>

theorem add_node_correct:
  "case add_node r db of
     (Inr k, db') \<Rightarrow> k = public_key r \<and> node_by_key db k = None \<and> node_by_key db' k = Some r \<and>
        (\<forall>k'. k' \<noteq> k \<longrightarrow> node_by_key db' k' = node_by_key db k') \<and>
        (case node_addr_opt r of None \<Rightarrow> True
         | Some na \<Rightarrow> na_ports na \<noteq> [] \<and> node_by_ip db' (na_ip_addr na) = Some r)
   | (Inl e, db') \<Rightarrow> db' = db \<and>
        (e = EmptyPortList \<and> (\<exists>na. node_addr_opt r = Some na \<and> na_ports na = []) \<or>
         e = NodeKeyCollision (public_key r) \<and> node_by_key db (public_key r) \<noteq> None)"
  by (auto simp: add_node_def check_for_ports_def check_for_collision_def in_keys node_by_ip_def
      add_arbitrary_node_by_ip node_addr_opt_def split: option.split)

theorem add_node_correct_witness:
  "(\<exists>db'. add_node (sample_record 4 (Some (sample_addr 14)) [] 900) sample_db = (Inr [4], db') \<and>
      node_by_ip db' (V4 14) = Some (sample_record 4 (Some (sample_addr 14)) [] 900)) \<and>
   fst (add_node (sample_record 3 None [] 900) sample_db) = Inl (NodeKeyCollision [3])"
proof -
  have "fst (add_node (sample_record 4 (Some (sample_addr 14)) [] 900) sample_db) = Inr [4]"
    "fst (add_node (sample_record 3 None [] 900) sample_db) = Inl (NodeKeyCollision [3])"
    "node_addr_opt (sample_record 4 (Some (sample_addr 14)) [] 900) = Some (sample_addr 14)"
    "na_ip_addr (sample_addr 14) = V4 14"
    by code_simp+
  with add_node_correct [where r = "sample_record 4 (Some (sample_addr 14)) [] 900" and db = sample_db] show ?thesis
    by (auto split: prod.splits)
qed



text \<open>
  C18. Culling never panics, keeps the database well-formed, and removes exactly the Nodes other
  than the root that no record refers to and that were last updated at or before the grace period;
  all other records stay as they are.
\<close>

theorem cull_dead_nodes_exact:
  assumes "wf_db db"
  shows "\<exists>db'. cull_dead_nodes E db = Some db' \<and> wf_db db' \<and>
    (\<forall>k. node_by_key db' k =
      (if k \<noteq> ndb_this_node db \<and> \<not> (\<exists>k' n. node_by_key db k' = Some n \<and> has_half_neighbor n k) \<and>
          (\<exists>n. node_by_key db k = Some n \<and> last_updated n \<le> env_now E - 30)
       then None else node_by_key db k))"
proof -
  from assms obtain referenced where ref: "referenced_node_keys db = Some referenced"
    by (rule wf_db_referenced)
  from assms obtain db' where db': "cull_dead_nodes E db = Some db'" "wf_db db'"
    "\<And>referenced k. referenced_node_keys db = Some referenced \<Longrightarrow> node_by_key db' k =
       (if k |\<in>| isolated_since db referenced (env_now E - ISOLATED_NODE_GRACE_PERIOD_SECS)
        then None else node_by_key db k)"
    by (rule cull_dead_nodes_run [of db E]) blast
  have "node_by_key db' k =
      (if k \<noteq> ndb_this_node db \<and> \<not> (\<exists>k' n. node_by_key db k' = Some n \<and> has_half_neighbor n k) \<and>
          (\<exists>n. node_by_key db k = Some n \<and> last_updated n \<le> env_now E - 30)
       then None else node_by_key db k)" for k
    unfolding db'(3) [OF ref] in_isolated_since in_referenced_node_keys [OF ref assms]
    by (simp add: ISOLATED_NODE_GRACE_PERIOD_SECS_def)
  with db' show ?thesis by blast
qed

theorem cull_dead_nodes_exact_witness:
  "\<exists>db'. cull_dead_nodes sample_env (snd (add_node (sample_record 4 None [] 900) sample_db)) = Some db' \<and>
     wf_db db' \<and> node_by_key db' [4] = None"
proof -
  let ?db = "snd (add_node (sample_record 4 None [] 900) sample_db)"
  have "wf_db ?db" using sample_db_wf by (rule wf_db_add_node)
  from cull_dead_nodes_exact [OF this, of sample_env]
  obtain db' where run: "cull_dead_nodes sample_env ?db = Some db'" "wf_db db'" by (elim exE conjE)
  have "referenced_node_keys ?db = Some {|[0], [1], [2], [3]|}"
    and isolated: "isolated_since ?db {|[0], [1], [2], [3]|} 970 = {|[4]|}"
    and "env_now sample_env - ISOLATED_NODE_GRACE_PERIOD_SECS = 970"
    by code_simp+
  with run(1) have "db' = fold remove_node (sorted_list_of_fset {|[4]|}) ?db"
    by (simp add: cull_dead_nodes_def)
  then have "node_by_key db' [4] = None" by (simp add: nodes.lookup_del_all)
  with run show ?thesis by blast
qed

end
