(* ===== verification/Gossip.thy ===== *)
theory Gossip
  imports Neighborhood_Database
begin

text \<open>
  Gossip messages: \<^verbatim>\<open>node/src/neighborhood/gossip.rs\<close> (the conversions between records and Gossip,
  and the \<open>GossipBuilder\<close>) and \<^verbatim>\<open>gossip_producer.rs\<close>. The dot-graph rendering of \<^verbatim>\<open>gossip.rs\<close>, which
  only feeds the log, is not modelled.
\<close>

section \<open>Records and their conversions\<close>

record gossip_0v1 =
  node_records :: "gossip_node_record list"

definition gnr_of_node_record :: "node_record \<Rightarrow> gossip_node_record" where
  "gnr_of_node_record r = \<lparr>gnr_signed_data = nr_signed_gossip r, gnr_signature = nr_signature r,
     gnr_node_addr_opt = nrm_node_addr_opt (nr_metadata r)\<rparr>"

definition gnr_of_db :: "neighborhood_database \<Rightarrow> public_key \<Rightarrow> bool \<Rightarrow> gossip_node_record run" where
  "gnr_of_db database key reveal_node_addr = do {
     node_record_ref \<leftarrow> node_by_key database key;
     let gnr = gnr_of_node_record (node_record_clone node_record_ref)
     in ret (if reveal_node_addr then gnr else gnr\<lparr>gnr_node_addr_opt := None\<rparr>) }"

definition gnr_of_inner :: "node_env \<Rightarrow> node_record_inner \<Rightarrow> node_addr option \<Rightarrow> gossip_node_record run" where
  "gnr_of_inner E inner na_opt = do {
     signed_data \<leftarrow> env_to_vec E inner;
     signature \<leftarrow> env_sign E signed_data;
     ret \<lparr>gnr_signed_data = signed_data, gnr_signature = signature, gnr_node_addr_opt = na_opt\<rparr> }"

definition gnr_of_agr :: "accessible_gossip_record \<Rightarrow> gossip_node_record" where
  "gnr_of_agr agr = \<lparr>gnr_signed_data = agr_signed_gossip agr, gnr_signature = agr_signature agr,
     gnr_node_addr_opt = agr_node_addr_opt agr\<rparr>"

text \<open>Deserialisation errors are \<open>Inl ()\<close>: their text comes from \<^verbatim>\<open>serde_cbor\<close>.\<close>

definition agr_of_gnr :: "node_env \<Rightarrow> gossip_node_record \<Rightarrow> unit + accessible_gossip_record" where
  "agr_of_gnr E gnr = (case env_from_slice E (gnr_signed_data gnr) of
      Some inner \<Rightarrow> Inr \<lparr>agr_signed_gossip = gnr_signed_data gnr, agr_signature = gnr_signature gnr,
        agr_node_addr_opt = gnr_node_addr_opt gnr, agr_inner = inner\<rparr>
    | None \<Rightarrow> Inl ())"

definition agrs_of_gossip :: "node_env \<Rightarrow> gossip_0v1 \<Rightarrow> unit + accessible_gossip_record list" where
  "agrs_of_gossip E gossip =
     (let results = map (agr_of_gnr E) (node_records gossip)
      in case find Sum_Type.isl results of
          Some (Inl msg) \<Rightarrow> Inl msg
        | _ \<Rightarrow> Inr (map projr results))"

definition node_record_of_gnr :: "node_env \<Rightarrow> gossip_node_record \<Rightarrow> unit + node_record" where
  "node_record_of_gnr E gnr = (case env_from_slice E (gnr_signed_data gnr) of
      None \<Rightarrow> Inl ()
    | Some inner \<Rightarrow> Inr
        \<lparr>nr_inner = inner,
         nr_metadata = (metadata_new E)\<lparr>
           nrm_node_location_opt := get_node_location E (map_option na_ip_addr (gnr_node_addr_opt gnr)),
           nrm_node_addr_opt := map_option node_addr_clone (gnr_node_addr_opt gnr)\<rparr>,
         nr_signed_gossip = gnr_signed_data gnr,
         nr_signature = gnr_signature gnr\<rparr>)"

definition agr_regenerate_signed_gossip ::
  "node_env \<Rightarrow> accessible_gossip_record \<Rightarrow> accessible_gossip_record run" where
  "agr_regenerate_signed_gossip E agr = do {
     (signed_gossip, signature) \<leftarrow> regenerate_signed_gossip_of E (agr_inner agr);
     ret (agr\<lparr>agr_signed_gossip := signed_gossip, agr_signature := signature\<rparr>) }"

section \<open>The builder\<close>

record gossip_builder =
  gb_gossip :: gossip_0v1
  gb_keys_so_far :: "public_key fset"

definition builder_new :: gossip_builder where
  "builder_new = \<lparr>gb_gossip = \<lparr>node_records = []\<rparr>, gb_keys_so_far = {||}\<rparr>"

definition builder_node ::
  "neighborhood_database \<Rightarrow> public_key \<Rightarrow> bool \<Rightarrow> gossip_builder \<Rightarrow> gossip_builder run" where
  "builder_node db key reveal_node_addr b =
     (if key |\<in>| gb_keys_so_far b then panic
      else case node_by_key db key of
          None \<Rightarrow> panic
        | Some node_record_ref \<Rightarrow>
            let gnr = gnr_of_node_record (node_record_clone node_record_ref);
                gnr' = (if \<not> reveal_node_addr \<or> \<not> accepts_connections node_record_ref
                        then gnr\<lparr>gnr_node_addr_opt := None\<rparr> else gnr)
            in ret \<lparr>gb_gossip = \<lparr>node_records = node_records (gb_gossip b) @ [gnr']\<rparr>,
                 gb_keys_so_far = finsert (public_key node_record_ref) (gb_keys_so_far b)\<rparr>)"

definition builder_build :: "gossip_builder \<Rightarrow> gossip_0v1" where
  "builder_build b = gb_gossip b"

section \<open>The producer\<close>

definition DEAD_NODE_CHECK_INTERVAL_SECS :: u32 where
  "DEAD_NODE_CHECK_INTERVAL_SECS = 60"

text \<open>The producer's only state is the time of its last check for dead Nodes.\<close>

definition producer_new :: "node_env \<Rightarrow> u32" where
  "producer_new E = env_now E"

definition produce ::
  "node_env \<Rightarrow> public_key \<Rightarrow> u32 \<Rightarrow> neighborhood_database \<Rightarrow>
     (gossip_0v1 option \<times> u32 \<times> neighborhood_database) run" where
  "produce E target last_dead_node_check database0 = do {
     (last_check, database) \<leftarrow>
       (if DEAD_NODE_CHECK_INTERVAL_SECS \<le> env_now E - last_dead_node_check
        then do { db \<leftarrow> cull_dead_nodes E database0; ret (env_now E, db) }
        else ret (last_dead_node_check, database0));
     (case node_by_key database target of
        None \<Rightarrow> ret (None, last_check, database)
      | Some target_node_ref \<Rightarrow> do {
          referenced_keys \<leftarrow> referenced_node_keys database;
          builder \<leftarrow> iter_each
            (\<lambda>node_record_ref so_far. do {
               r \<leftarrow> root database;
               let reveal_node_addr = accepts_connections node_record_ref \<and>
                     (public_key node_record_ref = public_key r \<or>
                      has_half_neighbor target_node_ref (public_key node_record_ref))
               in builder_node database (public_key node_record_ref) reveal_node_addr so_far })
            (List.map_filter (node_by_key database)
              (filter (\<lambda>k. k |\<in>| referenced_keys)
                (filter (\<lambda>k. k \<noteq> target) (env_iter E (keys database)))))
            builder_new;
          ret (Some (builder_build builder), last_check, database) }) }"

definition produce_debut :: "neighborhood_database \<Rightarrow> gossip_0v1 run" where
  "produce_debut database = do {
     r \<leftarrow> root database;
     builder \<leftarrow> builder_node database (public_key r) True builder_new;
     ret (builder_build builder) }"

section \<open>What a builder builds\<close>

text \<open>The entry for one Node: its address is kept only when it is to be revealed and accepts connections.\<close>

definition gossip_entry :: "node_record \<Rightarrow> bool \<Rightarrow> gossip_node_record" where
  "gossip_entry r reveal = \<lparr>gnr_signed_data = nr_signed_gossip r, gnr_signature = nr_signature r,
     gnr_node_addr_opt = (if reveal \<and> accepts_connections r then node_addr_opt r else None)\<rparr>"

lemma builder_node_run:
  assumes "node_by_key db key = Some r" and "key |\<notin>| gb_keys_so_far b"
  shows "builder_node db key reveal b = Some
    \<lparr>gb_gossip = \<lparr>node_records = node_records (gb_gossip b) @ [gossip_entry r reveal]\<rparr>,
     gb_keys_so_far = finsert (public_key r) (gb_keys_so_far b)\<rparr>"
  using assms by (simp add: builder_node_def Let_def gnr_of_node_record_def gossip_entry_def
      node_record_clone_def)

lemma builder_fold:
  assumes "wf_db db" and "distinct (map public_key rs)"
    and "\<And>r. r \<in> set rs \<Longrightarrow> node_by_key db (public_key r) = Some r \<and> public_key r |\<notin>| gb_keys_so_far b"
  shows "\<exists>b'. iter_each (\<lambda>r. builder_node db (public_key r) (reveal r)) rs b = Some b' \<and>
    node_records (gb_gossip b') = node_records (gb_gossip b) @ map (\<lambda>r. gossip_entry r (reveal r)) rs"
  using assms(2,3)
proof (induction rs arbitrary: b)
  case (Cons r rs)
  let ?b = "\<lparr>gb_gossip = \<lparr>node_records = node_records (gb_gossip b) @ [gossip_entry r (reveal r)]\<rparr>,
     gb_keys_so_far = finsert (public_key r) (gb_keys_so_far b)\<rparr>"
  have step: "builder_node db (public_key r) (reveal r) b = Some ?b"
    using Cons.prems(2) by (intro builder_node_run) simp_all
  from Cons.prems(1) have d: "public_key r \<notin> set (map public_key rs)" "distinct (map public_key rs)"
    by (simp_all del: public_key_def)
  have "node_by_key db (public_key q) = Some q \<and> public_key q |\<notin>| gb_keys_so_far ?b" if "q \<in> set rs" for q
  proof -
    from that d(1) have "public_key q \<noteq> public_key r" by (metis image_eqI list.set_map)
    with Cons.prems(2) [of q] that show ?thesis by simp
  qed
  from Cons.IH [OF d(2) this]
  obtain b' where b': "iter_each (\<lambda>r. builder_node db (public_key r) (reveal r)) rs ?b = Some b'"
    "node_records (gb_gossip b') = node_records (gb_gossip ?b) @ map (\<lambda>r. gossip_entry r (reveal r)) rs"
    by blast
  show ?case
    using b' by (simp add: step del: public_key_def)
qed simp

section \<open>What a producer produces\<close>

text \<open>The keys that Gossip for \<open>target\<close> mentions, in the order of the key set.\<close>

definition gossiped_keys :: "node_env \<Rightarrow> neighborhood_database \<Rightarrow> public_key \<Rightarrow> public_key fset \<Rightarrow> public_key list" where
  "gossiped_keys E db target referenced =
     filter (\<lambda>k. k |\<in>| referenced) (filter (\<lambda>k. k \<noteq> target) (env_iter E (keys db)))"

lemma set_gossiped_keys:
  assumes "env_ok E"
  shows "set (gossiped_keys E db target referenced) = {k. k |\<in>| keys db \<and> k \<noteq> target \<and> k |\<in>| referenced}"
    and "distinct (gossiped_keys E db target referenced)"
  using assms by (auto simp: gossiped_keys_def)

lemma map_filter_node_by_key:
  assumes "\<And>k. k \<in> set ks \<Longrightarrow> k |\<in>| keys db"
  shows "List.map_filter (node_by_key db) ks = map (\<lambda>k. the (node_by_key db k)) ks"
  using assms by (induction ks) (force simp: in_keys)+

lemma wf_db_public_keys:
  assumes "wf_db db" and "\<And>k. k \<in> set ks \<Longrightarrow> k |\<in>| keys db"
  shows "map public_key (map (\<lambda>k. the (node_by_key db k)) ks) = ks"
  using assms(2) wf_db_key [OF assms(1)] by (induction ks) (auto simp: in_keys)

lemma produce_builder:
  assumes wf: "wf_db db" and E: "env_ok E" and r: "root db = Some r"
  obtains b where "iter_each (\<lambda>n so_far. do {
        r \<leftarrow> root db;
        let reveal = accepts_connections n \<and> (public_key n = public_key r \<or> has_half_neighbor t (public_key n))
        in builder_node db (public_key n) reveal so_far })
      (List.map_filter (node_by_key db) (gossiped_keys E db target referenced)) builder_new = Some b"
    "node_records (gb_gossip b) = map (\<lambda>k. gossip_entry (the (node_by_key db k))
       (k = ndb_this_node db \<or> has_half_neighbor t k)) (gossiped_keys E db target referenced)"
proof -
  let ?ks = "gossiped_keys E db target referenced"
  let ?rs = "map (\<lambda>k. the (node_by_key db k)) ?ks"
  let ?reveal = "\<lambda>n. accepts_connections n \<and> (public_key n = public_key r \<or> has_half_neighbor t (public_key n))"
  have ks: "\<And>k. k \<in> set ?ks \<Longrightarrow> k |\<in>| keys db" "distinct ?ks"
    using set_gossiped_keys [OF E] by auto
  have pk: "map public_key ?rs = ?ks" using wf ks(1) by (rule wf_db_public_keys)
  have self: "public_key r = ndb_this_node db"
    using wf_db_key [OF wf] r by (simp add: root_def)
  have known: "node_by_key db (public_key n) = Some n" if "n \<in> set ?rs" for n
  proof -
    from that obtain k where "k \<in> set ?ks" "n = the (node_by_key db k)" by auto
    then have "node_by_key db k = Some n" using ks(1) by (auto simp: in_keys)
    with wf_db_key [OF wf] show ?thesis by auto
  qed
  have d: "distinct (map public_key ?rs)" by (simp only: pk ks(2))
  have fresh: "node_by_key db (public_key n) = Some n \<and> public_key n |\<notin>| gb_keys_so_far builder_new"
    if "n \<in> set ?rs" for n
    using known [OF that] by (simp add: builder_new_def)
  obtain b where b: "iter_each (\<lambda>n. builder_node db (public_key n) (?reveal n)) ?rs builder_new = Some b"
    "node_records (gb_gossip b) = node_records (gb_gossip builder_new) @ map (\<lambda>n. gossip_entry n (?reveal n)) ?rs"
    using builder_fold [OF wf d fresh, of ?reveal] by blast
  have entry: "gossip_entry (the (node_by_key db k)) (?reveal (the (node_by_key db k))) =
      gossip_entry (the (node_by_key db k)) (k = ndb_this_node db \<or> has_half_neighbor t k)"
    if "k \<in> set ?ks" for k
    using ks(1) [OF that] wf_db_key [OF wf] self by (auto simp: in_keys gossip_entry_def)
  show thesis
  proof (rule that)
    show "iter_each (\<lambda>n so_far. do {
        r \<leftarrow> root db;
        let reveal = accepts_connections n \<and> (public_key n = public_key r \<or> has_half_neighbor t (public_key n))
        in builder_node db (public_key n) reveal so_far })
      (List.map_filter (node_by_key db) ?ks) builder_new = Some b"
      using b(1) by (simp only: map_filter_node_by_key [OF ks(1)] r bind.bind_lunit Let_def)
    show "node_records (gb_gossip b) = map (\<lambda>k. gossip_entry (the (node_by_key db k))
       (k = ndb_this_node db \<or> has_half_neighbor t k)) ?ks"
      unfolding b(2) builder_new_def by (simp only: map_map comp_def) (simp add: entry [unfolded node_record_defs])
  qed
qed

section \<open>Properties\<close>

definition referred_to :: "neighborhood_database \<Rightarrow> public_key \<Rightarrow> bool" where
  "referred_to db k \<longleftrightarrow> k = ndb_this_node db \<or> (\<exists>k' n. node_by_key db k' = Some n \<and> has_half_neighbor n k)"

text \<open>What one call does after the periodic check for dead Nodes.\<close>

lemma produce_after_check:
  assumes wf: "wf_db db" and E: "env_ok E"
  shows "\<exists>out. (case node_by_key db target of
        None \<Rightarrow> ret (None, c, db)
      | Some t \<Rightarrow> do {
          referenced \<leftarrow> referenced_node_keys db;
          builder \<leftarrow> iter_each
            (\<lambda>n so_far. do {
               r \<leftarrow> root db;
               let reveal = accepts_connections n \<and>
                     (public_key n = public_key r \<or> has_half_neighbor t (public_key n))
               in builder_node db (public_key n) reveal so_far })
            (List.map_filter (node_by_key db) (gossiped_keys E db target referenced))
            builder_new;
          ret (Some (builder_build builder), c, db) }) = Some (out, c, db) \<and>
    (case node_by_key db target of
       None \<Rightarrow> out = None
     | Some t \<Rightarrow> \<exists>ks. distinct ks \<and>
         set ks = {k. k |\<in>| keys db \<and> k \<noteq> target \<and> referred_to db k} \<and>
         out = Some \<lparr>node_records = map (\<lambda>k. gossip_entry (the (node_by_key db k))
           (k = ndb_this_node db \<or> has_half_neighbor t k)) ks\<rparr>)"
proof (cases "node_by_key db target")
  case None
  then show ?thesis by simp
next
  case (Some t)
  from wf obtain referenced where ref: "referenced_node_keys db = Some referenced"
    by (rule wf_db_referenced)
  from wf obtain r where r: "root db = Some r" by (rule wf_db_root)
  let ?ks = "gossiped_keys E db target referenced"
  obtain b where b: "iter_each (\<lambda>n so_far. do {
        r \<leftarrow> root db;
        let reveal = accepts_connections n \<and> (public_key n = public_key r \<or> has_half_neighbor t (public_key n))
        in builder_node db (public_key n) reveal so_far })
      (List.map_filter (node_by_key db) ?ks) builder_new = Some b"
    "node_records (gb_gossip b) = map (\<lambda>k. gossip_entry (the (node_by_key db k))
       (k = ndb_this_node db \<or> has_half_neighbor t k)) ?ks"
    using wf E r by (rule produce_builder)
  have "distinct ?ks" "set ?ks = {k. k |\<in>| keys db \<and> k \<noteq> target \<and> referred_to db k}"
    using set_gossiped_keys [OF E] by (simp_all add: in_referenced_node_keys [OF ref wf] referred_to_def)
  moreover have "builder_build b = \<lparr>node_records = map (\<lambda>k. gossip_entry (the (node_by_key db k))
       (k = ndb_this_node db \<or> has_half_neighbor t k)) ?ks\<rparr>"
    using b(2) by (simp add: builder_build_def)
  ultimately show ?thesis
    unfolding Some option.case ref bind.bind_lunit b(1) by blast
qed

lemma produce_eq:
  "produce E target checked db0 = do {
     (c, db) \<leftarrow> (if DEAD_NODE_CHECK_INTERVAL_SECS \<le> env_now E - checked
        then do { db \<leftarrow> cull_dead_nodes E db0; ret (env_now E, db) } else ret (checked, db0));
     (case node_by_key db target of
        None \<Rightarrow> ret (None, c, db)
      | Some t \<Rightarrow> do {
          referenced \<leftarrow> referenced_node_keys db;
          builder \<leftarrow> iter_each
            (\<lambda>n so_far. do {
               r \<leftarrow> root db;
               let reveal = accepts_connections n \<and>
                     (public_key n = public_key r \<or> has_half_neighbor t (public_key n))
               in builder_node db (public_key n) reveal so_far })
            (List.map_filter (node_by_key db) (gossiped_keys E db target referenced))
            builder_new;
          ret (Some (builder_build builder), c, db) }) }"
  unfolding produce_def gossiped_keys_def by (rule refl)

lemma produce_run:
  assumes "wf_db db0" and "env_ok E"
  shows "\<exists>out checked' db. produce E target checked db0 = Some (out, checked', db) \<and> wf_db db \<and>
    ndb_this_node db = ndb_this_node db0 \<and> (\<forall>k n. node_by_key db k = Some n \<longrightarrow> node_by_key db0 k = Some n) \<and>
    (case node_by_key db target of
       None \<Rightarrow> out = None
     | Some t \<Rightarrow> \<exists>ks. distinct ks \<and>
         set ks = {k. k |\<in>| keys db \<and> k \<noteq> target \<and> referred_to db k} \<and>
         out = Some \<lparr>node_records = map (\<lambda>k. gossip_entry (the (node_by_key db k))
           (k = ndb_this_node db \<or> has_half_neighbor t k)) ks\<rparr>)"
proof -
  obtain referenced where ref: "referenced_node_keys db0 = Some referenced" by (rule wf_db_referenced [OF assms(1)])
  obtain db1 where cull: "cull_dead_nodes E db0 = Some db1" "wf_db db1" "ndb_this_node db1 = ndb_this_node db0"
    and look: "\<And>referenced k. referenced_node_keys db0 = Some referenced \<Longrightarrow> node_by_key db1 k =
       (if k |\<in>| isolated_since db0 referenced (env_now E - ISOLATED_NODE_GRACE_PERIOD_SECS)
        then None else node_by_key db0 k)"
    using assms(1) by (rule cull_dead_nodes_run [where E = E]) (rule that)
  have kept: "\<forall>k n. node_by_key db1 k = Some n \<longrightarrow> node_by_key db0 k = Some n"
    by (simp add: look [OF ref])
  show ?thesis
  proof (cases "DEAD_NODE_CHECK_INTERVAL_SECS \<le> env_now E - checked")
    case True
    from produce_after_check [OF cull(2) assms(2), where target = target and c = "env_now E"] cull(2,3) kept
    show ?thesis unfolding produce_eq by (simp only: True if_True cull(1) bind.bind_lunit split) metis
  next
    case False
    from produce_after_check [OF assms, where target = target and c = checked] assms(1)
    show ?thesis unfolding produce_eq by (simp only: False if_False bind.bind_lunit split) metis
  qed
qed

text \<open>
  C11. Producing Gossip never panics and leaves a well-formed database. Gossip for an unknown target
  is none. For a known target it has one record for each Node that is known, is not the target and
  is the local Node or referred to by some record, each with the Node's own signed data; and the
  address of a Node is in it only if that Node accepts connections and is the local Node or one that
  the target's own record names as a neighbor.
\<close>

theorem produce_correct:
  assumes "wf_db db0" and "env_ok E"
  shows "\<exists>out checked' db. produce E target checked db0 = Some (out, checked', db) \<and> wf_db db \<and>
    (case node_by_key db target of
       None \<Rightarrow> out = None
     | Some t \<Rightarrow> \<exists>ks. distinct ks \<and>
         set ks = {k. k |\<in>| keys db \<and> k \<noteq> target \<and> referred_to db k} \<and>
         out = Some \<lparr>node_records = map (\<lambda>k. gossip_entry (the (node_by_key db k))
           (k = ndb_this_node db \<or> has_half_neighbor t k)) ks\<rparr>)"
  using produce_run [OF assms] by blast

theorem produce_correct_witness:
  "(\<exists>out checked' db. produce sample_env [3] 990 sample_db = Some (out, checked', db) \<and> wf_db db) \<and>
   map_option (\<lambda>(out, _, _). map_option (\<lambda>g. map gnr_node_addr_opt (node_records g)) out)
     (produce sample_env [3] 990 sample_db) = Some (Some [Some (sample_addr 10), Some (sample_addr 11), None])"
proof
  show "\<exists>out checked' db. produce sample_env [3] 990 sample_db = Some (out, checked', db) \<and> wf_db db"
    using produce_correct [OF sample_db_wf sample_env_ok, of "[3]" 990] by blast
  show "map_option (\<lambda>(out, _, _). map_option (\<lambda>g. map gnr_node_addr_opt (node_records g)) out)
     (produce sample_env [3] 990 sample_db) = Some (Some [Some (sample_addr 10), Some (sample_addr 11), None])"
    by code_simp
qed

lemma produce_debut_run:
  assumes "wf_db db" and "root db = Some r"
  shows "produce_debut db = Some \<lparr>node_records = [gossip_entry r True]\<rparr>"
proof -
  have key: "nri_public_key (nr_inner r) = ndb_this_node db" "node_by_key db (ndb_this_node db) = Some r"
    using wf_db_key [OF assms(1)] assms(2) by (simp_all add: root_def)
  then have "node_by_key db (public_key r) = Some r" by simp
  then have "builder_node db (public_key r) True builder_new = Some
      \<lparr>gb_gossip = \<lparr>node_records = node_records (gb_gossip builder_new) @ [gossip_entry r True]\<rparr>,
       gb_keys_so_far = finsert (public_key r) (gb_keys_so_far builder_new)\<rparr>"
    by (rule builder_node_run) (simp add: builder_new_def)
  then show ?thesis
    unfolding produce_debut_def assms(2) bind.bind_lunit by (simp add: builder_build_def builder_new_def)
qed

lemma agrs_of_gossip_entries:
  assumes "\<forall>r\<in>set rs. env_from_slice E (nr_signed_gossip r) = Some (nr_inner r)"
  shows "agrs_of_gossip E \<lparr>node_records = map (\<lambda>r. gossip_entry r (reveal r)) rs\<rparr> =
    Inr (map (\<lambda>r. \<lparr>agr_signed_gossip = nr_signed_gossip r, agr_signature = nr_signature r,
      agr_node_addr_opt = (if reveal r \<and> accepts_connections r then node_addr_opt r else None),
      agr_inner = nr_inner r\<rparr>) rs)"
proof -
  let ?agr = "\<lambda>r. \<lparr>agr_signed_gossip = nr_signed_gossip r, agr_signature = nr_signature r,
      agr_node_addr_opt = (if reveal r \<and> accepts_connections r then node_addr_opt r else None),
      agr_inner = nr_inner r\<rparr>"
  have m: "map (agr_of_gnr E) (map (\<lambda>r. gossip_entry r (reveal r)) rs) = map (\<lambda>r. Inr (?agr r)) rs"
    using assms by (simp add: agr_of_gnr_def gossip_entry_def)
  have f: "find Sum_Type.isl (map (\<lambda>r. Inr (?agr r)) rs) = None"
    by (simp add: find_None_iff)
  show ?thesis
    unfolding agrs_of_gossip_def Let_def gossip_0v1.select_convs m f by (simp add: comp_def)
qed

lemma agrs_of_gossip_error:
  "agrs_of_gossip E g = Inl () \<longleftrightarrow> (\<exists>gnr\<in>set (node_records g). env_from_slice E (gnr_signed_data gnr) = None)"
proof (cases "find Sum_Type.isl (map (agr_of_gnr E) (node_records g))")
  case None
  then have "\<not> isl (agr_of_gnr E gnr)" if "gnr \<in> set (node_records g)" for gnr
    using that by (auto simp: find_None_iff)
  then have "env_from_slice E (gnr_signed_data gnr) \<noteq> None" if "gnr \<in> set (node_records g)" for gnr
    using that by (force simp: agr_of_gnr_def split: option.splits)
  with None show ?thesis by (auto simp: agrs_of_gossip_def)
next
  case (Some x)
  then have x: "x \<in> set (map (agr_of_gnr E) (node_records g))" "isl x"
    by (metis find_Some_iff nth_mem)+
  then have "agrs_of_gossip E g = Inl ()"
    using Some by (auto simp: agrs_of_gossip_def isl_def)
  moreover from x obtain gnr where "gnr \<in> set (node_records g)" "env_from_slice E (gnr_signed_data gnr) = None"
    by (auto simp: agr_of_gnr_def split: option.splits)
  ultimately show ?thesis by auto
qed



text \<open>
  The debut Gossip of a Node is one record: its own, with its signed data, and with its address
  exactly when it accepts connections.
\<close>

theorem produce_debut_correct:
  assumes "wf_db db" and "root db = Some r"
  shows "produce_debut db = Some \<lparr>node_records = [\<lparr>gnr_signed_data = nr_signed_gossip r,
      gnr_signature = nr_signature r,
      gnr_node_addr_opt = (if accepts_connections r then node_addr_opt r else None)\<rparr>]\<rparr>"
  using produce_debut_run [OF assms] by (simp add: gossip_entry_def)

theorem produce_debut_correct_witness:
  "\<exists>g. produce_debut sample_db = Some g \<and> map gnr_node_addr_opt (node_records g) = [Some (sample_addr 10)]"
proof -
  have "root sample_db = Some (sample_record 0 (Some (sample_addr 10)) [1, 2] 900)"
    "node_addr_opt (sample_record 0 (Some (sample_addr 10)) [1, 2] 900) = Some (sample_addr 10)"
    "accepts_connections (sample_record 0 (Some (sample_addr 10)) [1, 2] 900)"
    by code_simp+
  then show ?thesis using produce_debut_correct [OF sample_db_wf] by simp
qed

end
