(* ===== verification/Exit_Preferences.thy ===== *)
theory Exit_Preferences
  imports Gossip
begin

text \<open>
  The user's exit preferences: \<open>UserExitPreferences\<close> of \<^verbatim>\<open>node/src/neighborhood/mod.rs\<close>, which price a
  Node's country when the Node becomes known, and \<open>ExitLocation\<close> of
  \<^verbatim>\<open>pulsemesh_lib/src/messages.rs\<close>. Arithmetic on \<open>u32\<close> wraps, as in a release build.
\<close>

section \<open>Definitions\<close>

definition UNREACHABLE_COUNTRY_PENALTY :: u32 where
  "UNREACHABLE_COUNTRY_PENALTY = 100000000"

definition COUNTRY_UNDESIRABILITY_FACTOR :: u32 where
  "COUNTRY_UNDESIRABILITY_FACTOR = 1000"

definition ZZ_COUNTRY_CODE_STRING :: country_code where
  "ZZ_COUNTRY_CODE_STRING = ''ZZ''"

record exit_location =
  el_country_codes :: "country_code list"
  el_priority :: u64

datatype fallback_preference = FallbackNothing | ExitCountryWithFallback | ExitCountryNoFallback

record user_exit_preferences =
  uep_exit_countries :: "country_code list"
  uep_fallback_preference :: fallback_preference
  uep_locations_opt :: "exit_location list option"
  uep_db_countries :: "country_code list"

definition user_exit_preferences_new :: user_exit_preferences where
  "user_exit_preferences_new = \<lparr>uep_exit_countries = [], uep_fallback_preference = FallbackNothing,
     uep_locations_opt = None, uep_db_countries = []\<rparr>"

definition should_set_country_undesirability :: "country_code \<Rightarrow> exit_location \<Rightarrow> bool" where
  "should_set_country_undesirability country_code loc \<longleftrightarrow>
     country_code \<in> set (el_country_codes loc) \<and> country_code \<noteq> ZZ_COUNTRY_CODE_STRING"

definition is_unreachable_country_penalty :: "user_exit_preferences \<Rightarrow> country_code \<Rightarrow> bool" where
  "is_unreachable_country_penalty uep country_code \<longleftrightarrow>
     uep_fallback_preference uep = ExitCountryWithFallback \<and> country_code \<notin> set (uep_exit_countries uep) \<or>
     country_code = ZZ_COUNTRY_CODE_STRING"

definition calculate_country_undesirability :: "u32 \<Rightarrow> u32" where
  "calculate_country_undesirability priority = COUNTRY_UNDESIRABILITY_FACTOR * (priority - 1)"

definition put_country_undesirability :: "u32 \<Rightarrow> node_record \<Rightarrow> node_record" where
  "put_country_undesirability u r = r\<lparr>nr_metadata := (nr_metadata r)\<lparr>nrm_country_undesirability := u\<rparr>\<rparr>"

definition country_code_of :: "node_record \<Rightarrow> country_code" where
  "country_code_of r = (case nri_country_code_opt (nr_inner r) of
      Some country_code \<Rightarrow> country_code
    | None \<Rightarrow> ZZ_COUNTRY_CODE_STRING)"

definition assign_nodes_country_undesirability :: "user_exit_preferences \<Rightarrow> node_record \<Rightarrow> node_record" where
  "assign_nodes_country_undesirability uep r =
     (let country_code = country_code_of r
      in case uep_locations_opt uep of
          None \<Rightarrow> r
        | Some exit_locations_by_priority \<Rightarrow>
            fold (\<lambda>loc r.
              let r1 = (if should_set_country_undesirability country_code loc
                        then put_country_undesirability (calculate_country_undesirability (ucast (el_priority loc))) r
                        else r)
              in if is_unreachable_country_penalty uep country_code
                 then put_country_undesirability UNREACHABLE_COUNTRY_PENALTY r1
                 else r1)
              exit_locations_by_priority r)"

text \<open>What the acceptor does with optional preferences.\<close>

definition apply_exit_preferences :: "user_exit_preferences option \<Rightarrow> node_record \<Rightarrow> node_record" where
  "apply_exit_preferences uep_opt r = (case uep_opt of
      Some uep \<Rightarrow> assign_nodes_country_undesirability uep r
    | None \<Rightarrow> r)"

section \<open>Only the price of the country changes\<close>

lemma put_country_undesirability_sel [simp]:
  "nr_inner (put_country_undesirability u r) = nr_inner r"
  "nrm_node_addr_opt (nr_metadata (put_country_undesirability u r)) = nrm_node_addr_opt (nr_metadata r)"
  "nrm_country_undesirability (nr_metadata (put_country_undesirability u r)) = u"
  "nr_signed_gossip (put_country_undesirability u r) = nr_signed_gossip r"
  "nr_signature (put_country_undesirability u r) = nr_signature r"
  "put_country_undesirability u (put_country_undesirability v r) = put_country_undesirability u r"
  by (simp_all add: put_country_undesirability_def)

text \<open>The price that the loop leaves: the penalty if there is a location at all and the country is
  unreachable, otherwise that of the last location that names the country.\<close>

definition country_price :: "user_exit_preferences \<Rightarrow> exit_location list \<Rightarrow> country_code \<Rightarrow> u32 option" where
  "country_price uep locs country_code =
     (if is_unreachable_country_penalty uep country_code
      then (if locs = [] then None else Some UNREACHABLE_COUNTRY_PENALTY)
      else map_option (\<lambda>loc. calculate_country_undesirability (ucast (el_priority loc)))
        (find (should_set_country_undesirability country_code) (rev locs)))"

lemma find_snoc: "find P (xs @ ys) = (case find P xs of None \<Rightarrow> find P ys | Some x \<Rightarrow> Some x)"
  by (induction xs) auto

lemma assign_nodes_country_undesirability_eq:
  "assign_nodes_country_undesirability uep r = (case uep_locations_opt uep of
      None \<Rightarrow> r
    | Some locs \<Rightarrow> (case country_price uep locs (country_code_of r) of
        None \<Rightarrow> r
      | Some u \<Rightarrow> put_country_undesirability u r))"
proof (cases "uep_locations_opt uep")
  case None
  then show ?thesis by (simp add: assign_nodes_country_undesirability_def)
next
  case (Some locs)
  let ?c = "country_code_of r"
  let ?f = "\<lambda>loc r.
      let r1 = (if should_set_country_undesirability ?c loc
                then put_country_undesirability (calculate_country_undesirability (ucast (el_priority loc))) r
                else r)
      in if is_unreachable_country_penalty uep ?c
         then put_country_undesirability UNREACHABLE_COUNTRY_PENALTY r1 else r1"
  have "fold ?f locs r = (case country_price uep locs ?c of None \<Rightarrow> r | Some u \<Rightarrow> put_country_undesirability u r)"
    by (induction locs rule: rev_induct)
      (auto simp: country_price_def Let_def split: option.splits)
  with Some show ?thesis by (simp add: assign_nodes_country_undesirability_def Let_def)
qed

lemma apply_exit_preferences_sel [simp]:
  "nr_inner (apply_exit_preferences uep_opt r) = nr_inner r"
  "nrm_node_addr_opt (nr_metadata (apply_exit_preferences uep_opt r)) = nrm_node_addr_opt (nr_metadata r)"
  by (auto simp: apply_exit_preferences_def assign_nodes_country_undesirability_eq split: option.split)

end
