(* ===== verification/Gossip_Acceptor.thy ===== *)
theory Gossip_Acceptor
  imports Exit_Preferences
begin

text \<open>
  Accepting Gossip: \<^verbatim>\<open>node/src/neighborhood/gossip_acceptor.rs\<close>. Each handler is a pair of definitions,
  \<open>\<dots>_qualifies\<close> and \<open>\<dots>_handle\<close>; \<open>acceptor_handle\<close> tries them in the order of the source. Besides its
  result a handler returns the \<open>ConnectionProgressMessage\<close>s it sends and the new state. The texts
  of the source's bans are log messages; \<open>ban_reason\<close> keeps the case and the Node it names.
\<close>

section \<open>Results and messages\<close>

definition MAX_DEGREE :: nat where
  "MAX_DEGREE = 5"

text \<open>Sixty seconds, in nanoseconds.\<close>

definition PASS_GOSSIP_EXPIRED_TIME :: int where
  "PASS_GOSSIP_EXPIRED_TIME = 60000000000"

datatype ban_reason =
    DebutWithoutNodeAddr public_key
  | DebutWithoutPorts public_key
  | DebutNonAcceptingWithNodeAddr public_key
  | PassWithoutNodeAddr public_key
  | PassWithoutPorts public_key
  | NeitherClaimsSource public_key public_key
  | IntroducerClaimsRootKey public_key
  | IntroducerWithoutPorts public_key
  | IntroducerClaimsRootIp public_key
  | IntroduceeWithoutPorts public_key public_key
  | BothClaimSource public_key public_key
  | ImmutableCharacteristic public_key update_error
  | ClaimsRootIp public_key
  | ClaimsRootKey
  | DuplicateIp
  | Unclassifiable nat

datatype gossip_acceptance_result =
    Accepted
  | Reply gossip_0v1 public_key node_addr
  | Failed gossip_failure public_key node_addr
  | Ignored
  | Ban ban_reason

datatype qualification = Matched | Unmatched | Malformed ban_reason

record neighborhood_metadata =
  nmd_connection_progress_peers :: "ip_addr list"
  nmd_db_patch_size :: u8
  nmd_user_exit_preferences_opt :: "user_exit_preferences option"

text \<open>Iterator adaptors whose closure can panic.\<close>

fun filter_run :: "('a \<Rightarrow> bool run) \<Rightarrow> 'a list \<Rightarrow> 'a list run" where
  "filter_run p [] = ret []"
| "filter_run p (x # xs) = do { b \<leftarrow> p x; ys \<leftarrow> filter_run p xs; ret (if b then x # ys else ys) }"

fun skip_while_run :: "('a \<Rightarrow> bool run) \<Rightarrow> 'a list \<Rightarrow> 'a list run" where
  "skip_while_run p [] = ret []"
| "skip_while_run p (x # xs) = do { b \<leftarrow> p x; if b then skip_while_run p xs else ret (x # xs) }"

definition sort_by_run :: "('a \<Rightarrow> nat run) \<Rightarrow> 'a list \<Rightarrow> 'a list run" where
  "sort_by_run key xs = do { ks \<leftarrow> those (map key xs); ret (map snd (sort_key fst (zip ks xs))) }"

definition first :: "'a list \<Rightarrow> 'a option" where
  "first xs = (case xs of [] \<Rightarrow> None | x # _ \<Rightarrow> Some x)"

section \<open>Debuts\<close>

definition debut_qualifies ::
  "neighborhood_database \<Rightarrow> accessible_gossip_record list \<Rightarrow> socket_addr \<Rightarrow> qualification" where
  "debut_qualifies database agrs gossip_source = (case agrs of
      [agr] \<Rightarrow>
        let key = nri_public_key (agr_inner agr)
        in if node_by_key database key \<noteq> None then Unmatched
           else (case agr_node_addr_opt agr of
               None \<Rightarrow>
                 if nri_accepts_connections (agr_inner agr) then Malformed (DebutWithoutNodeAddr key)
                 else Matched
             | Some na \<Rightarrow>
                 if nri_accepts_connections (agr_inner agr) then
                   if na_ports na = [] then Malformed (DebutWithoutPorts key)
                   else if na_ip_addr na = sa_ip gossip_source then Matched
                   else Unmatched
                 else Malformed (DebutNonAcceptingWithNodeAddr key))
    | _ \<Rightarrow> Unmatched)"

definition node_and_neighbor_keys :: "accessible_gossip_record \<Rightarrow> public_key fset" where
  "node_and_neighbor_keys agr = finsert (nri_public_key (agr_inner agr)) (nri_neighbors (agr_inner agr))"

definition keys_ordered_by_degree_excluding ::
  "node_env \<Rightarrow> neighborhood_database \<Rightarrow> public_key fset \<Rightarrow> public_key fset \<Rightarrow> public_key list run" where
  "keys_ordered_by_degree_excluding E database ks excluding =
     sort_by_run (gossip_target_degree E database) (filter (\<lambda>k. k |\<notin>| excluding) (env_iter E ks))"

definition root_full_neighbors_ordered_by_degree_excluding ::
  "node_env \<Rightarrow> neighborhood_database \<Rightarrow> accessible_gossip_record \<Rightarrow> public_key list run" where
  "root_full_neighbors_ordered_by_degree_excluding E database excluded = do {
     r \<leftarrow> root database;
     keys_ordered_by_degree_excluding E database (full_neighbor_keys r database)
       (node_and_neighbor_keys excluded) }"

definition node_accepts_connections :: "neighborhood_database \<Rightarrow> public_key \<Rightarrow> bool run" where
  "node_accepts_connections database k = map_option accepts_connections (node_by_key database k)"

definition find_more_appropriate_neighbor ::
  "node_env \<Rightarrow> neighborhood_database \<Rightarrow> accessible_gossip_record \<Rightarrow> public_key option run" where
  "find_more_appropriate_neighbor E database excluded = do {
     neighbor_vec \<leftarrow> root_full_neighbors_ordered_by_degree_excluding E database excluded;
     accepting \<leftarrow> filter_run (node_accepts_connections database) neighbor_vec;
     qualified_neighbors \<leftarrow> skip_while_run
       (\<lambda>k. do { d \<leftarrow> gossip_target_degree E database k; ret (d \<le> 2) }) accepting;
     (case first qualified_neighbors of
        None \<Rightarrow> ret None
      | Some key \<Rightarrow> do {
          d \<leftarrow> gossip_target_degree E database key;
          r \<leftarrow> root database;
          d0 \<leftarrow> gossip_target_degree E database (public_key r);
          ret (if d \<ge> d0 then None else Some key) }) }"

definition find_least_connected_neighbor_excluding ::
  "node_env \<Rightarrow> public_key fset \<Rightarrow> neighborhood_database \<Rightarrow> accessible_gossip_record \<Rightarrow> public_key option run" where
  "find_least_connected_neighbor_excluding E ks database excluded = do {
     ordered \<leftarrow> keys_ordered_by_degree_excluding E database ks (node_and_neighbor_keys excluded);
     ret (first ordered) }"

definition find_least_connected_half_neighbor_excluding ::
  "node_env \<Rightarrow> neighborhood_database \<Rightarrow> accessible_gossip_record \<Rightarrow> public_key option run" where
  "find_least_connected_half_neighbor_excluding E database excluded = do {
     r \<leftarrow> root database;
     find_least_connected_neighbor_excluding E (half_neighbor_keys r) database excluded }"

definition find_least_connected_full_neighbor_excluding ::
  "node_env \<Rightarrow> neighborhood_database \<Rightarrow> accessible_gossip_record \<Rightarrow> public_key option run" where
  "find_least_connected_full_neighbor_excluding E database excluded = do {
     r \<leftarrow> root database;
     ks \<leftarrow> filter_run (node_accepts_connections database) (env_iter E (full_neighbor_keys r database));
     find_least_connected_neighbor_excluding E (fset_of_list ks) database excluded }"

definition should_not_make_another_introduction :: "accessible_gossip_record \<Rightarrow> bool" where
  "should_not_make_another_introduction debuting_agr \<longleftrightarrow> nri_neighbors (agr_inner debuting_agr) \<noteq> {||}"

definition make_pass_gossip :: "neighborhood_database \<Rightarrow> public_key \<Rightarrow> gossip_0v1 run" where
  "make_pass_gossip database pass_target =
     map_option builder_build (builder_node database pass_target True builder_new)"

definition make_introduction ::
  "node_env \<Rightarrow> neighborhood_database \<Rightarrow> accessible_gossip_record \<Rightarrow> socket_addr \<Rightarrow>
     (gossip_0v1 \<times> public_key \<times> node_addr) option run" where
  "make_introduction E database debuting_agr gossip_source = do {
     lcn_key_opt \<leftarrow> find_least_connected_full_neighbor_excluding E database debuting_agr;
     (case lcn_key_opt of
        None \<Rightarrow> ret None
      | Some lcn_key \<Rightarrow> do {
          _ \<leftarrow> node_by_key database lcn_key;
          let debut_node_addr = (case agr_node_addr_opt debuting_agr of
                Some na \<Rightarrow> node_addr_clone na
              | None \<Rightarrow> node_addr_of_socket_addr gossip_source)
          in do {
            r \<leftarrow> root database;
            b1 \<leftarrow> builder_node database (public_key r) True builder_new;
            b2 \<leftarrow> builder_node database lcn_key True b1;
            ret (Some (builder_build b2, nri_public_key (agr_inner debuting_agr), debut_node_addr)) } }) }"

definition create_debut_gossip_response ::
  "node_env \<Rightarrow> neighborhood_database \<Rightarrow> public_key \<Rightarrow> gossip_0v1 run" where
  "create_debut_gossip_response E database debut_node_key = do {
     r \<leftarrow> root database;
     (case add_half_neighbor_key debut_node_key (clear_half_neighbors (node_record_clone r)) of
        (Inl _, _) \<Rightarrow> panic
      | (Inr _, root_node) \<Rightarrow> do {
          gnr \<leftarrow> gnr_of_inner E (nr_inner root_node) (node_addr_opt root_node);
          ret \<lparr>node_records = [gnr]\<rparr> }) }"

definition root_new_version :: "node_env \<Rightarrow> neighborhood_database \<Rightarrow> neighborhood_database run" where
  "root_new_version E database = root_mut (\<lambda>r. regenerate_signed_gossip E (increment_version r)) database"

text \<open>\<open>Inl ()\<close> is the source's \<open>Err(())\<close>: no room for another neighbor.\<close>

definition try_accept_debut ::
  "node_env \<Rightarrow> neighborhood_database \<Rightarrow> accessible_gossip_record \<Rightarrow> socket_addr \<Rightarrow>
     user_exit_preferences option \<Rightarrow> ((unit + gossip_acceptance_result) \<times> neighborhood_database) run" where
  "try_accept_debut E database debuting_agr gossip_source uep_opt = do {
     r \<leftarrow> root database;
     degree \<leftarrow> gossip_target_degree E database (public_key r);
     if degree \<ge> MAX_DEGREE then ret (Inl (), database)
     else
       let debuting_node = apply_exit_preferences uep_opt (node_record_of_agr_ref E debuting_agr)
       in (case add_node debuting_node database of
          (Inl _, _) \<Rightarrow> panic
        | (Inr debut_node_key, database1) \<Rightarrow>
            (case add_half_neighbor E debut_node_key database1 of
               (Inr True, database2) \<Rightarrow> do {
                 database3 \<leftarrow> root_new_version E database2;
                 if should_not_make_another_introduction debuting_agr then ret (Inr Accepted, database3)
                 else do {
                   introduction_opt \<leftarrow> make_introduction E database3 debuting_agr gossip_source;
                   (case introduction_opt of
                      Some (introduction, target_key, target_node_addr) \<Rightarrow>
                        ret (Inr (Reply introduction target_key target_node_addr), database3)
                    | None \<Rightarrow> do {
                        debut_gossip \<leftarrow> create_debut_gossip_response E database3 debut_node_key;
                        na \<leftarrow> agr_node_addr_opt debuting_agr;
                        ret (Inr (Reply debut_gossip (nri_public_key (agr_inner debuting_agr))
                               (node_addr_clone na)), database3) }) } }
             | _ \<Rightarrow> panic)) }"

definition debut_handle ::
  "node_env \<Rightarrow> neighborhood_database \<Rightarrow> accessible_gossip_record list \<Rightarrow> socket_addr \<Rightarrow>
     neighborhood_metadata \<Rightarrow> (gossip_acceptance_result \<times> neighborhood_database) run" where
  "debut_handle E database agrs gossip_source metadata = (case agrs of
      [] \<Rightarrow> panic
    | agr # _ \<Rightarrow>
        let source_agr = (case agr_node_addr_opt agr of
              None \<Rightarrow> agr\<lparr>agr_node_addr_opt := Some (node_addr_of_socket_addr gossip_source)\<rparr>
            | Some _ \<Rightarrow> agr);
            source_key = nri_public_key (agr_inner source_agr)
        in do {
          source_node_addr \<leftarrow> map_option node_addr_clone (agr_node_addr_opt source_agr);
          preferred_key_opt \<leftarrow> find_more_appropriate_neighbor E database source_agr;
          (case preferred_key_opt of
             Some preferred_key \<Rightarrow> do {
               preferred_node \<leftarrow> node_by_key database preferred_key;
               _ \<leftarrow> node_addr_opt preferred_node;
               gossip \<leftarrow> make_pass_gossip database preferred_key;
               ret (Reply gossip source_key source_node_addr, database) }
           | None \<Rightarrow> do {
               (result, database') \<leftarrow> try_accept_debut E database source_agr gossip_source
                 (nmd_user_exit_preferences_opt metadata);
               (case result of
                  Inr r \<Rightarrow> ret (r, database')
                | Inl _ \<Rightarrow> do {
                    lcn_key_opt \<leftarrow> find_least_connected_half_neighbor_excluding E database' source_agr;
                    (case lcn_key_opt of
                       None \<Rightarrow> ret (Failed NoSuitableNeighbors source_key source_node_addr, database')
                     | Some lcn_key \<Rightarrow> do {
                         _ \<leftarrow> node_by_key database' lcn_key;
                         gossip \<leftarrow> make_pass_gossip database' lcn_key;
                         ret (Reply gossip source_key source_node_addr, database') }) }) }) })"

section \<open>Passes\<close>

type_synonym pass_targets = "(ip_addr, int) fmap"

definition pass_qualifies :: "accessible_gossip_record list \<Rightarrow> socket_addr \<Rightarrow> qualification" where
  "pass_qualifies agrs gossip_source = (case agrs of
      [agr] \<Rightarrow> (case agr_node_addr_opt agr of
          None \<Rightarrow> Malformed (PassWithoutNodeAddr (nri_public_key (agr_inner agr)))
        | Some na \<Rightarrow>
            if na_ports na = [] then Malformed (PassWithoutPorts (nri_public_key (agr_inner agr)))
            else if na_ip_addr na = sa_ip gossip_source then Unmatched
            else Matched)
    | _ \<Rightarrow> Unmatched)"

definition pass_reply ::
  "neighborhood_database \<Rightarrow> accessible_gossip_record \<Rightarrow> node_addr \<Rightarrow> gossip_acceptance_result run" where
  "pass_reply database pass_agr pass_target_node_addr = do {
     r \<leftarrow> root database;
     b \<leftarrow> builder_node database (public_key r) True builder_new;
     ret (Reply (builder_build b) (nri_public_key (agr_inner pass_agr)) pass_target_node_addr) }"

definition pass_handle ::
  "node_env \<Rightarrow> neighborhood_database \<Rightarrow> accessible_gossip_record list \<Rightarrow> socket_addr \<Rightarrow>
     neighborhood_metadata \<Rightarrow> pass_targets \<Rightarrow>
     (gossip_acceptance_result \<times> connection_progress_message list \<times> pass_targets) run" where
  "pass_handle E database agrs gossip_source metadata previous_pass_targets = (case agrs of
      [] \<Rightarrow> panic
    | pass_agr # _ \<Rightarrow> do {
        pass_target_node_addr \<leftarrow> map_option node_addr_clone (agr_node_addr_opt pass_agr);
        let ip = na_ip_addr pass_target_node_addr;
            cpm = (\<lambda>event. \<lparr>cpm_peer_addr = sa_ip gossip_source, cpm_event = event\<rparr>);
            targets' = fmupd ip (env_system_time E) previous_pass_targets
        in (case fmlookup previous_pass_targets ip of
            None \<Rightarrow>
              if ip \<in> set (nmd_connection_progress_peers metadata)
              then ret (Ignored, [cpm PassLoopFoundEvent], previous_pass_targets)
              else do {
                reply \<leftarrow> pass_reply database pass_agr pass_target_node_addr;
                ret (reply, [cpm (PassGossipReceived ip)], targets') }
          | Some timestamp \<Rightarrow>
              if env_system_time E < timestamp then panic
              else if env_system_time E - timestamp \<le> PASS_GOSSIP_EXPIRED_TIME
              then ret (Ignored, [cpm PassLoopFoundEvent], targets')
              else do {
                reply \<leftarrow> pass_reply database pass_agr pass_target_node_addr;
                ret (reply, [cpm (PassGossipReceived ip)], targets') }) })"

section \<open>Introductions\<close>

definition verify_size :: "accessible_gossip_record list \<Rightarrow> qualification option" where
  "verify_size agrs = (if length agrs \<noteq> 2 then Some Unmatched else None)"

text \<open>\<open>Inl\<close> of a qualification is the source's \<open>Err\<close>; fewer than two records would panic.\<close>

definition order_is_introducee_introducer ::
  "accessible_gossip_record list \<Rightarrow> socket_addr \<Rightarrow> (qualification + bool) run" where
  "order_is_introducee_introducer agrs gossip_source = (case agrs of
      first_agr # rest \<Rightarrow> (case agr_node_addr_opt first_agr of
          None \<Rightarrow> ret (Inl Unmatched)
        | Some first_na \<Rightarrow> (case rest of
            [] \<Rightarrow> panic
          | second_agr # _ \<Rightarrow> (case agr_node_addr_opt second_agr of
              None \<Rightarrow> ret (Inl Unmatched)
            | Some second_na \<Rightarrow>
                if na_ip_addr first_na = sa_ip gossip_source then ret (Inr True)
                else if na_ip_addr second_na = sa_ip gossip_source then ret (Inr False)
                else ret (Inl (Malformed (NeitherClaimsSource (nri_public_key (agr_inner first_agr))
                       (nri_public_key (agr_inner second_agr))))))))
    | [] \<Rightarrow> panic)"

definition identify_players ::
  "accessible_gossip_record list \<Rightarrow> socket_addr \<Rightarrow>
     (qualification + accessible_gossip_record \<times> accessible_gossip_record) run" where
  "identify_players agrs gossip_source = do {
     order \<leftarrow> order_is_introducee_introducer agrs gossip_source;
     (case order of
        Inl qual \<Rightarrow> ret (Inl qual)
      | Inr introducer_first \<Rightarrow> (case agrs of
            a # b # _ \<Rightarrow> ret (Inr (if introducer_first then (a, b) else (b, a)))
          | _ \<Rightarrow> panic)) }"

definition verify_introducer :: "accessible_gossip_record \<Rightarrow> node_record \<Rightarrow> qualification option run" where
  "verify_introducer agr root_node =
     (let key = nri_public_key (agr_inner agr)
      in if key = public_key root_node then ret (Some (Malformed (IntroducerClaimsRootKey key)))
         else do {
           introducer_node_addr \<leftarrow> agr_node_addr_opt agr;
           if na_ports introducer_node_addr = [] then ret (Some (Malformed (IntroducerWithoutPorts key)))
           else (case node_addr_opt root_node of
               Some root_node_addr \<Rightarrow>
                 if na_ip_addr introducer_node_addr = na_ip_addr root_node_addr
                 then ret (Some (Malformed (IntroducerClaimsRootIp key)))
                 else ret None
             | None \<Rightarrow> ret None) })"

definition verify_introducee ::
  "neighborhood_database \<Rightarrow> accessible_gossip_record \<Rightarrow> accessible_gossip_record \<Rightarrow> socket_addr \<Rightarrow>
     qualification option" where
  "verify_introducee database introducer introducee gossip_source =
     (let introducer_key = nri_public_key (agr_inner introducer);
          introducee_key = nri_public_key (agr_inner introducee)
      in if node_by_key database introducee_key \<noteq> None then Some Unmatched
         else (case agr_node_addr_opt introducee of
             None \<Rightarrow> Some Unmatched
           | Some introducee_node_addr \<Rightarrow>
               if na_ports introducee_node_addr = []
               then Some (Malformed (IntroduceeWithoutPorts introducer_key introducee_key))
               else if na_ip_addr introducee_node_addr = sa_ip gossip_source
               then Some (Malformed (BothClaimSource introducer_key introducee_key))
               else None))"

definition introduction_qualifies ::
  "neighborhood_database \<Rightarrow> accessible_gossip_record list \<Rightarrow> socket_addr \<Rightarrow> qualification run" where
  "introduction_qualifies database agrs gossip_source = (case verify_size agrs of
      Some qual \<Rightarrow> ret qual
    | None \<Rightarrow> do {
        players \<leftarrow> identify_players agrs gossip_source;
        (case players of
           Inl qual \<Rightarrow> ret qual
         | Inr (introducer, introducee) \<Rightarrow> do {
             r \<leftarrow> root database;
             introducer_qual \<leftarrow> verify_introducer introducer r;
             (case introducer_qual of
                Some qual \<Rightarrow> ret qual
              | None \<Rightarrow> (case verify_introducee database introducer introducee gossip_source of
                  Some qual \<Rightarrow> ret qual
                | None \<Rightarrow> ret Matched)) }) })"

definition make_debut_triple ::
  "neighborhood_database \<Rightarrow> accessible_gossip_record \<Rightarrow>
     (string + gossip_0v1 \<times> public_key \<times> node_addr) run" where
  "make_debut_triple database debut_target = (case agr_node_addr_opt debut_target of
      None \<Rightarrow> ret (Inl ''no IP address supplied'')
    | Some na \<Rightarrow>
        if na_ports na = [] then ret (Inl ''no ports were specified'')
        else do {
          r \<leftarrow> root database;
          b \<leftarrow> builder_node database (public_key r) True builder_new;
          ret (Inr (builder_build b, nri_public_key (agr_inner debut_target), node_addr_clone na)) })"

definition introduction_update_database ::
  "node_env \<Rightarrow> neighborhood_database \<Rightarrow> accessible_gossip_record \<Rightarrow> user_exit_preferences option \<Rightarrow>
     ((update_error + bool) \<times> neighborhood_database) run" where
  "introduction_update_database E database introducer uep_opt =
     (let introducer_key = nri_public_key (agr_inner introducer);
          become_neighbor = (\<lambda>database1. (case add_half_neighbor E introducer_key database1 of
              (Inl _, _) \<Rightarrow> panic
            | (Inr added, database2) \<Rightarrow>
                if added then do { database3 \<leftarrow> root_new_version E database2; ret (Inr True, database3) }
                else ret (Inr True, database2)))
      in (case node_by_key database introducer_key of
          Some existing_introducer \<Rightarrow>
            if version existing_introducer < nri_version (agr_inner introducer)
            then (case update_node_record E introducer existing_introducer of
                (Inl e, _) \<Rightarrow> ret (Inl e, database)
              | (Inr _, updated) \<Rightarrow> become_neighbor (put_node introducer_key updated database))
            else ret (Inr False, database)
        | None \<Rightarrow>
            (case add_node (apply_exit_preferences uep_opt (node_record_of_agr E introducer)) database of
               (Inl _, _) \<Rightarrow> panic
             | (Inr _, database1) \<Rightarrow> become_neighbor database1)))"

definition introduction_handle ::
  "node_env \<Rightarrow> neighborhood_database \<Rightarrow> accessible_gossip_record list \<Rightarrow> socket_addr \<Rightarrow>
     neighborhood_metadata \<Rightarrow>
     (gossip_acceptance_result \<times> connection_progress_message list \<times> neighborhood_database) run" where
  "introduction_handle E database agrs gossip_source metadata = do {
     r \<leftarrow> root database;
     if fcard (full_neighbor_keys r database) \<ge> MAX_DEGREE then ret (Ignored, [], database)
     else do {
       players \<leftarrow> identify_players agrs gossip_source;
       (case players of
          Inl _ \<Rightarrow> panic
        | Inr (introducer, introducee) \<Rightarrow> do {
            introducer_na \<leftarrow> agr_node_addr_opt introducer;
            introducee_na \<leftarrow> agr_node_addr_opt introducee;
            (result, database') \<leftarrow> introduction_update_database E database introducer
              (nmd_user_exit_preferences_opt metadata);
            (case result of
               Inl e \<Rightarrow>
                 ret (Ban (ImmutableCharacteristic (nri_public_key (agr_inner introducer)) e), [], database')
             | Inr _ \<Rightarrow> do {
                 triple \<leftarrow> make_debut_triple database' introducee;
                 (case triple of
                    Inl _ \<Rightarrow> panic
                  | Inr (debut, target_key, target_node_addr) \<Rightarrow>
                      ret (Reply debut target_key target_node_addr,
                        [\<lparr>cpm_peer_addr = na_ip_addr introducer_na,
                          cpm_event = IntroductionGossipReceived (na_ip_addr introducee_na)\<rparr>],
                        database')) }) }) } }"

section \<open>Standard Gossip\<close>

definition ip_of :: "accessible_gossip_record \<Rightarrow> ip_addr run" where
  "ip_of agr = map_option na_ip_addr (agr_node_addr_opt agr)"

fun duplicate_ips :: "accessible_gossip_record list \<Rightarrow> ip_addr fset \<Rightarrow> ip_addr fset \<Rightarrow> ip_addr fset run" where
  "duplicate_ips [] addr_set dup_set = ret dup_set"
| "duplicate_ips (agr # agrs) addr_set dup_set = do {
     ip \<leftarrow> ip_of agr;
     if ip |\<in>| addr_set then duplicate_ips agrs addr_set (finsert ip dup_set)
     else duplicate_ips agrs (finsert ip addr_set) dup_set }"

fun find_run :: "('a \<Rightarrow> bool run) \<Rightarrow> 'a list \<Rightarrow> 'a option run" where
  "find_run p [] = ret None"
| "find_run p (x # xs) = do { b \<leftarrow> p x; if b then ret (Some x) else find_run p xs }"

definition standard_qualifies ::
  "neighborhood_database \<Rightarrow> accessible_gossip_record list \<Rightarrow> socket_addr \<Rightarrow> qualification run" where
  "standard_qualifies database agrs gossip_source = do {
     let agrs_next_door = filter (\<lambda>agr. agr_node_addr_opt agr \<noteq> None) agrs
     in do {
       root_node \<leftarrow> root database;
       impostor_opt \<leftarrow>
         (if accepts_connections root_node
          then find_run (\<lambda>agr. do {
            ip \<leftarrow> ip_of agr;
            root_node_addr \<leftarrow> node_addr_opt root_node;
            ret (ip = na_ip_addr root_node_addr) }) agrs_next_door
          else ret None);
       (case impostor_opt of
          Some impostor \<Rightarrow> ret (Malformed (ClaimsRootIp (nri_public_key (agr_inner impostor))))
        | None \<Rightarrow>
            if (\<exists>agr\<in>set agrs. nri_public_key (agr_inner agr) = public_key root_node)
            then ret (Malformed ClaimsRootKey)
            else do {
              dup_set \<leftarrow> duplicate_ips agrs_next_door {||} {||};
              ret (if dup_set = {||} then Matched else Malformed DuplicateIp) }) } }"

fun compute_patch_recursive ::
  "nat \<Rightarrow> node_record \<Rightarrow> (public_key, accessible_gossip_record) fmap \<Rightarrow> public_key \<Rightarrow>
     public_key fset \<Rightarrow> public_key fset" where
  "compute_patch_recursive 0 root_node agrs current_node_key patch = finsert current_node_key patch"
| "compute_patch_recursive (Suc hops_remaining) root_node agrs current_node_key patch =
     (let patch1 = finsert current_node_key patch;
          neighbors_opt = (if current_node_key = public_key root_node
            then Some (nri_neighbors (nr_inner root_node))
            else map_option (\<lambda>agr. nri_neighbors (agr_inner agr)) (fmlookup agrs current_node_key))
      in case neighbors_opt of
          None \<Rightarrow> patch1 |-| {|current_node_key|}
        | Some neighbors \<Rightarrow> fold
            (\<lambda>neighbor patch. if neighbor |\<in>| patch then patch
               else compute_patch_recursive hops_remaining root_node agrs neighbor patch)
            (sorted_list_of_fset neighbors) patch1)"

definition agrs_by_key ::
  "accessible_gossip_record list \<Rightarrow> (public_key, accessible_gossip_record) fmap" where
  "agrs_by_key agrs = fold (\<lambda>agr. fmupd (nri_public_key (agr_inner agr)) agr) agrs fmempty"

definition compute_patch ::
  "accessible_gossip_record list \<Rightarrow> node_record \<Rightarrow> u8 \<Rightarrow> public_key fset" where
  "compute_patch agrs root_node db_patch_size =
     compute_patch_recursive (unat db_patch_size) root_node (agrs_by_key agrs) (public_key root_node) {||}"

definition filter_agrs_by_patch ::
  "accessible_gossip_record list \<Rightarrow> public_key fset \<Rightarrow> accessible_gossip_record list" where
  "filter_agrs_by_patch agrs patch = filter (\<lambda>agr. nri_public_key (agr_inner agr) |\<in>| patch) agrs"

definition non_introductory :: "socket_addr \<Rightarrow> accessible_gossip_record \<Rightarrow> bool" where
  "non_introductory gossip_source agr = (case agr_node_addr_opt agr of
      None \<Rightarrow> True
    | Some na \<Rightarrow> gossip_source \<in> set (socket_addrs_of_node_addr (node_addr_clone na)))"

definition identify_and_add_non_introductory_new_nodes ::
  "node_env \<Rightarrow> neighborhood_database \<Rightarrow> accessible_gossip_record list \<Rightarrow> socket_addr \<Rightarrow>
     user_exit_preferences option \<Rightarrow> (bool \<times> neighborhood_database) run" where
  "identify_and_add_non_introductory_new_nodes E database agrs gossip_source uep_opt =
     (let all_keys = keys database
      in do {
        database' \<leftarrow> iter_each
          (\<lambda>agr db. (case add_node (apply_exit_preferences uep_opt (node_record_of_agr_ref E agr)) db of
               (Inl _, _) \<Rightarrow> panic
             | (Inr _, db') \<Rightarrow> ret db'))
          (filter (non_introductory gossip_source)
            (filter (\<lambda>agr. nri_public_key (agr_inner agr) |\<notin>| all_keys) agrs))
          database;
        ret (fcard (keys database') \<noteq> fcard all_keys, database') })"

definition update_database_record ::
  "node_env \<Rightarrow> neighborhood_database \<Rightarrow> accessible_gossip_record \<Rightarrow> (bool \<times> neighborhood_database) run" where
  "update_database_record E database agr = do {
     existing_node_record \<leftarrow> node_by_key database (nri_public_key (agr_inner agr));
     (case update_node_record E agr existing_node_record of
        (Inr _, updated) \<Rightarrow> ret (True, put_node (nri_public_key (agr_inner agr)) updated database)
      | (Inl _, _) \<Rightarrow> ret (False, database)) }"

fun identify_and_update_obsolete_nodes ::
  "node_env \<Rightarrow> neighborhood_database \<Rightarrow> accessible_gossip_record list \<Rightarrow> bool \<Rightarrow>
     (bool \<times> neighborhood_database) run" where
  "identify_and_update_obsolete_nodes E database [] b = ret (b, database)"
| "identify_and_update_obsolete_nodes E database (agr # agrs) b =
     (case node_by_key database (nri_public_key (agr_inner agr)) of
        Some existing_node \<Rightarrow>
          if nri_version (agr_inner agr) > version existing_node then do {
            (updated, database') \<leftarrow> update_database_record E database agr;
            identify_and_update_obsolete_nodes E database' agrs (updated \<or> b) }
          else identify_and_update_obsolete_nodes E database agrs b
      | None \<Rightarrow> identify_and_update_obsolete_nodes E database agrs b)"

definition add_src_node_as_half_neighbor ::
  "node_env \<Rightarrow> neighborhood_database \<Rightarrow> socket_addr \<Rightarrow> (bool \<times> neighborhood_database) run" where
  "add_src_node_as_half_neighbor E database gossip_source = (case node_by_ip database (sa_ip gossip_source) of
      None \<Rightarrow> ret (False, database)
    | Some gossip_node \<Rightarrow> do {
        r \<leftarrow> root database;
        if fcard (full_neighbor_keys r database) \<ge> MAX_DEGREE then ret (False, database)
        else (case add_half_neighbor E (public_key gossip_node) database of
            (Inr True, database1) \<Rightarrow> do { database2 \<leftarrow> root_new_version E database1; ret (True, database2) }
          | (_, database1) \<Rightarrow> ret (False, database1)) })"

definition check_full_neighbor :: "neighborhood_database \<Rightarrow> ip_addr \<Rightarrow> bool run" where
  "check_full_neighbor db gossip_source_ip = (case node_by_ip db gossip_source_ip of
      Some node \<Rightarrow> do { r \<leftarrow> root db; ret (db_has_full_neighbor db (public_key r) (public_key node)) }
    | None \<Rightarrow> ret False)"

definition standard_handle ::
  "node_env \<Rightarrow> neighborhood_database \<Rightarrow> accessible_gossip_record list \<Rightarrow> socket_addr \<Rightarrow>
     neighborhood_metadata \<Rightarrow>
     (gossip_acceptance_result \<times> connection_progress_message list \<times> neighborhood_database) run" where
  "standard_handle E database agrs gossip_source metadata = do {
     initial_neighborship_status \<leftarrow> check_full_neighbor database (sa_ip gossip_source);
     r \<leftarrow> root database;
     let filtered_agrs = filter_agrs_by_patch agrs (compute_patch agrs r (nmd_db_patch_size metadata))
     in do {
       (added, database1) \<leftarrow> identify_and_add_non_introductory_new_nodes E database filtered_agrs
         gossip_source (nmd_user_exit_preferences_opt metadata);
       (updated, database2) \<leftarrow> identify_and_update_obsolete_nodes E database1 filtered_agrs False;
       (src_added, database3) \<leftarrow> add_src_node_as_half_neighbor E database2 gossip_source;
       final_neighborship_status \<leftarrow> check_full_neighbor database3 (sa_ip gossip_source);
       if src_added \<or> updated \<or> added then
         ret (Accepted,
           if \<not> initial_neighborship_status \<and> final_neighborship_status
           then [\<lparr>cpm_peer_addr = sa_ip gossip_source, cpm_event = StandardGossipReceived\<rparr>] else [],
           database3)
       else ret (Ignored, [], database3) } }"

section \<open>The acceptor\<close>

definition reject_qualifies :: "accessible_gossip_record list \<Rightarrow> qualification" where
  "reject_qualifies agrs = Malformed (Unclassifiable (length agrs))"

datatype gossip_handler = DebutHandler | PassHandler | IntroductionHandler | StandardGossipHandler | RejectHandler

definition gossip_handlers :: "gossip_handler list" where
  "gossip_handlers = [DebutHandler, PassHandler, IntroductionHandler, StandardGossipHandler, RejectHandler]"

fun handler_qualifies ::
  "gossip_handler \<Rightarrow> neighborhood_database \<Rightarrow> accessible_gossip_record list \<Rightarrow> socket_addr \<Rightarrow> qualification run" where
  "handler_qualifies DebutHandler database agrs gossip_source = ret (debut_qualifies database agrs gossip_source)"
| "handler_qualifies PassHandler database agrs gossip_source = ret (pass_qualifies agrs gossip_source)"
| "handler_qualifies IntroductionHandler database agrs gossip_source = introduction_qualifies database agrs gossip_source"
| "handler_qualifies StandardGossipHandler database agrs gossip_source = standard_qualifies database agrs gossip_source"
| "handler_qualifies RejectHandler database agrs gossip_source = ret (reject_qualifies agrs)"

fun handler_handle ::
  "gossip_handler \<Rightarrow> node_env \<Rightarrow> neighborhood_database \<Rightarrow> accessible_gossip_record list \<Rightarrow> socket_addr \<Rightarrow>
     neighborhood_metadata \<Rightarrow> pass_targets \<Rightarrow>
     (gossip_acceptance_result \<times> connection_progress_message list \<times> pass_targets \<times> neighborhood_database) run" where
  "handler_handle DebutHandler E database agrs gossip_source metadata targets = do {
     (result, database') \<leftarrow> debut_handle E database agrs gossip_source metadata;
     ret (result, [], targets, database') }"
| "handler_handle PassHandler E database agrs gossip_source metadata targets = do {
     (result, cpms, targets') \<leftarrow> pass_handle E database agrs gossip_source metadata targets;
     ret (result, cpms, targets', database) }"
| "handler_handle IntroductionHandler E database agrs gossip_source metadata targets = do {
     (result, cpms, database') \<leftarrow> introduction_handle E database agrs gossip_source metadata;
     ret (result, cpms, targets, database') }"
| "handler_handle StandardGossipHandler E database agrs gossip_source metadata targets = do {
     (result, cpms, database') \<leftarrow> standard_handle E database agrs gossip_source metadata;
     ret (result, cpms, targets, database') }"
| "handler_handle RejectHandler E database agrs gossip_source metadata targets = panic"

fun find_handler ::
  "gossip_handler list \<Rightarrow> neighborhood_database \<Rightarrow> accessible_gossip_record list \<Rightarrow> socket_addr \<Rightarrow>
     (qualification \<times> gossip_handler) run" where
  "find_handler [] database agrs gossip_source = panic"
| "find_handler (h # hs) database agrs gossip_source = do {
     q \<leftarrow> handler_qualifies h database agrs gossip_source;
     if q = Unmatched then find_handler hs database agrs gossip_source else ret (q, h) }"

definition acceptor_handle ::
  "node_env \<Rightarrow> neighborhood_database \<Rightarrow> accessible_gossip_record list \<Rightarrow> socket_addr \<Rightarrow>
     neighborhood_metadata \<Rightarrow> pass_targets \<Rightarrow>
     (gossip_acceptance_result \<times> connection_progress_message list \<times> pass_targets \<times> neighborhood_database) run" where
  "acceptor_handle E database agrs gossip_source metadata targets = do {
     (q, handler) \<leftarrow> find_handler gossip_handlers database agrs gossip_source;
     (case q of
        Matched \<Rightarrow> handler_handle handler E database agrs gossip_source metadata targets
      | Unmatched \<Rightarrow> panic
      | Malformed reason \<Rightarrow> ret (Ban reason, [], targets, database)) }"

end
