(* ===== verification/Routing.thy ===== *)
theory Routing
  imports Gossip_Acceptor
begin

text \<open>
  Finding routes: the routing engine of \<^verbatim>\<open>node/src/neighborhood/mod.rs\<close>, a depth-first search over
  full neighbors that prices every hop and prunes what is already more expensive than the best route
  found. \<open>i64\<close> arithmetic wraps, as in a release build. The arguments that the recursion hands down
  unchanged are one record; the two \<open>&mut\<close> arguments, the minimum so far and the exits found, are its
  state.
\<close>

section \<open>Definitions\<close>

datatype route_direction = Over | Back

datatype undesirability_type =
    Relay
  | ExitRequest "string option"
  | ExitAndRouteResponse

record computed_route_segment =
  crs_nodes :: "public_key list"
  crs_undesirability :: int

definition UNREACHABLE_HOST_PENALTY :: int where
  "UNREACHABLE_HOST_PENALTY = 100000000"

record routing_args =
  ra_env :: node_env
  ra_db :: neighborhood_database
  ra_preferences :: user_exit_preferences
  ra_target_opt :: "public_key option"
  ra_payload_size :: u64
  ra_direction :: route_direction
  ra_hostname_opt :: "string option"
  ra_research :: bool

definition route_length_qualifies :: "nat \<Rightarrow> bool" where
  "route_length_qualifies hops_remaining \<longleftrightarrow> hops_remaining = 0"

definition last_key_qualifies :: "node_record \<Rightarrow> public_key option \<Rightarrow> bool" where
  "last_key_qualifies last_node target_key_opt = (case target_key_opt of
      Some target_key \<Rightarrow> public_key last_node = target_key
    | None \<Rightarrow> True)"

definition validate_last_node_not_too_close_to_first_node ::
  "neighborhood_database \<Rightarrow> nat \<Rightarrow> public_key \<Rightarrow> public_key \<Rightarrow> bool" where
  "validate_last_node_not_too_close_to_first_node db prefix_len first_node_key candidate_node_key \<longleftrightarrow>
     (if prefix_len \<le> 2 then True else \<not> db_has_half_neighbor db candidate_node_key first_node_key)"

definition validate_country_code_when_fallback_routing ::
  "neighborhood_database \<Rightarrow> user_exit_preferences \<Rightarrow> public_key \<Rightarrow> bool" where
  "validate_country_code_when_fallback_routing db uep last_node =
     (let last_cc = (case node_by_key db last_node of
            Some nr \<Rightarrow> (case nri_country_code_opt (nr_inner nr) of Some cc \<Rightarrow> cc | None \<Rightarrow> ''ZZ'')
          | None \<Rightarrow> ''ZZ'')
      in if last_cc \<in> set (uep_exit_countries uep) then True
         else if uep_exit_countries uep = [] then True
         else \<not> (\<exists>country \<in> set (uep_exit_countries uep).
           country \<in> set (uep_db_countries uep) \<and> country \<noteq> last_cc))"

definition is_fallback_and_last_node_qualifies ::
  "neighborhood_database \<Rightarrow> user_exit_preferences \<Rightarrow> public_key \<Rightarrow> bool" where
  "is_fallback_and_last_node_qualifies db uep last_node_key \<longleftrightarrow>
     uep_fallback_preference uep = ExitCountryWithFallback \<and>
     validate_country_code_when_fallback_routing db uep last_node_key"

definition last_node_is_always_true ::
  "neighborhood_database \<Rightarrow> user_exit_preferences \<Rightarrow> public_key \<Rightarrow> bool \<Rightarrow> route_direction \<Rightarrow> bool" where
  "last_node_is_always_true db uep last_node_key research_neighborhood direction \<longleftrightarrow>
     uep_fallback_preference uep = FallbackNothing \<or>
     is_fallback_and_last_node_qualifies db uep last_node_key \<or>
     research_neighborhood \<or> direction = Back"

definition validate_last_node_country_code ::
  "neighborhood_database \<Rightarrow> user_exit_preferences \<Rightarrow> public_key \<Rightarrow> bool \<Rightarrow> route_direction \<Rightarrow> bool" where
  "validate_last_node_country_code db uep last_node_key research_neighborhood direction \<longleftrightarrow>
     (if last_node_is_always_true db uep last_node_key research_neighborhood direction then True
      else case node_by_key db last_node_key of
          None \<Rightarrow> False
        | Some r \<Rightarrow> (case nri_country_code_opt (nr_inner r) of
            None \<Rightarrow> False
          | Some country_code \<Rightarrow> country_code \<in> set (uep_exit_countries uep)))"

fun compute_undesirability :: "node_record \<Rightarrow> u64 \<Rightarrow> undesirability_type \<Rightarrow> int" where
  "compute_undesirability r payload_size Relay = sint (routing_charge (rate_pack_of r) payload_size)"
| "compute_undesirability r payload_size (ExitRequest None) =
     wrap_i64 (sint (exit_charge (rate_pack_of r) payload_size) + uint (nrm_country_undesirability (nr_metadata r)))"
| "compute_undesirability r payload_size (ExitRequest (Some hostname)) =
     (let exit_undesirability = sint (exit_charge (rate_pack_of r) payload_size);
          country_undesirability = uint (nrm_country_undesirability (nr_metadata r));
          unreachable_host_undesirability =
            (if hostname |\<in>| nrm_unreachable_hosts (nr_metadata r) then UNREACHABLE_HOST_PENALTY else 0)
      in wrap_i64 (wrap_i64 (exit_undesirability + unreachable_host_undesirability) + country_undesirability))"
| "compute_undesirability r payload_size ExitAndRouteResponse =
     wrap_i64 (sint (exit_charge (rate_pack_of r) payload_size) + sint (routing_charge (rate_pack_of r) payload_size))"

definition is_orig_node_on_back_leg :: "node_record \<Rightarrow> public_key option \<Rightarrow> route_direction \<Rightarrow> bool" where
  "is_orig_node_on_back_leg node target_key_opt direction = (case direction of
      Over \<Rightarrow> False
    | Back \<Rightarrow> (case target_key_opt of
        None \<Rightarrow> False
      | Some target_key \<Rightarrow> public_key node = target_key))"

definition compute_initial_undesirability ::
  "neighborhood_database \<Rightarrow> public_key \<Rightarrow> u64 \<Rightarrow> route_direction \<Rightarrow> int run" where
  "compute_initial_undesirability db k payload_size direction =
     (if direction = Over then ret 0
      else do {
        r \<leftarrow> node_by_key db k;
        ret (compute_undesirability r payload_size ExitAndRouteResponse) })"

definition compute_new_undesirability ::
  "node_record \<Rightarrow> int \<Rightarrow> public_key option \<Rightarrow> nat \<Rightarrow> u64 \<Rightarrow> route_direction \<Rightarrow> string option \<Rightarrow> int" where
  "compute_new_undesirability r undesirability target_opt hops_remaining payload_size direction hostname_opt =
     (let undesirability_type = (case (direction, target_opt) of
            (Over, None) \<Rightarrow> if hops_remaining = 0 then ExitRequest hostname_opt else Relay
          | _ \<Rightarrow> Relay)
      in wrap_i64 (undesirability + compute_undesirability r payload_size undesirability_type))"

text \<open>The records that the search goes on to from a prefix.\<close>

definition next_nodes :: "routing_args \<Rightarrow> public_key list \<Rightarrow> node_record list \<Rightarrow> node_record list" where
  "next_nodes A prefix neighbors =
     filter (\<lambda>r. routes_data r \<or> is_orig_node_on_back_leg r (ra_target_opt A) (ra_direction A))
       (filter (\<lambda>r. public_key r \<notin> set prefix) neighbors)"

text \<open>Whether the search is done with a prefix (the route is complete), or gives up on it.\<close>

definition position_qualifies :: "routing_args \<Rightarrow> public_key list \<Rightarrow> nat \<Rightarrow> node_record \<Rightarrow> bool" where
  "position_qualifies A prefix hops_remaining previous_node \<longleftrightarrow>
     route_length_qualifies hops_remaining \<and> last_key_qualifies previous_node (ra_target_opt A) \<and>
     validate_last_node_not_too_close_to_first_node (ra_db A) (length prefix) (hd prefix) (public_key previous_node)"

definition gives_up :: "routing_args \<Rightarrow> nat \<Rightarrow> bool" where
  "gives_up A hops_remaining \<longleftrightarrow> hops_remaining = 0 \<and> ra_target_opt A = None \<and> \<not> ra_research A \<and>
     (uep_fallback_preference (ra_preferences A) = FallbackNothing \<or> uep_exit_countries (ra_preferences A) = [])"

type_synonym search_state = "int \<times> public_key list"

lemma those_SomeD: "those (map f xs) = Some ys \<Longrightarrow> y \<in> set ys \<Longrightarrow> \<exists>x \<in> set xs. f x = Some y"
  by (induction xs arbitrary: ys) (auto split: option.splits)

definition unused_keys :: "routing_args \<Rightarrow> public_key list \<Rightarrow> public_key set" where
  "unused_keys A prefix = {public_key r |r. \<exists>k. node_by_key (ra_db A) k = Some r} - set prefix"

lemma finite_unused_keys [simp]: "finite (unused_keys A prefix)"
proof -
  have "{public_key r |r. \<exists>k. node_by_key (ra_db A) k = Some r} = public_key ` fset (fmran (ndb_by_public_key (ra_db A)))"
    by (auto simp: node_by_key_def fmlookup_ran_iff image_iff intro: fmranI)
  then show ?thesis by (simp add: unused_keys_def)
qed

lemma unused_keys_decrease:
  assumes "full_neighbors E r (ra_db A) = Some ns" and "n \<in> set (next_nodes A prefix ns)"
  shows "card (unused_keys A (prefix @ [public_key n])) < card (unused_keys A prefix)"
proof (rule psubset_card_mono)
  from assms have n: "n \<in> set ns" "public_key n \<notin> set prefix" by (auto simp: next_nodes_def simp del: node_record_defs)
  from those_SomeD [OF assms(1) [unfolded full_neighbors_def] n(1)]
  have "public_key n \<in> unused_keys A prefix" using n(2) by (auto simp: unused_keys_def simp del: node_record_defs)
  moreover have "public_key n \<notin> unused_keys A (prefix @ [public_key n])" by (simp add: unused_keys_def)
  moreover have "unused_keys A (prefix @ [public_key n]) \<subseteq> unused_keys A prefix" by (auto simp: unused_keys_def)
  ultimately show "unused_keys A (prefix @ [public_key n]) \<subset> unused_keys A prefix" by blast
qed simp

function (sequential) routing_engine ::
    "routing_args \<Rightarrow> public_key list \<Rightarrow> int \<Rightarrow> nat \<Rightarrow> search_state \<Rightarrow>
       (computed_route_segment list \<times> search_state) run"
  and routing_guts ::
    "routing_args \<Rightarrow> public_key list \<Rightarrow> int \<Rightarrow> nat \<Rightarrow> node_record \<Rightarrow> search_state \<Rightarrow>
       (computed_route_segment list \<times> search_state) run" where
  "routing_engine A prefix undesirability hops_remaining (minimum_undesirability, research_exits) =
     (if undesirability > minimum_undesirability \<and> \<not> ra_research A
      then ret ([], minimum_undesirability, research_exits)
      else if prefix = [] then panic
      else do {
        previous_node \<leftarrow> node_by_key (ra_db A) (last prefix);
        if position_qualifies A prefix hops_remaining previous_node then
          if \<not> ra_research A \<and> validate_last_node_country_code (ra_db A) (ra_preferences A)
               (public_key previous_node) (ra_research A) (ra_direction A) then
            ret ([\<lparr>crs_nodes = prefix, crs_undesirability = undesirability\<rparr>],
              if undesirability < minimum_undesirability then undesirability else minimum_undesirability,
              research_exits)
          else if ra_research A \<and> last prefix \<in> set research_exits then
            ret ([], minimum_undesirability, research_exits)
          else
            routing_guts A prefix undesirability hops_remaining previous_node
              (minimum_undesirability, if ra_research A then research_exits @ [last prefix] else research_exits)
        else if gives_up A hops_remaining then ret ([], minimum_undesirability, research_exits)
        else routing_guts A prefix undesirability hops_remaining previous_node
               (minimum_undesirability, research_exits) })"
| "routing_guts A prefix undesirability hops_remaining previous_node state = do {
     neighbors \<leftarrow> full_neighbors (ra_env A) previous_node (ra_db A);
     iter_flat_map (\<lambda>r state.
       let new_hops_remaining = hops_remaining - 1
       in routing_engine A (prefix @ [public_key r])
            (compute_new_undesirability r undesirability (ra_target_opt A) new_hops_remaining
               (ra_payload_size A) (ra_direction A) (ra_hostname_opt A))
            new_hops_remaining state)
       (next_nodes A prefix neighbors) state }"
  by pat_completeness auto

termination
proof (relation "measure (\<lambda>x. case x of
      Inl (A, prefix, _) \<Rightarrow> Suc (2 * card (unused_keys A prefix))
    | Inr (A, prefix, _) \<Rightarrow> 2 * card (unused_keys A prefix))", goal_cases)
  case 1
  then show ?case by simp
next
  case 2
  then show ?case by simp
next
  case 3
  then show ?case by simp
next
  case (4 A prefix u h previous_node state ns r st hr)
  from unused_keys_decrease [OF 4(1,2)] show ?case by simp
qed

definition find_best_route_segment ::
  "node_env \<Rightarrow> neighborhood_database \<Rightarrow> user_exit_preferences \<Rightarrow> public_key \<Rightarrow> public_key option \<Rightarrow> nat \<Rightarrow> u64 \<Rightarrow>
     route_direction \<Rightarrow> string option \<Rightarrow> public_key list option run" where
  "find_best_route_segment E db uep source target_opt minimum_hops payload_size direction hostname_opt = do {
     initial_undesirability \<leftarrow> compute_initial_undesirability db source payload_size direction;
     (segments, minimum_undesirability, _) \<leftarrow> routing_engine
       \<lparr>ra_env = E, ra_db = db, ra_preferences = uep, ra_target_opt = target_opt, ra_payload_size = payload_size,
        ra_direction = direction, ra_hostname_opt = hostname_opt, ra_research = False\<rparr>
       [source] initial_undesirability minimum_hops (i64_max, []);
     ret (map_option crs_nodes (find (\<lambda>cr. crs_undesirability cr \<le> minimum_undesirability) segments)) }"

definition PAYLOAD_ZERO_SIZE :: u64 where
  "PAYLOAD_ZERO_SIZE = 0"

definition find_exit_locations ::
  "node_env \<Rightarrow> neighborhood_database \<Rightarrow> user_exit_preferences \<Rightarrow> public_key \<Rightarrow> nat \<Rightarrow> public_key list run" where
  "find_exit_locations E db uep source minimum_hops = do {
     (_, _, research_exits) \<leftarrow> routing_engine
       \<lparr>ra_env = E, ra_db = db, ra_preferences = uep, ra_target_opt = None, ra_payload_size = PAYLOAD_ZERO_SIZE,
        ra_direction = Over, ra_hostname_opt = None, ra_research = True\<rparr>
       [source] 0 minimum_hops (i64_max, []);
     ret research_exits }"

end
