(* ===== verification/Connection_Status.thy ===== *)
theory Connection_Status
  imports Neighborhood_Types
begin

text \<open>
  How far the Node has got in connecting to the network:
  \<^verbatim>\<open>node/src/neighborhood/overall_connection_status.rs\<close>. One \<open>connection_progress\<close> follows each
  descriptor of the \<^verbatim>\<open>--neighbors\<close> parameter through the stages of its connection; the overall stage
  is what the user interface is told. A \<open>&mut\<close> reference into the vector of progresses is
  the index it refers to.
\<close>

section \<open>Definitions\<close>

datatype connection_stage_errors = TcpConnectionFailed | NoGossipResponseReceived | PassLoopFound

datatype connection_stage =
    StageZero
  | TcpConnectionEstablished
  | NeighborshipEstablished
  | Failed connection_stage_errors

fun stage_number :: "connection_stage \<Rightarrow> unit + nat" where
  "stage_number StageZero = Inr 0"
| "stage_number TcpConnectionEstablished = Inr 1"
| "stage_number NeighborshipEstablished = Inr 2"
| "stage_number (Failed _) = Inl ()"

record connection_progress =
  cp_initial_node_descriptor :: node_descriptor
  cp_current_peer_addr :: ip_addr
  cp_connection_stage :: connection_stage

definition connection_progress_new :: "node_descriptor \<Rightarrow> connection_progress run" where
  "connection_progress_new nd = do {
     na \<leftarrow> nd_node_addr_opt nd;
     ret \<lparr>cp_initial_node_descriptor = nd, cp_current_peer_addr = na_ip_addr na,
       cp_connection_stage = StageZero\<rparr> }"

definition update_stage :: "connection_stage \<Rightarrow> connection_progress \<Rightarrow> connection_progress run" where
  "update_stage new_stage cp =
     (case (stage_number (cp_connection_stage cp), stage_number new_stage) of
        (Inr current_stage_num, Inr new_stage_num) \<Rightarrow>
          if new_stage_num \<noteq> current_stage_num + 1 then panic
          else ret (cp\<lparr>cp_connection_stage := new_stage\<rparr>)
      | _ \<Rightarrow> ret (cp\<lparr>cp_connection_stage := new_stage\<rparr>))"

definition handle_pass_gossip :: "ip_addr \<Rightarrow> connection_progress \<Rightarrow> connection_progress run" where
  "handle_pass_gossip new_pass_target cp =
     (case cp_connection_stage cp of
        StageZero \<Rightarrow> ret (cp\<lparr>cp_connection_stage := StageZero, cp_current_peer_addr := new_pass_target\<rparr>)
      | TcpConnectionEstablished \<Rightarrow>
          ret (cp\<lparr>cp_connection_stage := StageZero, cp_current_peer_addr := new_pass_target\<rparr>)
      | _ \<Rightarrow> panic)"

datatype overall_connection_stage = NotConnected | ConnectedToNeighbor | RouteFound

datatype ui_connection_stage = UiNotConnected | UiConnectedToNeighbor | UiRouteFound

fun ui_stage :: "overall_connection_stage \<Rightarrow> ui_connection_stage" where
  "ui_stage NotConnected = UiNotConnected"
| "ui_stage ConnectedToNeighbor = UiConnectedToNeighbor"
| "ui_stage RouteFound = UiRouteFound"

record overall_connection_status =
  ocs_stage :: overall_connection_stage
  ocs_progress :: "connection_progress list"

definition ocs_new :: "node_descriptor list \<Rightarrow> overall_connection_status run" where
  "ocs_new initial_node_descriptors = do {
     progress \<leftarrow> those (map connection_progress_new initial_node_descriptors);
     ret \<lparr>ocs_stage = NotConnected, ocs_progress = progress\<rparr> }"

definition iter_initial_node_descriptors :: "overall_connection_status \<Rightarrow> node_descriptor list" where
  "iter_initial_node_descriptors ocs = map cp_initial_node_descriptor (ocs_progress ocs)"

text \<open>The position of the first element with a property, as \<open>Iterator::position\<close> finds it.\<close>

fun position :: "('a \<Rightarrow> bool) \<Rightarrow> 'a list \<Rightarrow> nat option" where
  "position P [] = None"
| "position P (x # xs) = (if P x then Some 0 else map_option Suc (position P xs))"

datatype progress_error =
    NoConnectionWithIpAddress ip_addr
  | NoConnectionWithDescriptor node_descriptor
  | PassTargetIsDuplicate ip_addr
  | NoPeerFound ip_addr

definition get_connection_progress_by_ip :: "overall_connection_status \<Rightarrow> ip_addr \<Rightarrow> progress_error + nat" where
  "get_connection_progress_by_ip ocs peer_addr =
     (case position (\<lambda>cp. cp_current_peer_addr cp = peer_addr) (ocs_progress ocs) of
        Some i \<Rightarrow> Inr i
      | None \<Rightarrow> Inl (NoConnectionWithIpAddress peer_addr))"

definition get_connection_progress_by_desc ::
  "overall_connection_status \<Rightarrow> node_descriptor \<Rightarrow> progress_error + nat" where
  "get_connection_progress_by_desc ocs nd =
     (case position (\<lambda>cp. cp_initial_node_descriptor cp = nd) (ocs_progress ocs) of
        Some i \<Rightarrow> Inr i
      | None \<Rightarrow> Inl (NoConnectionWithDescriptor nd))"

fun update_connection_stage ::
  "connection_progress_event \<Rightarrow> connection_progress \<Rightarrow> connection_progress run" where
  "update_connection_stage TcpConnectionSuccessful cp = update_stage TcpConnectionEstablished cp"
| "update_connection_stage TcpConnectionFailedEvent cp = update_stage (Failed TcpConnectionFailed) cp"
| "update_connection_stage (IntroductionGossipReceived _) cp = update_stage NeighborshipEstablished cp"
| "update_connection_stage StandardGossipReceived cp = update_stage NeighborshipEstablished cp"
| "update_connection_stage (PassGossipReceived new_pass_target) cp = handle_pass_gossip new_pass_target cp"
| "update_connection_stage PassLoopFoundEvent cp = update_stage (Failed PassLoopFound) cp"
| "update_connection_stage NoGossipResponseReceivedEvent cp = update_stage (Failed NoGossipResponseReceived) cp"

definition get_peer_addrs :: "overall_connection_status \<Rightarrow> ip_addr list" where
  "get_peer_addrs ocs = map cp_current_peer_addr (ocs_progress ocs)"

definition get_connection_progress_to_modify ::
  "overall_connection_status \<Rightarrow> connection_progress_message \<Rightarrow> progress_error + nat" where
  "get_connection_progress_to_modify ocs msg =
     (let found = (case get_connection_progress_by_ip ocs (cpm_peer_addr msg) of
                     Inr i \<Rightarrow> Inr i
                   | Inl _ \<Rightarrow> Inl (NoPeerFound (cpm_peer_addr msg)))
      in case cpm_event msg of
          PassGossipReceived pass_target \<Rightarrow>
            if pass_target \<in> set (get_peer_addrs ocs) then Inl (PassTargetIsDuplicate pass_target) else found
        | _ \<Rightarrow> found)"

definition update_ocs_stage_and_send_message_to_ui ::
  "overall_connection_stage \<Rightarrow> overall_connection_status \<Rightarrow> overall_connection_status \<times> ui_connection_stage list" where
  "update_ocs_stage_and_send_message_to_ui new_stage ocs =
     (if new_stage \<noteq> ocs_stage ocs then (ocs\<lparr>ocs_stage := new_stage\<rparr>, [ui_stage new_stage]) else (ocs, []))"

definition ocs_is_empty :: "overall_connection_status \<Rightarrow> bool" where
  "ocs_is_empty ocs \<longleftrightarrow> ocs_progress ocs = []"

definition ocs_remove :: "nat \<Rightarrow> overall_connection_status \<Rightarrow> (node_descriptor \<times> overall_connection_status) run" where
  "ocs_remove index ocs =
     (if index < length (ocs_progress ocs)
      then ret (cp_initial_node_descriptor (ocs_progress ocs ! index),
             ocs\<lparr>ocs_progress := take index (ocs_progress ocs) @ drop (Suc index) (ocs_progress ocs)\<rparr>)
      else panic)"

definition can_make_routes :: "overall_connection_status \<Rightarrow> bool" where
  "can_make_routes ocs \<longleftrightarrow> ocs_stage ocs = RouteFound"

text \<open>Writing through the reference: the progress at an index is replaced.\<close>

definition modify_progress ::
  "(connection_progress \<Rightarrow> connection_progress run) \<Rightarrow> nat \<Rightarrow> overall_connection_status \<Rightarrow>
     overall_connection_status run" where
  "modify_progress f i ocs = do {
     cp \<leftarrow> f (ocs_progress ocs ! i);
     ret (ocs\<lparr>ocs_progress := (ocs_progress ocs)[i := cp]\<rparr>) }"

section \<open>The state machine of one connection\<close>

text \<open>
  The transitions that the diagram of stages allows, as a relation: one stage up, a failure from
  anywhere, a fresh start after a failure at any stage, and a pass from the first two stages, which
  starts again with another peer.
\<close>

inductive stage_step :: "connection_stage \<Rightarrow> connection_progress_event \<Rightarrow> connection_stage \<Rightarrow> bool" where
  connected: "s = StageZero \<or> s = Failed e \<Longrightarrow> stage_step s TcpConnectionSuccessful TcpConnectionEstablished"
| refused: "stage_step s TcpConnectionFailedEvent (Failed TcpConnectionFailed)"
| introduced: "s = TcpConnectionEstablished \<or> s = Failed e \<Longrightarrow>
    stage_step s (IntroductionGossipReceived ip) NeighborshipEstablished"
| standard: "s = TcpConnectionEstablished \<or> s = Failed e \<Longrightarrow>
    stage_step s StandardGossipReceived NeighborshipEstablished"
| passed: "s = StageZero \<or> s = TcpConnectionEstablished \<Longrightarrow> stage_step s (PassGossipReceived ip) StageZero"
| looped: "stage_step s PassLoopFoundEvent (Failed PassLoopFound)"
| silent: "stage_step s NoGossipResponseReceivedEvent (Failed NoGossipResponseReceived)"

inductive_simps stage_step_simps [simp]:
  "stage_step s TcpConnectionSuccessful t"
  "stage_step s TcpConnectionFailedEvent t"
  "stage_step s (IntroductionGossipReceived ip) t"
  "stage_step s StandardGossipReceived t"
  "stage_step s (PassGossipReceived ip) t"
  "stage_step s PassLoopFoundEvent t"
  "stage_step s NoGossipResponseReceivedEvent t"

lemma stage_step_total_or_panic:
  "update_connection_stage ev cp = None \<longleftrightarrow> (\<nexists>t. stage_step (cp_connection_stage cp) ev t)"
  by (cases ev; cases "cp_connection_stage cp") (auto simp: update_stage_def handle_pass_gossip_def)

lemma update_connection_stage_step:
  "update_connection_stage ev cp = Some cp' \<Longrightarrow>
   stage_step (cp_connection_stage cp) ev (cp_connection_stage cp') \<and>
   cp_initial_node_descriptor cp' = cp_initial_node_descriptor cp \<and>
   cp_current_peer_addr cp' = (case ev of PassGossipReceived ip \<Rightarrow> ip | _ \<Rightarrow> cp_current_peer_addr cp)"
  by (cases ev; cases "cp_connection_stage cp")
    (auto simp: update_stage_def handle_pass_gossip_def split: if_splits)

lemma stage_step_unique: "stage_step s ev t \<Longrightarrow> stage_step s ev t' \<Longrightarrow> t = t'"
  by (cases ev) auto

lemma update_connection_stage_complete:
  assumes "stage_step (cp_connection_stage cp) ev t"
  shows "\<exists>cp'. update_connection_stage ev cp = Some cp' \<and> cp_connection_stage cp' = t"
proof -
  from assms obtain cp' where "update_connection_stage ev cp = Some cp'"
    using stage_step_total_or_panic by blast
  then show ?thesis using update_connection_stage_step stage_step_unique [OF assms] by blast
qed

text \<open>
  C15. The code implements exactly the diagram of stages: an event moves a connection from one stage
  to the next if and only if the diagram has that transition, the code panics if and only if it has
  none, the descriptor stays, and only a pass changes the peer that the connection is about.
\<close>

theorem update_connection_stage_refines:
  "((\<exists>cp'. update_connection_stage ev cp = Some cp' \<and> cp_connection_stage cp' = t) \<longleftrightarrow>
     stage_step (cp_connection_stage cp) ev t) \<and>
   (update_connection_stage ev cp = None \<longleftrightarrow> (\<nexists>t. stage_step (cp_connection_stage cp) ev t)) \<and>
   (case update_connection_stage ev cp of
      None \<Rightarrow> True
    | Some cp' \<Rightarrow> cp_initial_node_descriptor cp' = cp_initial_node_descriptor cp \<and>
        cp_current_peer_addr cp' = (case ev of PassGossipReceived ip \<Rightarrow> ip | _ \<Rightarrow> cp_current_peer_addr cp))"
proof -
  have "(\<exists>cp'. update_connection_stage ev cp = Some cp' \<and> cp_connection_stage cp' = t) \<longleftrightarrow>
     stage_step (cp_connection_stage cp) ev t"
    using update_connection_stage_step update_connection_stage_complete by blast
  moreover have "case update_connection_stage ev cp of
      None \<Rightarrow> True
    | Some cp' \<Rightarrow> cp_initial_node_descriptor cp' = cp_initial_node_descriptor cp \<and>
        cp_current_peer_addr cp' = (case ev of PassGossipReceived ip \<Rightarrow> ip | _ \<Rightarrow> cp_current_peer_addr cp)"
    by (cases "update_connection_stage ev cp") (simp_all add: update_connection_stage_step)
  ultimately show ?thesis using stage_step_total_or_panic by blast
qed

section \<open>No two connections about the same peer\<close>

lemma position_Some:
  "position P xs = Some i \<Longrightarrow> i < length xs \<and> P (xs ! i) \<and> (\<forall>j<i. \<not> P (xs ! j))"
  by (induction xs arbitrary: i) (auto simp: nth_Cons split: if_splits nat.splits)

lemma position_None: "position P xs = None \<longleftrightarrow> (\<forall>x\<in>set xs. \<not> P x)"
  by (induction xs) auto

lemma get_connection_progress_by_ip_Inr:
  "get_connection_progress_by_ip ocs ip = Inr i \<Longrightarrow>
   i < length (ocs_progress ocs) \<and> cp_current_peer_addr (ocs_progress ocs ! i) = ip"
  by (auto simp: get_connection_progress_by_ip_def dest: position_Some split: option.splits)

lemma get_connection_progress_by_desc_Inr:
  "get_connection_progress_by_desc ocs nd = Inr i \<Longrightarrow>
   i < length (ocs_progress ocs) \<and> cp_initial_node_descriptor (ocs_progress ocs ! i) = nd"
  by (auto simp: get_connection_progress_by_desc_def dest: position_Some split: option.splits)

lemma get_connection_progress_to_modify_Inr:
  "get_connection_progress_to_modify ocs msg = Inr i \<Longrightarrow>
   i < length (ocs_progress ocs) \<and> cp_current_peer_addr (ocs_progress ocs ! i) = cpm_peer_addr msg \<and>
   (\<forall>ip. cpm_event msg = PassGossipReceived ip \<longrightarrow> ip \<notin> set (get_peer_addrs ocs))"
  by (auto simp: get_connection_progress_to_modify_def Let_def dest: get_connection_progress_by_ip_Inr
      split: sum.splits connection_progress_event.splits if_splits)

text \<open>What the connections are about: distinct peers, for descriptors of the \<^verbatim>\<open>--neighbors\<close> parameter.\<close>

definition peers_distinct :: "overall_connection_status \<Rightarrow> bool" where
  "peers_distinct ocs \<longleftrightarrow> distinct (get_peer_addrs ocs)"

lemma peers_distinct_update:
  assumes "peers_distinct ocs" and "i < length (ocs_progress ocs)"
    and "cp_current_peer_addr cp = cp_current_peer_addr (ocs_progress ocs ! i) \<or>
      cp_current_peer_addr cp \<notin> set (get_peer_addrs ocs)"
  shows "peers_distinct (ocs\<lparr>ocs_progress := (ocs_progress ocs)[i := cp]\<rparr>)"
proof -
  have "get_peer_addrs (ocs\<lparr>ocs_progress := (ocs_progress ocs)[i := cp]\<rparr>) =
      (get_peer_addrs ocs)[i := cp_current_peer_addr cp]"
    by (simp add: get_peer_addrs_def map_update)
  moreover have "(get_peer_addrs ocs)[i := cp_current_peer_addr (ocs_progress ocs ! i)] = get_peer_addrs ocs"
    using assms(2) by (simp add: get_peer_addrs_def flip: map_update)
  ultimately show ?thesis
    using assms(1,3) distinct_list_update [of "get_peer_addrs ocs" "cp_current_peer_addr cp" i]
    unfolding peers_distinct_def by auto
qed

lemma modify_progress_peers:
  assumes "modify_progress (update_connection_stage ev) i ocs = Some ocs'" and "peers_distinct ocs"
    and "i < length (ocs_progress ocs)"
    and "\<And>ip. ev = PassGossipReceived ip \<Longrightarrow> ip \<notin> set (get_peer_addrs ocs)"
  shows "peers_distinct ocs'"
proof -
  from assms(1) obtain cp where cp: "update_connection_stage ev (ocs_progress ocs ! i) = Some cp"
    and ocs': "ocs' = ocs\<lparr>ocs_progress := (ocs_progress ocs)[i := cp]\<rparr>"
    by (auto simp: modify_progress_def split: bind_splits)
  from update_connection_stage_step [OF cp] assms(4)
  have "cp_current_peer_addr cp = cp_current_peer_addr (ocs_progress ocs ! i) \<or>
      cp_current_peer_addr cp \<notin> set (get_peer_addrs ocs)"
    by (auto split: connection_progress_event.splits)
  with assms(2,3) show ?thesis unfolding ocs' by (rule peers_distinct_update)
qed

lemma modify_progress_descriptors:
  assumes "modify_progress (update_connection_stage ev) i ocs = Some ocs'"
    and "i < length (ocs_progress ocs)"
  shows "iter_initial_node_descriptors ocs' = iter_initial_node_descriptors ocs \<and> ocs_stage ocs' = ocs_stage ocs"
proof -
  from assms(1) obtain cp where cp: "update_connection_stage ev (ocs_progress ocs ! i) = Some cp"
    and ocs': "ocs' = ocs\<lparr>ocs_progress := (ocs_progress ocs)[i := cp]\<rparr>"
    by (auto simp: modify_progress_def split: bind_splits)
  from update_connection_stage_step [OF cp] assms(2) show ?thesis
    by (simp add: ocs' iter_initial_node_descriptors_def map_update)
      (metis length_map list_update_id nth_map)
qed

lemma ocs_remove_peers:
  assumes "ocs_remove i ocs = Some (nd, ocs')" and "peers_distinct ocs"
  shows "peers_distinct ocs' \<and> ocs_stage ocs' = ocs_stage ocs \<and>
    iter_initial_node_descriptors ocs' =
      take i (iter_initial_node_descriptors ocs) @ drop (Suc i) (iter_initial_node_descriptors ocs)"
proof -
  let ?ps = "get_peer_addrs ocs"
  from assms(1) have ocs': "ocs' = ocs\<lparr>ocs_progress := take i (ocs_progress ocs) @ drop (Suc i) (ocs_progress ocs)\<rparr>"
    by (auto simp: ocs_remove_def split: if_splits)
  have "set (take i ?ps) \<inter> set (drop (Suc i) ?ps) = {}"
    using assms(2) set_take_disj_set_drop_if_distinct [of ?ps i "Suc i"] by (simp add: peers_distinct_def)
  moreover have "distinct (take i ?ps)" "distinct (drop (Suc i) ?ps)"
    using assms(2) by (simp_all add: peers_distinct_def)
  ultimately show ?thesis
    by (simp add: ocs' peers_distinct_def get_peer_addrs_def iter_initial_node_descriptors_def take_map drop_map)
qed

lemma update_ocs_stage_sel [simp]:
  "ocs_progress (fst (update_ocs_stage_and_send_message_to_ui st ocs)) = ocs_progress ocs"
  "ocs_stage (fst (update_ocs_stage_and_send_message_to_ui st ocs)) = st"
  by (simp_all add: update_ocs_stage_and_send_message_to_ui_def)

end
