(* ===== verification/Cryptde.thy ===== *)
theory Cryptde
  imports Node_Record
begin

text \<open>
  Encryption and payment proofs: the \<open>CryptDE\<close> interface and \<open>encodex\<close>/\<open>decodex\<close> of
  \<^verbatim>\<open>node/src/sub_lib/cryptde.rs\<close>, its implementation \<open>CryptDENull\<close> of \<^verbatim>\<open>cryptde_null.rs\<close>, the
  wallets of \<^verbatim>\<open>wallet.rs\<close> and the \<open>Payer\<close> of \<^verbatim>\<open>node/src/blockchain/payer.rs\<close>.
  A \<open>CryptDE\<close> object is a record of the operations that routing calls; CBOR serialisation of a
  type is a pair of functions, and what the wallets take from \<^verbatim>\<open>ethsign\<close> is a record of functions.
\<close>

section \<open>CryptDE objects\<close>

datatype cryptdec_error =
    EmptyKey
  | EmptyData
  | InvalidKey string
  | InvalidSignature string
  | OpeningFailed
  | OtherError string

datatype route_error = HopDecodeProblem string | EmptyRoute | TooFewKeysInRouteSegment | DisjointRouteSegments

datatype codex_error =
    SerializationError
  | DeserializationError
  | EncryptionError cryptdec_error
  | DecryptionError cryptdec_error
  | RoutingError route_error

record cryptde =
  cd_public_key :: public_key
  cd_encode :: "public_key \<Rightarrow> bytes \<Rightarrow> cryptdec_error + bytes"
  cd_decode :: "bytes \<Rightarrow> (cryptdec_error + bytes) run"
  cd_random :: "nat \<Rightarrow> bytes"

record 'a codec =
  to_vec :: "'a \<Rightarrow> bytes option"
  from_slice :: "bytes \<Rightarrow> 'a option"

definition encodex :: "'a codec \<Rightarrow> cryptde \<Rightarrow> public_key \<Rightarrow> 'a \<Rightarrow> codex_error + bytes" where
  "encodex S cryptde k item = (case to_vec S item of
      None \<Rightarrow> Inl SerializationError
    | Some serialized \<Rightarrow> (case cd_encode cryptde k serialized of
        Inr c \<Rightarrow> Inr c
      | Inl e \<Rightarrow> Inl (EncryptionError e)))"

definition decodex :: "'a codec \<Rightarrow> cryptde \<Rightarrow> bytes \<Rightarrow> (codex_error + 'a) run" where
  "decodex S cryptde data = do {
     decrypted \<leftarrow> cd_decode cryptde data;
     ret (case decrypted of
        Inl e \<Rightarrow> Inl (DecryptionError e)
      | Inr d \<Rightarrow> (case from_slice S d of
          Some t \<Rightarrow> Inr t
        | None \<Rightarrow> Inl DeserializationError)) }"

text \<open>A type serialises to bytes, at least one, that deserialise to it again.\<close>

definition codec_ok :: "'a codec \<Rightarrow> bool" where
  "codec_ok S \<longleftrightarrow> (\<forall>x. \<exists>b. to_vec S x = Some b \<and> b \<noteq> [] \<and> from_slice S b = Some x)"

section \<open>CryptDENull\<close>

record cryptde_null =
  cn_private_key :: bytes
  cn_public_key :: public_key

definition other_key_data :: "bytes \<Rightarrow> bytes" where
  "other_key_data in_key_data = map (\<lambda>b. b + 128) in_key_data"

definition private_from_public :: "public_key \<Rightarrow> bytes" where
  "private_from_public in_key = other_key_data in_key"

definition public_from_private :: "bytes \<Rightarrow> public_key" where
  "public_from_private in_key = other_key_data in_key"

definition key_and_data :: "nat \<Rightarrow> bytes \<Rightarrow> (bytes \<times> bytes) run" where
  "key_and_data key_len data = (if key_len \<le> length data then ret (take key_len data, drop key_len data) else panic)"

definition encode_with_key_data :: "bytes \<Rightarrow> bytes \<Rightarrow> cryptdec_error + bytes" where
  "encode_with_key_data key_data data =
     (if key_data = [] then Inl EmptyKey
      else if data = [] then Inl EmptyData
      else Inr (key_data @ data))"

text \<open>The text of the error, \<open>wrong_key_message\<close>, is an argument.\<close>

definition decode_with_key_data ::
  "(bytes \<Rightarrow> bytes \<Rightarrow> string) \<Rightarrow> bytes \<Rightarrow> bytes \<Rightarrow> (cryptdec_error + bytes) run" where
  "decode_with_key_data wrong_key_message key_data data =
     (if key_data = [] then ret (Inl EmptyKey)
      else if data = [] then ret (Inl EmptyData)
      else if length key_data > length data then ret (Inl (InvalidKey (wrong_key_message key_data data)))
      else do {
        (k, d) \<leftarrow> key_and_data (length key_data) data;
        if k \<noteq> key_data then panic else ret (Inr d) })"

definition cn_encode :: "public_key \<Rightarrow> bytes \<Rightarrow> cryptdec_error + bytes" where
  "cn_encode k data = encode_with_key_data (other_key_data k) data"

definition cn_decode :: "(bytes \<Rightarrow> bytes \<Rightarrow> string) \<Rightarrow> cryptde_null \<Rightarrow> bytes \<Rightarrow> (cryptdec_error + bytes) run" where
  "cn_decode wrong_key_message cn data = decode_with_key_data wrong_key_message (cn_private_key cn) data"

definition cn_random :: "nat \<Rightarrow> bytes" where
  "cn_random n = replicate n 0x34"

definition set_key_pair :: "public_key \<Rightarrow> cryptde_null \<Rightarrow> cryptde_null" where
  "set_key_pair k cn = cn\<lparr>cn_public_key := k, cn_private_key := private_from_public k\<rparr>"

text \<open>\<open>sign\<close> and \<open>verify_signature\<close>, over the hash function of the \<^verbatim>\<open>sha1\<close> crate.\<close>

definition cn_sign :: "(bytes \<Rightarrow> bytes) \<Rightarrow> cryptde_null \<Rightarrow> bytes \<Rightarrow> cryptdec_error + bytes" where
  "cn_sign hash cn data = encode_with_key_data (other_key_data (cn_private_key cn)) (hash data)"

definition cn_verify_signature ::
  "(bytes \<Rightarrow> bytes) \<Rightarrow> (bytes \<Rightarrow> bytes \<Rightarrow> string) \<Rightarrow> bytes \<Rightarrow> bytes \<Rightarrow> public_key \<Rightarrow> bool run" where
  "cn_verify_signature hash wrong_key_message data signature k = do {
     (private_key_bytes, _) \<leftarrow> key_and_data (length k) signature;
     if private_key_bytes \<noteq> k then ret False
     else do {
       decoded \<leftarrow> decode_with_key_data wrong_key_message k signature;
       ret (case decoded of
          Inl _ \<Rightarrow> False
        | Inr claimed_hash \<Rightarrow> hash data = claimed_hash) } }"

text \<open>\<open>gen_key_sym\<close> counts: the seed's bytes, the lowest first, are the key, and the next seed is one more.\<close>

definition cn_gen_key_sym :: "u64 \<Rightarrow> bytes \<times> u64" where
  "cn_gen_key_sym seed = (map (\<lambda>i. ucast (drop_bit (8 * i) seed)) [0..<8], seed + 1)"

definition null_cryptde :: "(bytes \<Rightarrow> bytes \<Rightarrow> string) \<Rightarrow> cryptde_null \<Rightarrow> cryptde" where
  "null_cryptde wrong_key_message cn =
     \<lparr>cd_public_key = cn_public_key cn, cd_encode = cn_encode, cd_decode = cn_decode wrong_key_message cn,
      cd_random = cn_random\<rparr>"

definition null_cryptde_of :: "(bytes \<Rightarrow> bytes \<Rightarrow> string) \<Rightarrow> public_key \<Rightarrow> cryptde" where
  "null_cryptde_of wrong_key_message k =
     null_cryptde wrong_key_message (set_key_pair k \<lparr>cn_private_key = [], cn_public_key = []\<rparr>)"

section \<open>What routing relies on\<close>

text \<open>
  A network of Nodes, each with a \<open>CryptDE\<close> for its public key: what anyone encrypts to a valid
  public key, the \<open>CryptDE\<close> with that key decrypts.
\<close>

locale cryptde_network =
  fixes cryptde_of :: "public_key \<Rightarrow> cryptde"
    and valid_key :: "public_key \<Rightarrow> bool"
  assumes public_key_of [simp]: "cd_public_key (cryptde_of k) = k"
    and decode_encode: "valid_key k \<Longrightarrow> x \<noteq> [] \<Longrightarrow>
      \<exists>c. cd_encode (cryptde_of j) k x = Inr c \<and> cd_decode (cryptde_of k) c = Some (Inr x)"
begin

lemma decodex_encodex:
  assumes "valid_key k" and "codec_ok S"
  obtains c where "encodex S (cryptde_of j) k x = Inr c" and "decodex S (cryptde_of k) c = Some (Inr x)"
proof -
  from assms(2) obtain b where b: "to_vec S x = Some b" "b \<noteq> []" "from_slice S b = Some x"
    unfolding codec_ok_def by blast
  from decode_encode [OF assms(1) b(2), of j] obtain c where
    "cd_encode (cryptde_of j) k b = Inr c" "cd_decode (cryptde_of k) c = Some (Inr b)" by blast
  with b that [of c] show thesis by (simp add: encodex_def decodex_def)
qed

end

lemma other_key_data_involutive [simp]: "other_key_data (other_key_data k) = k"
proof -
  have "b + 128 + 128 = b" for b :: u8
  proof -
    have "(128 :: u8) + 128 = 0" by code_simp
    then show ?thesis by (metis add.assoc add.right_neutral)
  qed
  then show ?thesis unfolding other_key_data_def list.map_comp comp_def by (simp only: list.map_ident)
qed

lemma other_key_data_simps [simp]:
  "length (other_key_data k) = length k" "other_key_data k = [] \<longleftrightarrow> k = []"
  by (simp_all add: other_key_data_def)

lemma decode_encode_with_key_data:
  assumes "encode_with_key_data k x = Inr c"
  shows "decode_with_key_data m k c = Some (Inr x)"
  using assms by (auto simp: encode_with_key_data_def decode_with_key_data_def key_and_data_def split: if_splits)

interpretation null: cryptde_network "null_cryptde_of m" "\<lambda>k. k \<noteq> []" for m
proof
  show "cd_public_key (null_cryptde_of m k) = k" for k
    by (simp add: null_cryptde_of_def null_cryptde_def set_key_pair_def)
  show "\<exists>c. cd_encode (null_cryptde_of m j) k x = Inr c \<and> cd_decode (null_cryptde_of m k) c = Some (Inr x)"
    if "k \<noteq> []" "x \<noteq> []" for j k x
    using that decode_encode_with_key_data [of "other_key_data k" x]
    by (auto simp: null_cryptde_of_def null_cryptde_def set_key_pair_def cn_encode_def cn_decode_def
        private_from_public_def encode_with_key_data_def)
qed

lemma cn_signature_correct:
  assumes "cn_public_key cn \<noteq> []" and "cn_private_key cn = private_from_public (cn_public_key cn)"
    and "hash data \<noteq> []"
  shows "\<exists>sig. cn_sign hash cn data = Inr sig \<and>
    cn_verify_signature hash m data' sig (cn_public_key cn) = Some (hash data' = hash data)"
  using assms
  by (auto simp: cn_sign_def cn_verify_signature_def private_from_public_def encode_with_key_data_def
      decode_with_key_data_def key_and_data_def)

section \<open>Wallets and payers\<close>

text \<open>What comes from \<^verbatim>\<open>ethsign\<close> and \<^verbatim>\<open>ethsign_crypto\<close>.\<close>

type_synonym signature = bytes
type_synonym address = "160 word"

record wallet_ops =
  wo_keccak256 :: "bytes \<Rightarrow> bytes"
  wo_secret_address :: "bytes \<Rightarrow> address"
  wo_public_address :: "bytes \<Rightarrow> address"
  wo_sign :: "bytes \<Rightarrow> bytes \<Rightarrow> signature option"
  wo_recover :: "signature \<Rightarrow> bytes \<Rightarrow> bytes option"
  wo_verify :: "bytes \<Rightarrow> signature \<Rightarrow> bytes \<Rightarrow> bool option"

record payer =
  payer_wallet :: wallet
  payer_proof :: signature

fun wallet_address :: "wallet_ops \<Rightarrow> wallet \<Rightarrow> address run" where
  "wallet_address W (WalletAddress address) = ret address"
| "wallet_address W (WalletPublicKey public) = ret (wo_public_address W public)"
| "wallet_address W (WalletSecretKey key_provider) = ret (wo_secret_address W key_provider)"
| "wallet_address W WalletUninitialized = panic"

definition as_address_wallet :: "wallet_ops \<Rightarrow> wallet \<Rightarrow> wallet run" where
  "as_address_wallet W w = do { address \<leftarrow> wallet_address W w; ret (WalletAddress address) }"

fun wallet_sign :: "wallet_ops \<Rightarrow> wallet \<Rightarrow> bytes \<Rightarrow> unit + signature" where
  "wallet_sign W (WalletSecretKey key_provider) msg =
     (case wo_sign W key_provider msg of Some s \<Rightarrow> Inr s | None \<Rightarrow> Inl ())"
| "wallet_sign W _ msg = Inl ()"

definition create_digest :: "wallet_ops \<Rightarrow> bytes \<Rightarrow> bytes \<Rightarrow> bytes" where
  "create_digest W msg address = wo_keccak256 W (msg @ address)"

definition payer_new :: "wallet_ops \<Rightarrow> wallet \<Rightarrow> signature \<Rightarrow> payer run" where
  "payer_new W w proof' = do {
     a \<leftarrow> as_address_wallet W w;
     ret \<lparr>payer_wallet = a, payer_proof = proof'\<rparr> }"

definition as_payer :: "wallet_ops \<Rightarrow> wallet \<Rightarrow> bytes \<Rightarrow> bytes \<Rightarrow> payer run" where
  "as_payer W w k contract_address =
     (case wallet_sign W w (create_digest W k contract_address) of
        Inr proof' \<Rightarrow> payer_new W w proof'
      | Inl _ \<Rightarrow> panic)"

definition congruent :: "wallet_ops \<Rightarrow> wallet \<Rightarrow> wallet \<Rightarrow> bool run" where
  "congruent W w other =
     (if w = other then ret True
      else if w \<noteq> WalletUninitialized \<and> other \<noteq> WalletUninitialized then do {
        a \<leftarrow> wallet_address W w;
        b \<leftarrow> wallet_address W other;
        ret (a = b) }
      else ret False)"

definition owns_secret_key :: "wallet_ops \<Rightarrow> payer \<Rightarrow> bytes \<Rightarrow> bool run" where
  "owns_secret_key W p digest =
     (case wo_recover W (payer_proof p) digest of
        Some payer_public_key \<Rightarrow>
          (case wo_verify W payer_public_key (payer_proof p) digest of
             Some result \<Rightarrow>
               if result then do {
                 a \<leftarrow> wallet_address W (payer_wallet p);
                 ret (wo_public_address W payer_public_key = a) }
               else ret False
           | None \<Rightarrow> ret False)
      | None \<Rightarrow> ret False)"

text \<open>\<open>is_delinquent\<close> asks the cache of banned wallets, which holds wallets by their address.\<close>

definition is_delinquent :: "wallet_ops \<Rightarrow> wallet fset \<Rightarrow> payer \<Rightarrow> bool run" where
  "is_delinquent W ban_cache p = do {
     w \<leftarrow> as_address_wallet W (payer_wallet p);
     ret (w |\<in>| ban_cache) }"

lemma is_delinquent_address:
  "as_address_wallet W w = Some a \<Longrightarrow> payer_wallet p = a \<Longrightarrow> is_delinquent W ban_cache p = Some (a |\<in>| ban_cache)"
proof -
  assume a: "as_address_wallet W w = Some a" and p: "payer_wallet p = a"
  from a obtain x where "a = WalletAddress x" by (auto simp: as_address_wallet_def split: bind_splits)
  with p show ?thesis by (simp add: is_delinquent_def as_address_wallet_def)
qed

text \<open>What \<^verbatim>\<open>ethsign\<close> documents: a signature recovers to the signer's public key, which verifies it
  and has the signer's address.\<close>

definition wallet_ops_ok :: "wallet_ops \<Rightarrow> bool" where
  "wallet_ops_ok W \<longleftrightarrow> (\<forall>s d. \<exists>sig pk. wo_sign W s d = Some sig \<and> wo_recover W sig d = Some pk \<and>
     wo_verify W pk sig d = Some True \<and> wo_public_address W pk = wo_secret_address W s)"

lemma as_payer_run:
  assumes "wallet_ops_ok W"
  shows "\<exists>sig. as_payer W (WalletSecretKey s) k c =
      Some \<lparr>payer_wallet = WalletAddress (wo_secret_address W s), payer_proof = sig\<rparr> \<and>
    owns_secret_key W \<lparr>payer_wallet = WalletAddress (wo_secret_address W s), payer_proof = sig\<rparr>
      (create_digest W k c) = Some True"
proof -
  from assms obtain sig pk where "wo_sign W s (create_digest W k c) = Some sig"
    "wo_recover W sig (create_digest W k c) = Some pk"
    "wo_verify W pk sig (create_digest W k c) = Some True" "wo_public_address W pk = wo_secret_address W s"
    unfolding wallet_ops_ok_def by meson
  then show ?thesis by (simp add: as_payer_def payer_new_def as_address_wallet_def owns_secret_key_def)
qed

lemma as_payer_panics:
  "(\<nexists>s. w = WalletSecretKey s) \<Longrightarrow> as_payer W w k c = None"
  by (cases w) (simp_all add: as_payer_def)

lemma congruent_symmetric: "congruent W a b = congruent W b a"
  by (cases "wallet_address W a"; cases "wallet_address W b") (auto simp: congruent_def)

end
