(* ===== verification/Route.thy ===== *)
theory Route
  imports Cryptde Neighborhood_Types
begin

text \<open>
  Onion routes: \<open>Route\<close> and \<open>RouteSegment\<close> of \<^verbatim>\<open>node/src/sub_lib/route.rs\<close> and \<open>LiveHop\<close> of
  \<^verbatim>\<open>hop.rs\<close>. Each hop of a route is encrypted to the Node that takes it off. The codecs \<open>H\<close> of hops
  and \<open>N\<close> of return route ids stand for CBOR.
\<close>

section \<open>Definitions\<close>

record live_hop =
  lh_public_key :: public_key
  lh_payer :: "payer option"
  lh_component :: component

definition live_hop_new :: "public_key \<Rightarrow> payer option \<Rightarrow> component \<Rightarrow> live_hop" where
  "live_hop_new key payer component = \<lparr>lh_public_key = key, lh_payer = payer, lh_component = component\<rparr>"

definition live_hop_decode :: "live_hop codec \<Rightarrow> cryptde \<Rightarrow> bytes \<Rightarrow> (codex_error + live_hop) run" where
  "live_hop_decode H cryptde crypt_data = decodex H cryptde crypt_data"

definition live_hop_encode :: "live_hop codec \<Rightarrow> live_hop \<Rightarrow> public_key \<Rightarrow> cryptde \<Rightarrow> codex_error + bytes" where
  "live_hop_encode H hop k cryptde = encodex H cryptde k hop"

definition payer_owns_secret_key :: "wallet_ops \<Rightarrow> live_hop \<Rightarrow> bytes \<Rightarrow> bool run" where
  "payer_owns_secret_key W hop digest = (case lh_payer hop of
      Some p \<Rightarrow> owns_secret_key W p digest
    | None \<Rightarrow> ret False)"

record route =
  rt_hops :: "bytes list"

record route_segment =
  rs_keys :: "public_key list"
  rs_recipient :: component

definition route_segment_new :: "public_key list \<Rightarrow> component \<Rightarrow> route_segment" where
  "route_segment_new ks recipient = \<lparr>rs_keys = ks, rs_recipient = recipient\<rparr>"

text \<open>\<open>Itertools::tuple_windows\<close> for pairs, and \<open>Address::zero\<close>.\<close>

definition tuple_windows :: "'a list \<Rightarrow> ('a \<times> 'a) list" where
  "tuple_windows xs = zip xs (tl xs)"

definition address_zero :: bytes where
  "address_zero = replicate 20 0"

definition make_hop ::
  "wallet_ops \<Rightarrow> wallet option \<Rightarrow> bytes option \<Rightarrow> public_key \<Rightarrow> public_key \<Rightarrow> component \<Rightarrow> live_hop run" where
  "make_hop W consuming_wallet_opt contract_address_opt current_key next_key component =
     (case consuming_wallet_opt of
        None \<Rightarrow> ret (live_hop_new next_key None component)
      | Some w \<Rightarrow> do {
          payer \<leftarrow> as_payer W w current_key
            (case contract_address_opt of Some a \<Rightarrow> a | None \<Rightarrow> address_zero);
          ret (live_hop_new next_key (Some payer) component) })"

definition over_segment ::
  "wallet_ops \<Rightarrow> bool \<Rightarrow> wallet option \<Rightarrow> public_key list \<Rightarrow> component \<Rightarrow> bytes option \<Rightarrow> live_hop list run" where
  "over_segment W one_way consuming_wallet_opt over_keys over_component contract_address_opt = do {
     hops \<leftarrow> those (map (\<lambda>(current_key, next_key).
       make_hop W consuming_wallet_opt contract_address_opt current_key next_key HopperComponent)
       (tuple_windows over_keys));
     if one_way then
       (case map snd (tuple_windows over_keys) of
          [] \<Rightarrow> ret (hops @ [live_hop_new [] None over_component])
        | next_keys \<Rightarrow> do {
            hop \<leftarrow> make_hop W consuming_wallet_opt contract_address_opt (last next_keys) [] over_component;
            ret (hops @ [hop]) })
     else ret hops }"

definition back_segment ::
  "wallet_ops \<Rightarrow> route_segment option \<Rightarrow> wallet option \<Rightarrow> component \<Rightarrow> live_hop list \<Rightarrow> bytes option \<Rightarrow>
     live_hop list run" where
  "back_segment W back_option consuming_wallet over_component hops contract_address =
     (case back_option of
        None \<Rightarrow> ret hops
      | Some back \<Rightarrow> do {
          back_hops \<leftarrow> those (map (\<lambda>(key_index, current_key, next_key).
            make_hop W consuming_wallet contract_address current_key next_key
              (if key_index = 0 then over_component else HopperComponent))
            (enumerate 0 (tuple_windows (rs_keys back))));
          (case rs_keys back of
             [] \<Rightarrow> ret (hops @ back_hops @ [live_hop_new [] None (rs_recipient back)])
           | _ \<Rightarrow> do {
               hop \<leftarrow> make_hop W consuming_wallet contract_address (last (rs_keys back)) [] (rs_recipient back);
               ret (hops @ back_hops @ [hop]) }) })"

definition validate_route_segments :: "route_segment \<Rightarrow> route_segment option \<Rightarrow> route_error option" where
  "validate_route_segments over back =
     (if rs_keys over = [] then Some TooFewKeysInRouteSegment
      else case back of
          None \<Rightarrow> None
        | Some b \<Rightarrow>
            if rs_keys b = [] then Some TooFewKeysInRouteSegment
            else if hd (rs_keys b) \<noteq> last (rs_keys over) then Some DisjointRouteSegments
            else None)"

definition encrypt_return_route_id :: "u32 codec \<Rightarrow> u32 \<Rightarrow> cryptde \<Rightarrow> bytes run" where
  "encrypt_return_route_id N return_route_id cryptde =
     (case encodex N cryptde (cd_public_key cryptde) return_route_id of
        Inr c \<Rightarrow> ret c
      | Inl _ \<Rightarrow> panic)"

fun encode_hops :: "live_hop codec \<Rightarrow> live_hop list \<Rightarrow> public_key \<Rightarrow> cryptde \<Rightarrow> codex_error + bytes list" where
  "encode_hops H [] hop_key cryptde = Inr []"
| "encode_hops H (data_hop # hops) hop_key cryptde =
     (case live_hop_encode H data_hop hop_key cryptde of
        Inl e \<Rightarrow> Inl e
      | Inr crypt_data \<Rightarrow>
          (case encode_hops H hops (lh_public_key data_hop) cryptde of
             Inl e \<Rightarrow> Inl e
           | Inr rest \<Rightarrow> Inr (crypt_data # rest)))"

definition hops_to_route ::
  "live_hop codec \<Rightarrow> u32 codec \<Rightarrow> live_hop list \<Rightarrow> public_key \<Rightarrow> u32 option \<Rightarrow> cryptde \<Rightarrow>
     (codex_error + route) run" where
  "hops_to_route H N hops top_hop_key return_route_id_opt cryptde =
     (case encode_hops H hops top_hop_key cryptde of
        Inl e \<Rightarrow> ret (Inl e)
      | Inr hops_enc \<Rightarrow>
          (case return_route_id_opt of
             None \<Rightarrow> ret (Inr \<lparr>rt_hops = hops_enc\<rparr>)
           | Some return_route_id \<Rightarrow> do {
               return_route_id_enc \<leftarrow> encrypt_return_route_id N return_route_id cryptde;
               ret (Inr \<lparr>rt_hops = hops_enc @ [return_route_id_enc]\<rparr>) }))"

definition route_construct ::
  "live_hop codec \<Rightarrow> u32 codec \<Rightarrow> wallet_ops \<Rightarrow> route_segment \<Rightarrow> route_segment option \<Rightarrow> cryptde \<Rightarrow>
     wallet option \<Rightarrow> u32 option \<Rightarrow> bytes option \<Rightarrow> (codex_error + route) run" where
  "route_construct H N W over back cryptde consuming_wallet return_route_id_opt contract_address =
     (case validate_route_segments over back of
        Some e \<Rightarrow> ret (Inl (RoutingError e))
      | None \<Rightarrow> do {
          hops \<leftarrow> over_segment W (back = None) consuming_wallet (rs_keys over) (rs_recipient over) contract_address;
          hops' \<leftarrow> back_segment W back consuming_wallet (rs_recipient over) hops contract_address;
          hops_to_route H N hops' (hd (rs_keys over)) return_route_id_opt cryptde })"

definition single_hop ::
  "live_hop codec \<Rightarrow> u32 codec \<Rightarrow> wallet_ops \<Rightarrow> public_key \<Rightarrow> cryptde \<Rightarrow> (codex_error + route) run" where
  "single_hop H N W destination cryptde =
     route_construct H N W (route_segment_new [cd_public_key cryptde, destination] NeighborhoodComponent)
       None cryptde None None None"

definition one_way ::
  "live_hop codec \<Rightarrow> u32 codec \<Rightarrow> wallet_ops \<Rightarrow> route_segment \<Rightarrow> cryptde \<Rightarrow> wallet option \<Rightarrow> bytes option \<Rightarrow>
     (codex_error + route) run" where
  "one_way H N W route_segment cryptde consuming_wallet contract_address =
     route_construct H N W route_segment None cryptde consuming_wallet None contract_address"

definition round_trip ::
  "live_hop codec \<Rightarrow> u32 codec \<Rightarrow> wallet_ops \<Rightarrow> route_segment \<Rightarrow> route_segment \<Rightarrow> cryptde \<Rightarrow>
     wallet option \<Rightarrow> u32 \<Rightarrow> bytes option \<Rightarrow> (codex_error + route) run" where
  "round_trip H N W route_segment_over route_segment_back cryptde consuming_wallet return_route_id contract_address =
     route_construct H N W route_segment_over (Some route_segment_back) cryptde consuming_wallet
       (Some return_route_id) contract_address"

datatype route_id_error = NoReturnRouteId | ReturnRouteIdDecode codex_error

definition route_id :: "u32 codec \<Rightarrow> cryptde \<Rightarrow> route \<Rightarrow> (route_id_error + u32) run" where
  "route_id N cryptde r = (case rt_hops r of
      [] \<Rightarrow> ret (Inl NoReturnRouteId)
    | first # _ \<Rightarrow> do {
        n \<leftarrow> decodex N cryptde first;
        ret (case n of Inr n \<Rightarrow> Inr n | Inl e \<Rightarrow> Inl (ReturnRouteIdDecode e)) })"

definition next_hop :: "live_hop codec \<Rightarrow> cryptde \<Rightarrow> route \<Rightarrow> (codex_error + live_hop) run" where
  "next_hop H cryptde r = (case rt_hops r of
      [] \<Rightarrow> ret (Inl (RoutingError EmptyRoute))
    | first # _ \<Rightarrow> live_hop_decode H cryptde first)"

text \<open>\<open>shift\<close> changes the route also when it fails: the hop that cannot be decoded is gone.\<close>

definition shift :: "live_hop codec \<Rightarrow> cryptde \<Rightarrow> route \<Rightarrow> ((codex_error + live_hop) \<times> route) run" where
  "shift H cryptde r = (case rt_hops r of
      [] \<Rightarrow> ret (Inl (RoutingError EmptyRoute), r)
    | top_hop # rest \<Rightarrow> do {
        next \<leftarrow> live_hop_decode H cryptde top_hop;
        ret (case next of
           Inl e \<Rightarrow> (Inl e, r\<lparr>rt_hops := rest\<rparr>)
         | Inr hop \<Rightarrow> (Inr hop, r\<lparr>rt_hops := rest @ [cd_random cryptde (length top_hop)]\<rparr>)) })"

section \<open>The hops of a route\<close>

text \<open>The results of taking off one hop after the other, each at the Node with the given key.\<close>

fun unwind :: "live_hop codec \<Rightarrow> (public_key \<Rightarrow> cryptde) \<Rightarrow> public_key list \<Rightarrow> route \<Rightarrow>
    ((codex_error + live_hop) list \<times> route) run" where
  "unwind H C [] r = ret ([], r)"
| "unwind H C (k # ks) r = do {
     (res, r') \<leftarrow> shift H (C k) r;
     (ress, r'') \<leftarrow> unwind H C ks r';
     ret (res # ress, r'') }"

definition usable_wallet :: "wallet_ops \<Rightarrow> wallet option \<Rightarrow> bool" where
  "usable_wallet W w_opt \<longleftrightarrow> w_opt = None \<or> wallet_ops_ok W \<and> (\<exists>s. w_opt = Some (WalletSecretKey s))"

text \<open>A hop as it should be for the Node with key \<open>k\<close>: paid for, with a proof made for that key, if there is a wallet.\<close>

definition hop_paid :: "wallet_ops \<Rightarrow> wallet option \<Rightarrow> bytes option \<Rightarrow> public_key \<Rightarrow> live_hop \<Rightarrow> bool" where
  "hop_paid W w_opt c_opt k h \<longleftrightarrow> (case w_opt of
      None \<Rightarrow> lh_payer h = None
    | Some w \<Rightarrow> \<exists>p. lh_payer h = Some p \<and> as_address_wallet W w = Some (payer_wallet p) \<and>
        owns_secret_key W p (create_digest W k (case c_opt of Some a \<Rightarrow> a | None \<Rightarrow> address_zero)) = Some True)"

lemma make_hop_run:
  assumes "usable_wallet W w"
  shows "\<exists>h. make_hop W w c k nxt tc = Some h \<and> lh_public_key h = nxt \<and> lh_component h = tc \<and> hop_paid W w c k h"
proof (cases w)
  case None
  then show ?thesis by (simp add: make_hop_def live_hop_new_def hop_paid_def)
next
  case (Some w')
  with assms obtain s where "w' = WalletSecretKey s" and ok: "wallet_ops_ok W"
    by (auto simp: usable_wallet_def)
  with Some as_payer_run [OF ok, of s k "case c of Some a \<Rightarrow> a | None \<Rightarrow> address_zero"]
  show ?thesis by (auto simp: make_hop_def live_hop_new_def hop_paid_def as_address_wallet_def)
qed

lemma make_hops_run:
  assumes "usable_wallet W w"
  shows "\<exists>hs. those (map (\<lambda>x. make_hop W w c (cur x) (nxt x) (tc x)) xs) = Some hs \<and>
    map lh_public_key hs = map nxt xs \<and> map lh_component hs = map tc xs \<and>
    list_all2 (hop_paid W w c) (map cur xs) hs"
proof (induction xs)
  case Nil
  then show ?case by simp
next
  case (Cons x xs)
  from make_hop_run [OF assms, of c "cur x" "nxt x" "tc x"] Cons show ?case by auto
qed

lemma windows_simps [simp]:
  "map fst (tuple_windows xs) = butlast xs" "map snd (tuple_windows xs) = tl xs"
  "length (tuple_windows xs) = length xs - 1"
proof -
  show "map fst (tuple_windows xs) = butlast xs"
    by (simp add: tuple_windows_def butlast_conv_take map_fst_zip_take)
  show "map snd (tuple_windows xs) = tl xs"
    by (simp add: tuple_windows_def map_snd_zip_take)
qed (simp add: tuple_windows_def)

lemma over_segment_run:
  assumes "usable_wallet W w"
  shows "\<exists>hs. over_segment W False w ks tc c = Some hs \<and> map lh_public_key hs = tl ks \<and>
    map lh_component hs = replicate (length ks - 1) HopperComponent \<and> list_all2 (hop_paid W w c) (butlast ks) hs"
  using make_hops_run [OF assms, of c fst snd "\<lambda>_. HopperComponent" "tuple_windows ks"]
  by (auto simp: over_segment_def case_prod_unfold map_replicate_const)

definition back_components :: "component \<Rightarrow> nat \<Rightarrow> component list" where
  "back_components tc n = (if n = 0 then [] else tc # replicate (n - 1) HopperComponent)"

lemma back_components_eq:
  "map (\<lambda>x. if fst x = 0 then tc else HopperComponent) (enumerate 0 xs) = back_components tc (length xs)"
proof (cases xs)
  case (Cons x ys)
  have "map (\<lambda>x. if fst x = 0 then tc else HopperComponent) (enumerate (Suc 0) ys) =
      map (\<lambda>_. HopperComponent) (enumerate (Suc 0) ys)"
    by (rule map_cong) (auto simp: in_set_enumerate_eq)
  with Cons show ?thesis by (simp add: back_components_def map_replicate_const)
qed (simp add: back_components_def)

lemma back_segment_run:
  assumes "usable_wallet W w" and "ks \<noteq> []"
  shows "\<exists>hs. back_segment W (Some \<lparr>rs_keys = ks, rs_recipient = rcp\<rparr>) w tc hops c = Some (hops @ hs) \<and>
    map lh_public_key hs = tl ks @ [[]] \<and>
    map lh_component hs = back_components tc (length ks - 1) @ [rcp] \<and>
    list_all2 (hop_paid W w c) ks hs"
proof -
  from make_hops_run [OF assms(1), of c "\<lambda>x. fst (snd x)" "\<lambda>x. snd (snd x)"
      "\<lambda>x. if fst x = 0 then tc else HopperComponent" "enumerate 0 (tuple_windows ks)"]
  obtain hs where hs: "those (map (\<lambda>x. make_hop W w c (fst (snd x)) (snd (snd x))
        (if fst x = 0 then tc else HopperComponent)) (enumerate 0 (tuple_windows ks))) = Some hs"
    "map lh_public_key hs = tl ks" "map lh_component hs = back_components tc (length ks - 1)"
    "list_all2 (hop_paid W w c) (butlast ks) hs"
    by (auto simp: back_components_eq simp flip: map_map [of snd snd, unfolded comp_def] map_map [of fst snd, unfolded comp_def])
  from make_hop_run [OF assms(1), of c "last ks" "[]" rcp] obtain h where
    h: "make_hop W w c (last ks) [] rcp = Some h" "lh_public_key h = []" "lh_component h = rcp" "hop_paid W w c (last ks) h"
    by blast
  from hs(4) h(4) have "list_all2 (hop_paid W w c) (butlast ks @ [last ks]) (hs @ [h])"
    by (intro list_all2_appendI) simp_all
  with hs h assms(2) show ?thesis
    by (auto simp: back_segment_def case_prod_unfold split: list.split intro!: exI [of _ "hs @ [h]"])
qed

section \<open>Taking a route apart\<close>

context cryptde_network
begin

lemma encode_hops_run:
  assumes "codec_ok H" and "\<forall>k \<in> set (butlast (k # map lh_public_key hs)). valid_key k"
  shows "\<exists>cs. encode_hops H hs k (cryptde_of me) = Inr cs \<and> length cs = length hs \<and>
    (\<forall>rest. \<exists>garbage. unwind H cryptde_of (butlast (k # map lh_public_key hs)) \<lparr>rt_hops = cs @ rest\<rparr> =
       Some (map Inr hs, \<lparr>rt_hops = rest @ garbage\<rparr>))"
  using assms(2)
proof (induction hs arbitrary: k)
  case Nil
  then show ?case by simp
next
  case (Cons h hs)
  from Cons.prems have k: "valid_key k" and ks: "\<forall>k \<in> set (butlast (lh_public_key h # map lh_public_key hs)). valid_key k"
    by simp_all
  from decodex_encodex [OF k assms(1), of me h] obtain c where
    c: "encodex H (cryptde_of me) k h = Inr c" "decodex H (cryptde_of k) c = Some (Inr h)" by blast
  from Cons.IH [OF ks] obtain cs where cs: "encode_hops H hs (lh_public_key h) (cryptde_of me) = Inr cs"
    "length cs = length hs"
    "\<forall>rest. \<exists>garbage. unwind H cryptde_of (butlast (lh_public_key h # map lh_public_key hs)) \<lparr>rt_hops = cs @ rest\<rparr> =
       Some (map Inr hs, \<lparr>rt_hops = rest @ garbage\<rparr>)" by blast
  have "\<exists>garbage. unwind H cryptde_of (k # butlast (lh_public_key h # map lh_public_key hs)) \<lparr>rt_hops = c # cs @ rest\<rparr> =
       Some (Inr h # map Inr hs, \<lparr>rt_hops = rest @ garbage\<rparr>)" for rest
  proof -
    let ?g = "cd_random (cryptde_of k) (length c)"
    from cs(3) obtain garbage where
      "unwind H cryptde_of (butlast (lh_public_key h # map lh_public_key hs)) \<lparr>rt_hops = cs @ (rest @ [?g])\<rparr> =
        Some (map Inr hs, \<lparr>rt_hops = (rest @ [?g]) @ garbage\<rparr>)" by blast
    with c(2) show ?thesis by (auto simp: shift_def live_hop_decode_def)
  qed
  with c(1) cs(1,2) show ?case by (auto simp: live_hop_encode_def)
qed

lemma round_trip_run:
  assumes "codec_ok H" and "codec_ok N" and "usable_wallet W w"
    and "ks \<noteq> []" and "bs \<noteq> []" and "last ks = hd bs"
    and "\<forall>k \<in> set ks \<union> set bs. valid_key k" and "valid_key me"
  shows "\<exists>route hs route'.
    round_trip H N W \<lparr>rs_keys = ks, rs_recipient = oc\<rparr> \<lparr>rs_keys = bs, rs_recipient = bc\<rparr> (cryptde_of me) w rid c =
      Some (Inr route) \<and> length (rt_hops route) = length ks + length bs \<and>
    unwind H cryptde_of (butlast ks @ bs) route = Some (map Inr hs, route') \<and>
    map lh_public_key hs = tl ks @ tl bs @ [[]] \<and>
    map lh_component hs = replicate (length ks - 1) HopperComponent @ back_components oc (length bs - 1) @ [bc] \<and>
    list_all2 (hop_paid W w c) (butlast ks @ bs) hs \<and>
    route_id N (cryptde_of me) route' = Some (Inr rid)"
proof -
  from over_segment_run [OF assms(3), of ks oc c] obtain os where
    os: "over_segment W False w ks oc c = Some os" "map lh_public_key os = tl ks"
    "map lh_component os = replicate (length ks - 1) HopperComponent" "list_all2 (hop_paid W w c) (butlast ks) os" by blast
  from back_segment_run [OF assms(3,5), of bc oc os c] obtain hs where
    hs: "back_segment W (Some \<lparr>rs_keys = bs, rs_recipient = bc\<rparr>) w oc os c = Some (os @ hs)"
    "map lh_public_key hs = tl bs @ [[]]" "map lh_component hs = back_components oc (length bs - 1) @ [bc]"
    "list_all2 (hop_paid W w c) bs hs" by blast
  have keys: "butlast (hd ks # map lh_public_key (os @ hs)) = butlast ks @ bs"
  proof -
    have "butlast (hd ks # map lh_public_key (os @ hs)) = (hd ks # tl ks) @ tl bs"
      using os(2) hs(2) by (simp add: butlast_append)
    also have "\<dots> = butlast ks @ hd bs # tl bs"
      using assms(4,6) append_butlast_last_id [of ks] by (metis append_Cons append_Nil append_assoc list.collapse)
    finally show ?thesis using assms(5) by simp
  qed
  have "\<forall>k \<in> set (butlast (hd ks # map lh_public_key (os @ hs))). valid_key k"
    unfolding keys using assms(7) by (auto dest: in_set_butlastD)
  from encode_hops_run [OF assms(1) this, of me] obtain cs where
    cs: "encode_hops H (os @ hs) (hd ks) (cryptde_of me) = Inr cs" "length cs = length (os @ hs)"
    "\<forall>rest. \<exists>garbage. unwind H cryptde_of (butlast ks @ bs) \<lparr>rt_hops = cs @ rest\<rparr> =
       Some (map Inr (os @ hs), \<lparr>rt_hops = rest @ garbage\<rparr>)" unfolding keys by blast
  from decodex_encodex [OF assms(8,2), of me rid] obtain i where
    i: "encodex N (cryptde_of me) me rid = Inr i" "decodex N (cryptde_of me) i = Some (Inr rid)" by blast
  from cs(3) obtain garbage where
    g: "unwind H cryptde_of (butlast ks @ bs) \<lparr>rt_hops = cs @ [i]\<rparr> = Some (map Inr (os @ hs), \<lparr>rt_hops = [i] @ garbage\<rparr>)"
    by blast
  have "round_trip H N W \<lparr>rs_keys = ks, rs_recipient = oc\<rparr> \<lparr>rs_keys = bs, rs_recipient = bc\<rparr> (cryptde_of me) w rid c =
      Some (Inr \<lparr>rt_hops = cs @ [i]\<rparr>)"
    using assms(4-6) os(1) hs(1) cs(1) i(1)
    by (simp add: round_trip_def route_construct_def validate_route_segments_def hops_to_route_def encrypt_return_route_id_def)
  moreover have "length cs = length (butlast ks) + length bs"
    unfolding cs(2) using list_all2_lengthD [OF os(4)] list_all2_lengthD [OF hs(4)] by simp
  ultimately show ?thesis
    using g os(2-4) hs(2-4) i(2) assms(4)
    by (intro exI [of _ "\<lparr>rt_hops = cs @ [i]\<rparr>"] exI [of _ "os @ hs"] exI [of _ "\<lparr>rt_hops = [i] @ garbage\<rparr>"])
      (auto simp: route_id_def intro!: list_all2_appendI)
qed

lemma neighbor_route_run:
  assumes "codec_ok H" and "valid_key me" and "valid_key k"
  shows "\<exists>route. one_way H N W \<lparr>rs_keys = [me, k], rs_recipient = tc\<rparr> (cryptde_of me) None c = Some (Inr route)"
proof -
  let ?hops = "[live_hop_new k None HopperComponent, live_hop_new [] None tc]"
  have "\<forall>j \<in> set (butlast (me # map lh_public_key ?hops)). valid_key j"
    using assms(2,3) by (simp add: live_hop_new_def)
  from encode_hops_run [OF assms(1) this, of me] obtain cs where "encode_hops H ?hops me (cryptde_of me) = Inr cs" by blast
  then show ?thesis
    by (simp add: one_way_def route_construct_def validate_route_segments_def over_segment_def back_segment_def
        tuple_windows_def make_hop_def hops_to_route_def)
qed

end

section \<open>A concrete serialisation\<close>

text \<open>
  A serialisation that can be written down in full, for the examples: a number is a row of ones closed
  by a zero, a string of bytes marks each byte with a one and ends in a zero, and alternatives have tags.
\<close>

definition enc_nat :: "nat \<Rightarrow> bytes" where
  "enc_nat n = replicate n 1 @ [0]"

fun dec_nat :: "bytes \<Rightarrow> (nat \<times> bytes) option" where
  "dec_nat [] = None"
| "dec_nat (b # bs) = (if b = 0 then Some (0, bs) else map_option (\<lambda>(n, bs). (Suc n, bs)) (dec_nat bs))"

fun enc_bytes :: "bytes \<Rightarrow> bytes" where
  "enc_bytes [] = [0]"
| "enc_bytes (b # bs) = 1 # b # enc_bytes bs"

fun dec_bytes :: "bytes \<Rightarrow> (bytes \<times> bytes) option" where
  "dec_bytes (m # b # bs) = (if m = 0 then Some ([], b # bs) else map_option (\<lambda>(xs, bs). (b # xs, bs)) (dec_bytes bs))"
| "dec_bytes [m] = (if m = 0 then Some ([], []) else None)"
| "dec_bytes [] = None"

fun enc_wallet :: "wallet \<Rightarrow> bytes" where
  "enc_wallet (WalletAddress a) = 0 # enc_nat (unat a)"
| "enc_wallet (WalletSecretKey k) = 1 # enc_bytes k"
| "enc_wallet (WalletPublicKey k) = 2 # enc_bytes k"
| "enc_wallet WalletUninitialized = [3]"

fun dec_wallet :: "bytes \<Rightarrow> (wallet \<times> bytes) option" where
  "dec_wallet [] = None"
| "dec_wallet (t # bs) =
     (if t = 0 then map_option (\<lambda>(n, bs). (WalletAddress (of_nat n), bs)) (dec_nat bs)
      else if t = 1 then map_option (\<lambda>(k, bs). (WalletSecretKey k, bs)) (dec_bytes bs)
      else if t = 2 then map_option (\<lambda>(k, bs). (WalletPublicKey k, bs)) (dec_bytes bs)
      else Some (WalletUninitialized, bs))"

fun enc_payer_opt :: "payer option \<Rightarrow> bytes" where
  "enc_payer_opt None = [0]"
| "enc_payer_opt (Some p) = 1 # enc_wallet (payer_wallet p) @ enc_bytes (payer_proof p)"

fun dec_payer_opt :: "bytes \<Rightarrow> (payer option \<times> bytes) option" where
  "dec_payer_opt [] = None"
| "dec_payer_opt (t # bs) = (if t = 0 then Some (None, bs) else do {
     (w, bs1) \<leftarrow> dec_wallet bs;
     (s, bs2) \<leftarrow> dec_bytes bs1;
     Some (Some \<lparr>payer_wallet = w, payer_proof = s\<rparr>, bs2) })"

fun enc_component :: "component \<Rightarrow> u8" where
  "enc_component NeighborhoodComponent = 0"
| "enc_component HopperComponent = 1"
| "enc_component ProxyServerComponent = 2"
| "enc_component ProxyClientComponent = 3"

definition dec_component :: "u8 \<Rightarrow> component" where
  "dec_component b = (if b = 0 then NeighborhoodComponent else if b = 1 then HopperComponent
     else if b = 2 then ProxyServerComponent else ProxyClientComponent)"

definition sample_hop_to_vec :: "live_hop \<Rightarrow> bytes option" where
  "sample_hop_to_vec h = Some (enc_component (lh_component h) # enc_bytes (lh_public_key h) @ enc_payer_opt (lh_payer h))"

definition sample_hop_from_slice :: "bytes \<Rightarrow> live_hop option" where
  "sample_hop_from_slice bs = (case bs of
      [] \<Rightarrow> None
    | c # bs1 \<Rightarrow> do {
        (k, bs2) \<leftarrow> dec_bytes bs1;
        (p, bs3) \<leftarrow> dec_payer_opt bs2;
        Some \<lparr>lh_public_key = k, lh_payer = p, lh_component = dec_component c\<rparr> })"

definition sample_hop_codec :: "live_hop codec" where
  "sample_hop_codec = \<lparr>to_vec = sample_hop_to_vec, from_slice = sample_hop_from_slice\<rparr>"

definition sample_u32_to_vec :: "u32 \<Rightarrow> bytes option" where
  "sample_u32_to_vec n = Some (enc_nat (unat n))"

definition sample_u32_from_slice :: "bytes \<Rightarrow> u32 option" where
  "sample_u32_from_slice bs = map_option (\<lambda>(n, bs). of_nat n) (dec_nat bs)"

definition sample_u32_codec :: "u32 codec" where
  "sample_u32_codec = \<lparr>to_vec = sample_u32_to_vec, from_slice = sample_u32_from_slice\<rparr>"

lemma dec_nat_enc [simp]: "dec_nat (enc_nat n @ bs) = Some (n, bs)"
  by (induction n) (simp_all add: enc_nat_def)

lemma dec_bytes_enc [simp]: "dec_bytes (enc_bytes k @ bs) = Some (k, bs)"
  by (induction k) (simp_all split: list.split, cases bs, simp_all)

lemma dec_wallet_enc [simp]: "dec_wallet (enc_wallet w @ bs) = Some (w, bs)"
  by (cases w) simp_all

lemma dec_payer_opt_enc [simp]: "dec_payer_opt (enc_payer_opt p @ bs) = Some (p, bs)"
  by (cases p) simp_all

lemma dec_component_enc [simp]: "dec_component (enc_component c) = c"
  by (cases c) (simp_all add: dec_component_def)

lemma sample_hop_codec_ok: "codec_ok sample_hop_codec"
proof -
  have "dec_payer_opt (enc_payer_opt p) = Some (p, [])" for p
    using dec_payer_opt_enc [of p "[]"] by simp
  then show ?thesis
    by (simp add: codec_ok_def sample_hop_codec_def sample_hop_to_vec_def sample_hop_from_slice_def)
qed

lemma sample_u32_codec_ok: "codec_ok sample_u32_codec"
proof -
  have "dec_nat (enc_nat n) = Some (n, [])" for n
    using dec_nat_enc [of n "[]"] by simp
  moreover have "enc_nat n \<noteq> []" for n by (simp add: enc_nat_def)
  ultimately show ?thesis
    by (simp add: codec_ok_def sample_u32_codec_def sample_u32_to_vec_def sample_u32_from_slice_def)
qed

text \<open>Wallets whose signatures are the signed text and the secret.\<close>

definition sample_wallet_ops :: wallet_ops where
  "sample_wallet_ops = \<lparr>wo_keccak256 = id, wo_secret_address = (\<lambda>s. of_nat (length s)),
     wo_public_address = (\<lambda>s. of_nat (length s)), wo_sign = (\<lambda>s d. Some s), wo_recover = (\<lambda>s d. Some s),
     wo_verify = (\<lambda>k s d. Some (k = s))\<rparr>"

lemma sample_wallet_ops_ok: "wallet_ops_ok sample_wallet_ops"
  by (simp add: wallet_ops_ok_def sample_wallet_ops_def)

section \<open>Properties\<close>



end
