(* ===== verification/Text.thy ===== *)
theory Text
  imports Prelude
begin

text \<open>
  What the parsers and printers of the source use of Rust's string library: \<open>str::split\<close> on a
  character, decimal printing of unsigned integers and \<open>FromStr\<close> of the unsigned integer types,
  which takes an optional plus sign and any number of digits and fails on an empty string, another
  character or a number out of range.
\<close>

section \<open>Definitions\<close>

fun split_on :: "char \<Rightarrow> string \<Rightarrow> string list" where
  "split_on c [] = [[]]"
| "split_on c (x # xs) =
     (if x = c then [] # split_on c xs
      else case split_on c xs of
          [] \<Rightarrow> [[x]]
        | part # parts \<Rightarrow> (x # part) # parts)"

fun join_with :: "string \<Rightarrow> string list \<Rightarrow> string" where
  "join_with sep [] = []"
| "join_with sep [s] = s"
| "join_with sep (s # t # rest) = s @ sep @ join_with sep (t # rest)"

definition digit_char :: "nat \<Rightarrow> char" where
  "digit_char d = char_of (48 + d)"

definition char_digit :: "char \<Rightarrow> nat option" where
  "char_digit c = (if 48 \<le> (of_char c :: nat) \<and> (of_char c :: nat) \<le> 57 then Some (of_char c - 48) else None)"

fun show_nat :: "nat \<Rightarrow> string" where
  "show_nat n = (if n < 10 then [digit_char n] else show_nat (n div 10) @ [digit_char (n mod 10)])"

declare show_nat.simps [simp del]

fun parse_digits :: "nat \<Rightarrow> string \<Rightarrow> nat option" where
  "parse_digits acc [] = Some acc"
| "parse_digits acc (c # cs) = do { d \<leftarrow> char_digit c; parse_digits (10 * acc + d) cs }"

text \<open>\<open>parse_uint bound\<close> is \<open>parse::<uN>()\<close> for the type whose values are below \<open>bound\<close>.\<close>

definition parse_uint :: "nat \<Rightarrow> string \<Rightarrow> nat option" where
  "parse_uint bound s =
     (let digits = (case s of c # cs \<Rightarrow> if c = CHR ''+'' then cs else s | [] \<Rightarrow> s)
      in if digits = [] then None
         else case parse_digits 0 digits of
             Some n \<Rightarrow> if n < bound then Some n else None
           | None \<Rightarrow> None)"

section \<open>Reading back what was printed\<close>

lemma of_char_digit_char: "d < 10 \<Longrightarrow> (of_char (digit_char d) :: nat) = 48 + d"
  by (simp add: digit_char_def)

lemma char_digit_digit_char [simp]: "d < 10 \<Longrightarrow> char_digit (digit_char d) = Some d"
  by (simp add: char_digit_def of_char_digit_char)

lemma parse_digits_append:
  "parse_digits acc (s @ t) = do { n \<leftarrow> parse_digits acc s; parse_digits n t }"
proof (induction s arbitrary: acc)
  case (Cons c s)
  then show ?case by (cases "char_digit c") simp_all
qed simp

lemma parse_digits_show_nat: "parse_digits 0 (show_nat n) = Some n"
proof (induction n rule: show_nat.induct)
  case (1 n)
  show ?case
  proof (cases "n < 10")
    case True
    then show ?thesis by (simp add: show_nat.simps)
  next
    case False
    with 1 show ?thesis by (subst show_nat.simps) (simp add: parse_digits_append)
  qed
qed

lemma digit_char_neq [simp]:
  assumes "d < 10"
  shows "digit_char d \<noteq> CHR ''+''" "digit_char d \<noteq> CHR ''.''" "digit_char d \<noteq> CHR '':''"
    "digit_char d \<noteq> CHR ''/''" "digit_char d \<noteq> CHR ''@''"
proof -
  have "digit_char d \<noteq> c" if "(of_char c :: nat) < 48 \<or> 57 < (of_char c :: nat)" for c
    using that of_char_digit_char [OF assms] assms by auto
  then show "digit_char d \<noteq> CHR ''+''" "digit_char d \<noteq> CHR ''.''" "digit_char d \<noteq> CHR '':''"
    "digit_char d \<noteq> CHR ''/''" "digit_char d \<noteq> CHR ''@''"
    by simp_all
qed

lemma set_show_nat: "c \<in> set (show_nat n) \<Longrightarrow> \<exists>d<10. c = digit_char d"
proof (induction n rule: show_nat.induct)
  case (1 n)
  from 1(2) have "n < 10 \<and> c = digit_char n \<or> \<not> n < 10 \<and> (c \<in> set (show_nat (n div 10)) \<or> c = digit_char (n mod 10))"
    by (subst (asm) show_nat.simps) (auto split: if_splits)
  moreover have "n mod 10 < 10" by simp
  ultimately show ?case using 1(1) by blast
qed

lemma show_nat_not_Nil [simp]: "show_nat n \<noteq> []"
  by (subst show_nat.simps) simp

lemma show_nat_no_char [simp]:
  "CHR ''+'' \<notin> set (show_nat n)" "CHR ''.'' \<notin> set (show_nat n)" "CHR '':'' \<notin> set (show_nat n)"
  "CHR ''/'' \<notin> set (show_nat n)" "CHR ''@'' \<notin> set (show_nat n)"
  using set_show_nat digit_char_neq by metis+

lemma parse_uint_show_nat [simp]:
  assumes "n < bound"
  shows "parse_uint bound (show_nat n) = Some n"
proof -
  obtain c cs where s: "show_nat n = c # cs" by (cases "show_nat n") simp_all
  moreover have "c \<noteq> CHR ''+''"
  proof
    assume "c = CHR ''+''"
    with s have "CHR ''+'' \<in> set (show_nat n)" by simp
    then show False by simp
  qed
  ultimately have "parse_uint bound (show_nat n) =
      (case parse_digits 0 (show_nat n) of Some n \<Rightarrow> if n < bound then Some n else None | None \<Rightarrow> None)"
    by (simp add: parse_uint_def Let_def)
  then show ?thesis using assms by (simp add: parse_digits_show_nat)
qed

lemma parse_uint_bound: "parse_uint bound s = Some n \<Longrightarrow> n < bound"
  by (auto simp: parse_uint_def Let_def split: if_splits option.splits)

lemma split_on_no_char [simp]: "c \<notin> set s \<Longrightarrow> split_on c s = [s]"
  by (induction s) auto

lemma split_on_append [simp]: "c \<notin> set s \<Longrightarrow> split_on c (s @ c # t) = s # split_on c t"
  by (induction s) auto

lemma split_on_not_Nil [simp]: "split_on c s \<noteq> []"
  by (induction s) (auto split: list.split)

lemma split_on_join:
  assumes "parts \<noteq> []" and "\<forall>p \<in> set parts. c \<notin> set p"
  shows "split_on c (join_with [c] parts) = parts"
  using assms by (induction "[c]" parts rule: join_with.induct) auto

lemma join_split: "join_with [c] (split_on c s) = s"
proof (induction s)
  case (Cons x s)
  then show ?case
    by (cases "split_on c s"; cases "x = c"; cases "tl (split_on c s)") auto
qed simp

end
