(* ===== verification/Versioned_Data.thy ===== *)
theory Versioned_Data
  imports Cryptde Text
begin

text \<open>
  Data that outlives a release: \<open>DataVersion\<close> of \<^verbatim>\<open>pulsemesh_lib/src/data_version.rs\<close>, the packed
  version of \<^verbatim>\<open>node/src/sub_lib/data_version.rs\<close>, and \<open>VersionedData\<close> with its table of migration steps,
  \<^verbatim>\<open>node/src/sub_lib/versioned_data.rs\<close>. A migration step is a function on bytes. The search for a
  chain of steps recurses through the table; it takes fuel, and \<open>None\<close> is running out of it.
\<close>

section \<open>Versions\<close>

datatype data_version = DataVersion (major: u16) (minor: u16)

definition FUTURE_VERSION :: data_version where
  "FUTURE_VERSION = DataVersion 0xFFFF 0xFFFF"

definition data_version_new :: "u16 \<Rightarrow> u16 \<Rightarrow> data_version run" where
  "data_version_new mj mn = (if mj > 4095 \<or> mn > 4095 then panic else ret (DataVersion mj mn))"

definition data_version_partial_cmp :: "data_version \<Rightarrow> data_version \<Rightarrow> ordering option" where
  "data_version_partial_cmp v w =
     (case partial_cmp (major v) (major w) of
        None \<Rightarrow> None
      | Some Equal \<Rightarrow> partial_cmp (minor v) (minor w)
      | Some cmp \<Rightarrow> Some cmp)"

text \<open>The operators \<open><\<close> and \<open>\<le>\<close> of Rust ask \<open>partial_cmp\<close>; the order that it gives is linear.\<close>

instantiation data_version :: linorder
begin

definition less_data_version :: "data_version \<Rightarrow> data_version \<Rightarrow> bool" where
  "less_data_version v w \<longleftrightarrow> data_version_partial_cmp v w = Some Less"

definition less_eq_data_version :: "data_version \<Rightarrow> data_version \<Rightarrow> bool" where
  "less_eq_data_version v w \<longleftrightarrow> data_version_partial_cmp v w = Some Less \<or> data_version_partial_cmp v w = Some Equal"

instance
  by standard (auto simp: less_data_version_def less_eq_data_version_def data_version_partial_cmp_def partial_cmp_def data_version.expand
    split: if_splits)

end

lemma less_data_version_iff: "v < w \<longleftrightarrow> major v < major w \<or> major v = major w \<and> minor v < minor (w :: data_version)"
  by (auto simp: less_data_version_def data_version_partial_cmp_def partial_cmp_def)

definition data_version_display :: "data_version \<Rightarrow> string" where
  "data_version_display v = (if v = FUTURE_VERSION then ''?.?''
     else show_nat (unat (major v)) @ ''.'' @ show_nat (unat (minor v)))"

definition data_version_from_str :: "string \<Rightarrow> (string + data_version) run" where
  "data_version_from_str s =
     (case those (map (parse_uint 65536) (split_on CHR ''.'' s)) of
        None \<Rightarrow> ret (Inl (''DataVersion syntax is <major>.<minor>, not '' @ s))
      | Some numbers \<Rightarrow>
          if length numbers \<noteq> 2 then ret (Inl (''DataVersion syntax is <major>.<minor>, not '' @ s))
          else do {
            v \<leftarrow> data_version_new (of_nat (numbers ! 0)) (of_nat (numbers ! 1));
            ret (Inr v) })"

text \<open>The packed form: two twelve-bit numbers in three bytes.\<close>

unbundle bit_operations_syntax

datatype packed_version = PackedVersion u8 u8 u8

datatype packed_version_error = MajorOutOfBounds | MinorOutOfBounds

definition packed_version_new :: "u16 \<Rightarrow> u16 \<Rightarrow> packed_version_error + packed_version" where
  "packed_version_new mj mn =
     (if mj \<ge> 4096 then Inl MajorOutOfBounds
      else if mn \<ge> 4096 then Inl MinorOutOfBounds
      else let a = drop_bit 4 (mj AND 0xFF0);
               b = push_bit 4 (mj AND 0x0F) OR drop_bit 8 (mn AND 0xF00);
               c = mn AND 0xFF
           in Inr (PackedVersion (ucast a) (ucast b) (ucast c)))"

fun packed_major :: "packed_version \<Rightarrow> u16" where
  "packed_major (PackedVersion a b c) = push_bit 4 (ucast a) OR drop_bit 4 (ucast b AND 0xF0)"

fun packed_minor :: "packed_version \<Rightarrow> u16" where
  "packed_minor (PackedVersion a b c) = push_bit 8 (ucast b AND 0x0F) OR ucast c"

section \<open>Migrations\<close>

datatype step_error =
    StepDeserializationError data_version data_version
  | SemanticError string

datatype migration_error =
    MigrationNotFound data_version data_version
  | MigrationFailed step_error

type_synonym migration_step = "bytes \<Rightarrow> step_error + bytes"
type_synonym migration_table = "(data_version, (data_version, migration_step) fmap) fmap"

record migrations =
  mig_current_version :: data_version
  mig_table :: migration_table

definition combo_step :: "migration_step list \<Rightarrow> migration_step" where
  "combo_step substeps data =
     fold (\<lambda>substep sofar. case sofar of Inl e \<Rightarrow> Inl e | Inr input \<Rightarrow> substep input) substeps (Inr data)"

definition migrations_new :: "data_version \<Rightarrow> migrations" where
  "migrations_new current_version = \<lparr>mig_current_version = current_version, mig_table = fmempty\<rparr>"

definition validate_step :: "migrations \<Rightarrow> data_version \<Rightarrow> data_version \<Rightarrow> unit run" where
  "validate_step M from to =
     (if to = FUTURE_VERSION then panic
      else if from = to then panic
      else if to > mig_current_version M then panic
      else if from \<noteq> FUTURE_VERSION then
        if from > to then panic
        else if major from \<noteq> major to then panic
        else if major from \<noteq> major (mig_current_version M) \<or> major to \<noteq> major (mig_current_version M) then panic
        else ret ()
      else ret ())"

definition insert_step :: "data_version \<Rightarrow> data_version \<Rightarrow> migration_step \<Rightarrow> migration_table \<Rightarrow> migration_table" where
  "insert_step from to step table = (case fmlookup table from of
      None \<Rightarrow> fmupd from (fmupd to step fmempty) table
    | Some from_map \<Rightarrow> fmupd from (fmupd to step from_map) table)"

definition add_step :: "data_version \<Rightarrow> data_version \<Rightarrow> migration_step \<Rightarrow> migrations \<Rightarrow> migrations run" where
  "add_step from to step M = do {
     validate_step M from to;
     ret (M\<lparr>mig_table := insert_step from to step (mig_table M)\<rparr>) }"

definition shortest :: "'a list list \<Rightarrow> 'a list" where
  "shortest elems = fold (\<lambda>elem sofar. if sofar = [] \<or> length elem < length sofar then elem else sofar) elems []"

text \<open>The order of the keys of a \<open>HashMap\<close> is an argument, \<open>iter\<close>.\<close>

fun find_migration_chain ::
  "nat \<Rightarrow> (data_version fset \<Rightarrow> data_version list) \<Rightarrow> migration_table \<Rightarrow> data_version \<Rightarrow> data_version \<Rightarrow>
     migration_step list run option" where
  "find_migration_chain 0 iter table from to = None"
| "find_migration_chain (Suc fuel) iter table from to =
     (case fmlookup table from of
        None \<Rightarrow> Some panic
      | Some from_map \<Rightarrow>
          map_option (\<lambda>results. do {
              elems \<leftarrow> those results;
              ret (shortest (filter (\<lambda>elem. elem \<noteq> []) elems)) })
            (those (map (\<lambda>next_key.
               let migration = the (fmlookup from_map next_key)
               in if next_key = to then Some (ret [migration])
                  else map_option (map_option (\<lambda>tail. if tail = [] then [] else migration # tail))
                    (find_migration_chain fuel iter table next_key to))
              (iter (fmdom from_map)))))"

text \<open>\<open>migration\<close> also stores the chain it finds as a step of its own.\<close>

definition migration ::
  "nat \<Rightarrow> (data_version fset \<Rightarrow> data_version list) \<Rightarrow> data_version \<Rightarrow> migrations \<Rightarrow>
     (migration_step option \<times> migrations) run option" where
  "migration fuel iter from_version M =
     (case fmlookup (mig_table M) from_version of
        None \<Rightarrow> Some (ret (None, M))
      | Some from_map \<Rightarrow>
          (case fmlookup from_map (mig_current_version M) of
             Some step \<Rightarrow> Some (ret (Some step, M))
           | None \<Rightarrow>
               map_option (map_option (\<lambda>elements.
                   if elements = [] then (None, M)
                   else (Some (combo_step elements),
                     M\<lparr>mig_table := insert_step from_version (mig_current_version M) (combo_step elements) (mig_table M)\<rparr>)))
                 (find_migration_chain fuel iter (mig_table M) from_version (mig_current_version M))))"

record versioned_data =
  vd_version :: data_version
  vd_bytes :: bytes

definition versioned_data_new :: "'a codec \<Rightarrow> migrations \<Rightarrow> 'a \<Rightarrow> versioned_data run" where
  "versioned_data_new S M data = do {
     b \<leftarrow> to_vec S data;
     ret \<lparr>vd_version = mig_current_version M, vd_bytes = b\<rparr> }"

definition vd_extract ::
  "nat \<Rightarrow> (data_version fset \<Rightarrow> data_version list) \<Rightarrow> 'a codec \<Rightarrow> versioned_data \<Rightarrow> migrations \<Rightarrow>
     ((migration_error + 'a) \<times> migrations) run option" where
  "vd_extract fuel iter S vd M =
     (let from_version = (if vd_version vd > mig_current_version M then FUTURE_VERSION else vd_version vd);
          deserialize = (\<lambda>b. case from_slice S b of
              None \<Rightarrow> Inl (MigrationFailed (StepDeserializationError (mig_current_version M) (mig_current_version M)))
            | Some item \<Rightarrow> Inr item)
      in if from_version = mig_current_version M then Some (ret (deserialize (vd_bytes vd), M))
         else map_option (map_option (\<lambda>(step_opt, M').
             case step_opt of
               None \<Rightarrow> (Inl (MigrationNotFound from_version (mig_current_version M)), M')
             | Some step \<Rightarrow>
                 (case step (vd_bytes vd) of
                    Inl e \<Rightarrow> (Inl (MigrationFailed e), M')
                  | Inr b \<Rightarrow> (deserialize b, M'))))
           (migration fuel iter from_version M))"

section \<open>Tables without cycles\<close>

text \<open>What \<open>validate_step\<close> guarantees of every entry of a table.\<close>

definition step_allowed :: "data_version \<Rightarrow> data_version \<Rightarrow> data_version \<Rightarrow> bool" where
  "step_allowed current from to \<longleftrightarrow> to \<noteq> FUTURE_VERSION \<and> to \<le> current \<and> (from = FUTURE_VERSION \<or> from < to)"

definition acyclic_table :: "migrations \<Rightarrow> bool" where
  "acyclic_table M \<longleftrightarrow> (\<forall>from from_map to step. fmlookup (mig_table M) from = Some from_map \<and>
     fmlookup from_map to = Some step \<longrightarrow> step_allowed (mig_current_version M) from to)"

lemma lookup_insert_step:
  "fmlookup (insert_step from to step table) f =
     (if f = from then Some (fmupd to step (case fmlookup table from of None \<Rightarrow> fmempty | Some m \<Rightarrow> m))
      else fmlookup table f)"
  by (auto simp: insert_step_def split: option.splits)

lemma acyclic_insert_step:
  assumes "acyclic_table M" and "step_allowed (mig_current_version M) from to"
  shows "acyclic_table (M\<lparr>mig_table := insert_step from to step (mig_table M)\<rparr>)"
  using assms unfolding acyclic_table_def
  by (auto simp: lookup_insert_step split: if_splits option.splits)

lemma acyclic_new: "acyclic_table (migrations_new v)"
  by (simp add: acyclic_table_def migrations_new_def)

lemma validate_step_allowed: "validate_step M from to = Some () \<Longrightarrow> step_allowed (mig_current_version M) from to"
  by (auto simp: validate_step_def step_allowed_def split: if_splits)

lemma acyclic_add_step:
  assumes "acyclic_table M" and "add_step from to step M = Some M'"
  shows "acyclic_table M' \<and> mig_current_version M' = mig_current_version M"
  using assms acyclic_insert_step validate_step_allowed by (auto simp: add_step_def split: bind_splits)

text \<open>How many versions the search can still go through from a version.\<close>

definition versions_ahead :: "migrations \<Rightarrow> data_version \<Rightarrow> nat" where
  "versions_ahead M v = (if v = FUTURE_VERSION then Suc (fcard (fmdom (mig_table M)))
     else card {w \<in> fset (fmdom (mig_table M)). v < w})"

lemma versions_ahead_less:
  assumes "acyclic_table M" and "fmlookup (mig_table M) from = Some from_map" and "fmlookup from_map to = Some step"
    and "fmlookup (mig_table M) to \<noteq> None"
  shows "versions_ahead M to < versions_ahead M from"
proof -
  let ?D = "fset (fmdom (mig_table M))"
  have ok: "to \<noteq> FUTURE_VERSION" "from = FUTURE_VERSION \<or> from < to"
    using assms(1-3) unfolding acyclic_table_def step_allowed_def by blast+
  have fin: "finite ?D" by simp
  show ?thesis
  proof (cases "from = FUTURE_VERSION")
    case True
    have "card {w \<in> ?D. to < w} \<le> card ?D" by (rule card_mono [OF fin]) auto
    with True ok show ?thesis by (simp add: versions_ahead_def fcard.rep_eq)
  next
    case False
    with ok have less: "from < to" by blast
    have "to \<in> ?D" using assms(4) by (auto intro: fmdomI)
    then have "{w \<in> ?D. to < w} \<subset> {w \<in> ?D. from < w}" using less by auto
    then have "card {w \<in> ?D. to < w} < card {w \<in> ?D. from < w}"
      by (intro psubset_card_mono) (use fin in auto)
    with False ok show ?thesis by (simp add: versions_ahead_def)
  qed
qed

lemma those_not_None: "those xs \<noteq> None \<longleftrightarrow> None \<notin> set xs"
  by (induction xs) (auto split: option.splits)

lemma find_migration_chain_ends:
  assumes "acyclic_table M" and "hash_iteration iter"
    and "fmlookup (mig_table M) from = None \<and> 0 < fuel \<or> Suc (versions_ahead M from) < fuel"
  shows "find_migration_chain fuel iter (mig_table M) from to \<noteq> None"
  using assms(3)
proof (induction fuel arbitrary: "from")
  case 0
  then show ?case by simp
next
  case (Suc fuel)
  show ?case
  proof (cases "fmlookup (mig_table M) from")
    case None
    then show ?thesis by simp
  next
    case (Some from_map)
    with Suc.prems have fuel: "versions_ahead M from < fuel" by simp
    have "find_migration_chain fuel iter (mig_table M) k to \<noteq> None" if "k \<in> set (iter (fmdom from_map))" for k
    proof (rule Suc.IH)
      from that have "k |\<in>| fmdom from_map"
        using hash_iteration.set_iter [OF assms(2)] by blast
      then obtain step where "fmlookup from_map k = Some step" by (meson fmdomE)
      with versions_ahead_less [OF assms(1) Some this] fuel
      show "fmlookup (mig_table M) k = None \<and> 0 < fuel \<or> Suc (versions_ahead M k) < fuel" by linarith
    qed
    then have "\<forall>k \<in> set (iter (fmdom from_map)). find_migration_chain fuel iter (mig_table M) k to \<noteq> None" by blast
    then have "None \<notin> set (map (\<lambda>next_key.
        let migration = the (fmlookup from_map next_key)
        in if next_key = to then Some (ret [migration])
           else map_option (map_option (\<lambda>tail. if tail = [] then [] else migration # tail))
             (find_migration_chain fuel iter (mig_table M) next_key to)) (iter (fmdom from_map)))"
      by (auto simp: Let_def split: if_splits)
    then show ?thesis using Some unfolding those_not_None [symmetric] by simp
  qed
qed

text \<open>The steps of a table along a path of versions.\<close>

inductive steps_along :: "migration_table \<Rightarrow> data_version \<Rightarrow> data_version \<Rightarrow> migration_step list \<Rightarrow> bool" where
  one_step: "fmlookup table from = Some m \<Longrightarrow> fmlookup m to = Some step \<Longrightarrow> steps_along table from to [step]"
| more_steps: "fmlookup table from = Some m \<Longrightarrow> fmlookup m mid = Some step \<Longrightarrow> steps_along table mid to steps \<Longrightarrow>
    steps_along table from to (step # steps)"

lemma shortest_in: "shortest elems \<noteq> [] \<Longrightarrow> shortest elems \<in> set elems"
proof -
  have "fold (\<lambda>elem sofar. if sofar = [] \<or> length elem < length sofar then elem else sofar) elems acc \<in> insert acc (set elems)" for acc
    by (induction elems arbitrary: acc) (auto split: if_splits)
  from this [of "[]"] show "shortest elems \<noteq> [] \<Longrightarrow> shortest elems \<in> set elems"
    unfolding shortest_def by auto
qed

lemma those_member: "those xs = Some ys \<Longrightarrow> y \<in> set ys \<Longrightarrow> Some y \<in> set xs"
  by (induction xs arbitrary: ys) (auto split: option.splits)

lemma find_migration_chain_sound:
  assumes "hash_iteration iter" and "find_migration_chain fuel iter table from to = Some (Some elems)" and "elems \<noteq> []"
  shows "steps_along table from to elems"
  using assms(2,3)
proof (induction fuel arbitrary: "from" elems)
  case 0
  then show ?case by simp
next
  case (Suc fuel)
  from Suc.prems(1) obtain m where m: "fmlookup table from = Some m" by (cases "fmlookup table from") simp_all
  let ?g = "\<lambda>k. let migration = the (fmlookup m k)
      in if k = to then Some (ret [migration])
         else map_option (map_option (\<lambda>tail. if tail = [] then [] else migration # tail))
           (find_migration_chain fuel iter table k to)"
  from Suc.prems(1) m obtain rs where rs: "those (map ?g (iter (fmdom m))) = Some rs"
    "do { es \<leftarrow> those rs; ret (shortest (filter (\<lambda>e. e \<noteq> []) es)) } = Some elems"
    by auto
  from rs(2) obtain es where es: "those rs = Some es" "elems = shortest (filter (\<lambda>e. e \<noteq> []) es)"
    by (auto split: bind_splits)
  from Suc.prems(2) have "elems \<in> set (filter (\<lambda>e. e \<noteq> []) es)"
    using shortest_in [of "filter (\<lambda>e. e \<noteq> []) es"] unfolding es(2) by blast
  then have "elems \<in> set es" by simp
  from those_member [OF rs(1) those_member [OF es(1) this]] obtain k where
    k: "k \<in> set (iter (fmdom m))" "?g k = Some (Some elems)" by auto
  from k(1) have "k |\<in>| fmdom m" using hash_iteration.set_iter [OF assms(1)] by blast
  then obtain step where step: "fmlookup m k = Some step" by (meson fmdomE)
  show ?case
  proof (cases "k = to")
    case True
    with k(2) step have "elems = [step]" by (simp add: Let_def)
    with True m step show ?thesis by (simp add: one_step)
  next
    case False
    with k(2) step Suc.prems(2) obtain tail where
      tail: "find_migration_chain fuel iter table k to = Some (Some tail)" "elems = step # tail" "tail \<noteq> []"
      by (auto simp: Let_def split: if_splits)
    from Suc.IH [OF tail(1,3)] m step show ?thesis unfolding tail(2) by (blast intro: more_steps)
  qed
qed

text \<open>How a table comes about: new, then any steps added, then used.\<close>

inductive built :: "data_version \<Rightarrow> migrations \<Rightarrow> bool" where
  built_new: "v \<noteq> FUTURE_VERSION \<Longrightarrow> built v (migrations_new v)"
| built_add: "built v M \<Longrightarrow> add_step from to step M = Some M' \<Longrightarrow> built v M'"
| built_use: "built v M \<Longrightarrow> hash_iteration iter \<Longrightarrow> migration fuel iter from M = Some (Some (step_opt, M')) \<Longrightarrow> built v M'"

lemma steps_along_step:
  assumes "steps_along table from to steps"
  shows "\<exists>m k step. fmlookup table from = Some m \<and> fmlookup m k = Some step"
  using assms by cases auto

lemma built_acyclic: "built v M \<Longrightarrow> acyclic_table M \<and> mig_current_version M = v \<and> v \<noteq> FUTURE_VERSION"
proof (induction rule: built.induct)
  case (built_new v)
  then show ?case by (simp add: acyclic_new) (simp add: migrations_new_def)
next
  case (built_add v M "from" to step M')
  then show ?case using acyclic_add_step by blast
next
  case (built_use v M iter fuel "from" step_opt M')
  show ?case
  proof (cases "M' = M")
    case True
    with built_use.IH show ?thesis by simp
  next
    case False
    from built_use.hyps(3) False obtain elems where e: "elems \<noteq> []"
      "find_migration_chain fuel iter (mig_table M) from (mig_current_version M) = Some (Some elems)"
      "M' = M\<lparr>mig_table := insert_step from (mig_current_version M) (combo_step elems) (mig_table M)\<rparr>"
      by (auto simp: migration_def split: option.splits if_splits)
    from steps_along_step [OF find_migration_chain_sound [OF built_use.hyps(2) e(2,1)]]
    obtain m k step where "fmlookup (mig_table M) from = Some m" "fmlookup m k = Some step" by blast
    with built_use.IH have "step_allowed v from k" unfolding acyclic_table_def by blast
    then have "step_allowed v from v" using built_use.IH by (auto simp: step_allowed_def)
    with built_use.IH show ?thesis unfolding e(3) by (simp add: acyclic_insert_step)
  qed
qed


section \<open>Packing\<close>

lemma version_masks:
  "(0xFF0 :: u16) = push_bit 4 (mask 8)" "(0x0F :: u16) = mask 4" "(0xF00 :: u16) = push_bit 8 (mask 4)"
  "(0xFF :: u16) = mask 8" "(0xF0 :: u16) = push_bit 4 (mask 4)"
  by (simp_all add: mask_eq_exp_minus_1 push_bit_eq_mult)


lemma component_small_iff: "(w :: u16) < 4096 \<longleftrightarrow> (\<forall>n. bit w n \<longrightarrow> n < 12)"
proof -
  have w: "w < 4096 \<longleftrightarrow> unat w < 2 ^ 12" by (simp add: word_less_nat_alt)
  also have "\<dots> \<longleftrightarrow> take_bit 12 (unat w) = unat w" by (rule take_bit_nat_eq_self_iff [symmetric])
  also have "\<dots> \<longleftrightarrow> (\<forall>n. bit w n \<longrightarrow> n < 12)"
    by (auto simp: bit_eq_iff bit_take_bit_iff bit_unsigned_iff)
  finally show ?thesis .
qed

lemma bit_shifted_back: "bit w n \<Longrightarrow> \<not> bit w (4 + (n - 4)) \<Longrightarrow> n < 4" "bit w n \<Longrightarrow> \<not> bit w (8 + (n - 8)) \<Longrightarrow> n < 8"
  by (cases "n < 4"; simp) (cases "n < 8"; simp)

lemma pack_unpack:
  assumes "mj < 4096" and "mn < 4096"
  shows "\<exists>p. packed_version_new mj mn = Inr p \<and> packed_major p = mj \<and> packed_minor p = mn"
proof -
  have mj: "\<And>n. bit mj n \<Longrightarrow> n < 12" and mn: "\<And>n. bit mn n \<Longrightarrow> n < 12" using assms by (auto simp: component_small_iff)
  let ?a = "ucast (drop_bit 4 (mj AND 0xFF0)) :: u8" and ?b = "ucast (push_bit 4 (mj AND 0x0F) OR drop_bit 8 (mn AND 0xF00)) :: u8"
    and ?c = "ucast (mn AND 0xFF) :: u8"
  have "packed_version_new mj mn = Inr (PackedVersion ?a ?b ?c)"
    using assms by (simp add: packed_version_new_def Let_def not_le)
  moreover have "packed_major (PackedVersion ?a ?b ?c) = mj"
    unfolding packed_major.simps version_masks
    by (rule bit_word_eqI) (auto simp: bit_simps bit_mask_iff dest: mj bit_shifted_back)
  moreover have "packed_minor (PackedVersion ?a ?b ?c) = mn"
    unfolding packed_minor.simps version_masks
    by (rule bit_word_eqI) (auto simp: bit_simps bit_mask_iff dest: mn bit_shifted_back)
  ultimately show ?thesis by blast
qed

lemma unpack_pack: "packed_version_new (packed_major p) (packed_minor p) = Inr p"
proof (cases p)
  case (PackedVersion a b c)
  have mj: "packed_major p < 4096" and mn: "packed_minor p < 4096"
    unfolding component_small_iff PackedVersion packed_major.simps packed_minor.simps version_masks
    by (auto simp: bit_simps bit_mask_iff dest: bit_imp_le_length)
  have "ucast (drop_bit 4 (packed_major p AND 0xFF0)) = a"
    unfolding PackedVersion packed_major.simps version_masks by (rule bit_word_eqI) (auto simp: bit_simps bit_mask_iff dest: bit_imp_le_length)
  moreover have "ucast (push_bit 4 (packed_major p AND 0x0F) OR drop_bit 8 (packed_minor p AND 0xF00)) = b"
    unfolding PackedVersion packed_major.simps packed_minor.simps version_masks
    by (rule bit_word_eqI) (auto simp: bit_simps bit_mask_iff dest: bit_imp_le_length)
  moreover have "ucast (packed_minor p AND 0xFF) = c"
    unfolding PackedVersion packed_minor.simps version_masks by (rule bit_word_eqI) (auto simp: bit_simps bit_mask_iff dest: bit_imp_le_length)
  ultimately show ?thesis using mj mn PackedVersion by (simp add: packed_version_new_def Let_def not_le del: packed_major.simps packed_minor.simps)
qed

section \<open>Properties\<close>

text \<open>A table for the instances: the current version is 0.3 and data from unknown versions is taken to it.\<close>

definition sample_step :: migration_step where
  "sample_step b = Inr (0 # b)"

definition sample_migrations :: migrations where
  "sample_migrations = \<lparr>mig_current_version = DataVersion 0 3,
     mig_table = fmap_of_list [(FUTURE_VERSION, fmap_of_list [(DataVersion 0 3, sample_step)])]\<rparr>"

definition sample_bytes_codec :: "bytes codec" where
  "sample_bytes_codec = \<lparr>to_vec = (\<lambda>b. Some (1 # b)), from_slice = (\<lambda>b. if b = [] then None else Some (tl b))\<rparr>"

lemma sample_migrations_built: "built (DataVersion 0 3) sample_migrations"
proof -
  have "add_step FUTURE_VERSION (DataVersion 0 3) sample_step (migrations_new (DataVersion 0 3)) = Some sample_migrations"
    by (simp add: add_step_def validate_step_def FUTURE_VERSION_def migrations_new_def insert_step_def sample_migrations_def
        less_data_version_iff fmap_of_list.rep_eq fmap_ext)
  moreover have "built (DataVersion 0 3) (migrations_new (DataVersion 0 3))"
    by (rule built_new) (simp add: FUTURE_VERSION_def)
  ultimately show ?thesis by (rule built_add [rotated])
qed

lemma migration_steps:
  assumes "hash_iteration iter" and "migration fuel iter from M = Some (Some (Some step, M'))"
  shows "\<exists>steps. steps_along (mig_table M) from (mig_current_version M) steps \<and> step = combo_step steps"
proof -
  from assms(2) obtain m where m: "fmlookup (mig_table M) from = Some m" by (auto simp: migration_def split: option.splits)
  show ?thesis
  proof (cases "fmlookup m (mig_current_version M)")
    case None
    with assms(2) m obtain elems where "elems \<noteq> []" "step = combo_step elems"
      "find_migration_chain fuel iter (mig_table M) from (mig_current_version M) = Some (Some elems)"
      by (auto simp: migration_def split: if_splits)
    with find_migration_chain_sound [OF assms(1)] show ?thesis by blast
  next
    case (Some s)
    with assms(2) m have "step = s" by (simp add: migration_def)
    moreover have "s = combo_step [s]" by (simp add: combo_step_def fun_eq_iff)
    ultimately show ?thesis using one_step [OF m Some] by blast
  qed
qed

text \<open>
  C14. A table of migrations never has a cycle, whatever steps are added and however it is used, so the search for
  a chain of steps always ends: reading versioned data needs no more recursion than the table has
  versions, plus three.
\<close>

theorem extract_terminates:
  assumes "built v M" and "hash_iteration iter" and "fcard (fmdom (mig_table M)) + 3 \<le> fuel"
  shows "acyclic_table M \<and> vd_extract fuel iter S vd M \<noteq> None"
proof -
  have M: "acyclic_table M" using built_acyclic [OF assms(1)] by blast
  have ahead: "versions_ahead M w \<le> Suc (fcard (fmdom (mig_table M)))" for w
  proof -
    have "card {u \<in> fset (fmdom (mig_table M)). w < u} \<le> card (fset (fmdom (mig_table M)))"
      by (rule card_mono) auto
    then show ?thesis by (simp add: versions_ahead_def fcard.rep_eq)
  qed
  have "Suc (versions_ahead M w) < fuel" for w
    using assms(3) ahead [of w] by linarith
  then have "find_migration_chain fuel iter (mig_table M) w (mig_current_version M) \<noteq> None" for w
    using find_migration_chain_ends [OF M assms(2)] by blast
  then have "migration fuel iter w M \<noteq> None" for w
    by (auto simp: migration_def split: option.split)
  then have "vd_extract fuel iter S vd M \<noteq> None"
    unfolding vd_extract_def Let_def by (auto simp del: not_None_eq)
  with M show ?thesis by blast
qed

text \<open>
  C26. Data that is read from another version has gone through a path of registered steps to the current
  version, in their order: data from a later version enters at the step for unknown versions.
  Data of the current version is read back as it was written.
\<close>

theorem extract_migrates:
  assumes "built v M" and "hash_iteration iter" and "vd_extract fuel iter S vd M = Some (Some (Inr x, M'))"
  shows "if vd_version vd = v then from_slice S (vd_bytes vd) = Some x
    else \<exists>steps b. steps_along (mig_table M) (if v < vd_version vd then FUTURE_VERSION else vd_version vd) v steps \<and>
      combo_step steps (vd_bytes vd) = Inr b \<and> from_slice S b = Some x"
proof -
  have v: "mig_current_version M = v" "v \<noteq> FUTURE_VERSION" using built_acyclic [OF assms(1)] by blast+
  define w where "w = (if v < vd_version vd then FUTURE_VERSION else vd_version vd)"
  show ?thesis
  proof (cases "vd_version vd = v")
    case True
    with assms(3) show ?thesis by (simp add: vd_extract_def v Let_def split: option.splits)
  next
    case False
    then have w: "w \<noteq> v" using v(2) by (simp add: w_def)
    define finish where "finish = (\<lambda>b. case from_slice S b of
        None \<Rightarrow> Inl (MigrationFailed (StepDeserializationError v v)) | Some item \<Rightarrow> Inr item)"
    from assms(3) w obtain step_opt M1 where m: "migration fuel iter w M = Some (Some (step_opt, M1))"
      and r: "(case step_opt of None \<Rightarrow> (Inl (MigrationNotFound w v), M1)
        | Some step \<Rightarrow> (case step (vd_bytes vd) of Inl e \<Rightarrow> (Inl (MigrationFailed e), M1) | Inr b \<Rightarrow> (finish b, M1))) =
        (Inr x, M')"
      unfolding vd_extract_def v w_def [symmetric] Let_def finish_def [symmetric] by auto
    from r obtain step where step: "step_opt = Some step" by (cases step_opt) simp_all
    from r step obtain b where b: "step (vd_bytes vd) = Inr b" "finish b = Inr x" "M1 = M'"
      by (cases "step (vd_bytes vd)") simp_all
    from b(2) have "from_slice S b = Some x" by (simp add: finish_def split: option.splits)
    with migration_steps [OF assms(2) m [unfolded step]] b(1) have "\<exists>steps b. steps_along (mig_table M) w v steps \<and>
        combo_step steps (vd_bytes vd) = Inr b \<and> from_slice S b = Some x"
      unfolding v by blast
    with False show ?thesis unfolding w_def by (simp only: if_False)
  qed
qed

theorem extract_migrates_witness:
  "\<exists>steps b. steps_along (mig_table sample_migrations) FUTURE_VERSION (DataVersion 0 3) steps \<and>
      combo_step steps [7] = Inr b \<and> from_slice sample_bytes_codec b = Some [7]"
proof -
  have "map_option (map_option fst) (vd_extract 4 sorted_list_of_fset sample_bytes_codec
      \<lparr>vd_version = DataVersion 0 5, vd_bytes = [7]\<rparr> sample_migrations) = Some (Some (Inr [7]))"
    by code_simp
  then obtain M' where "vd_extract 4 sorted_list_of_fset sample_bytes_codec
      \<lparr>vd_version = DataVersion 0 5, vd_bytes = [7]\<rparr> sample_migrations = Some (Some (Inr [7], M'))" by auto
  from extract_migrates [OF sample_migrations_built ascending.hash_iteration_axioms this] show ?thesis
    by (simp add: less_data_version_iff)
qed

theorem extract_terminates_witness:
  "vd_extract 4 sorted_list_of_fset sample_bytes_codec \<lparr>vd_version = DataVersion 0 5, vd_bytes = [7]\<rparr> sample_migrations \<noteq> None"
proof -
  have "built (DataVersion 0 3) sample_migrations" by (rule sample_migrations_built)
  moreover have "fcard (fmdom (mig_table sample_migrations)) + 3 \<le> 4" by code_simp
  ultimately show ?thesis
    using extract_terminates [of "DataVersion 0 3" sample_migrations sorted_list_of_fset 4] ascending.hash_iteration_axioms
    by blast
qed

text \<open>
  A registered step that ends in a version with no further step makes the reader panic: with one
  step from unknown versions to 0.1 and the current version 0.3, data from version 0.4 is not refused
  with \<open>MigrationNotFound\<close>; the search looks up the steps from 0.1 and panics when there are none.
\<close>

theorem dead_end_migration_panics:
  "case add_step FUTURE_VERSION (DataVersion 0 1) sample_step (migrations_new (DataVersion 0 3)) of
     None \<Rightarrow> False
   | Some M \<Rightarrow> (case vd_extract 10 sorted_list_of_fset sample_bytes_codec \<lparr>vd_version = DataVersion 0 4, vd_bytes = [7]\<rparr> M of
       None \<Rightarrow> False
     | Some result \<Rightarrow> \<not> runs result)"
  by code_simp

text \<open>
  Packing is lossless: two components below 4096 are packed into three bytes from which both are
  read back, every three bytes are the packing of what is read from them, and larger
  components are refused.
\<close>

theorem packed_version_roundtrip:
  "(mj < 4096 \<and> mn < 4096 \<longrightarrow>
     (\<exists>p. packed_version_new mj mn = Inr p \<and> packed_major p = mj \<and> packed_minor p = mn)) \<and>
   packed_version_new (packed_major p) (packed_minor p) = Inr p \<and>
   (4096 \<le> mj \<longrightarrow> packed_version_new mj mn = Inl MajorOutOfBounds) \<and>
   (mj < 4096 \<and> 4096 \<le> mn \<longrightarrow> packed_version_new mj mn = Inl MinorOutOfBounds)"
  using pack_unpack [of mj mn] unpack_pack [of p] by (auto simp: packed_version_new_def not_le)

theorem packed_version_roundtrip_witness:
  "\<exists>p. packed_version_new 0x112 0x233 = Inr p \<and> packed_major p = 0x112 \<and> packed_minor p = 0x233"
proof -
  have "(0x112 :: u16) < 4096" "(0x233 :: u16) < 4096" by code_simp+
  then show ?thesis using packed_version_roundtrip by blast
qed

text \<open>
  C27. A version that can be constructed is read back from its text.
\<close>

theorem data_version_text_roundtrip:
  assumes "data_version_new mj mn = Some v"
  shows "data_version_from_str (data_version_display v) = Some (Inr v)"
proof -
  have v: "v = DataVersion mj mn" "mj \<le> 4095" "mn \<le> 4095"
    using assms by (auto simp: data_version_new_def split: if_splits)
  then have "v \<noteq> FUTURE_VERSION" by (auto simp: FUTURE_VERSION_def)
  moreover have "unat mj < 65536" "unat mn < 65536"
    using unsigned_less [of mj] unsigned_less [of mn] by simp_all
  ultimately show ?thesis using v
    by (simp add: data_version_display_def data_version_from_str_def data_version_new_def not_less)
qed

theorem data_version_text_roundtrip_witness:
  "data_version_from_str ''12.7'' = Some (Inr (DataVersion 12 7))"
proof -
  have "data_version_new 12 7 = Some (DataVersion 12 7)" by code_simp
  moreover have "data_version_display (DataVersion 12 7) = ''12.7''" by code_simp
  ultimately show ?thesis using data_version_text_roundtrip [of 12 7 "DataVersion 12 7"] by simp
qed

text \<open>
  A component out of range in a text makes the parser panic, although it returns a \<open>Result\<close>.
\<close>

theorem data_version_out_of_range_panics:
  "data_version_from_str ''4096.0'' = panic"
proof -
  have "parse_uint 65536 ''4096'' = Some 4096" "parse_uint 65536 ''0'' = Some 0"
    by (simp_all add: parse_uint_def char_digit_def)
  then show ?thesis by (simp add: data_version_from_str_def data_version_new_def)
qed

end
