(* ===== verification/Hopper.thy ===== *)
theory Hopper
  imports Route Versioned_Data Gossip
begin

text \<open>
  How packages travel: the packages of \<^verbatim>\<open>node/src/sub_lib/hopper.rs\<close>, \<open>LiveCoresPackage\<close>,
  \<open>ConsumingService\<close> and \<open>RoutingService\<close> of \<^verbatim>\<open>node/src/hopper/\<close>. The messages that the services send to other
  actors are their results. CBOR, the wallets' cryptography and the migration of versioned payloads
  are fields of one record; a migrated payload is of an arbitrary type.
\<close>

section \<open>Packages\<close>

datatype message_type =
    ClientRequest versioned_data
  | ClientResponse versioned_data
  | GossipMessage versioned_data
  | GossipFailureMessage versioned_data
  | DnsResolveFailed versioned_data

record no_lookup_incipient_cores_package =
  nlp_public_key :: public_key
  nlp_node_addr :: node_addr
  nlp_payload :: bytes

record incipient_cores_package =
  icp_route :: route
  icp_payload :: bytes

record 'p expired_cores_package =
  ecp_immediate_neighbor :: socket_addr
  ecp_paying_wallet :: "wallet option"
  ecp_remaining_route :: route
  ecp_payload :: 'p
  ecp_payload_len :: nat

record live_cores_package =
  lcp_version :: packed_version
  lcp_route :: route
  lcp_payload :: bytes

record 'p cores_world =
  cw_hop :: "live_hop codec"
  cw_id :: "u32 codec"
  cw_message :: "message_type codec"
  cw_lcp :: "live_cores_package codec"
  cw_wallet_ops :: wallet_ops
  cw_extract :: "message_type \<Rightarrow> migration_error + 'p"
  cw_now :: int

definition no_lookup_new ::
  "'p cores_world \<Rightarrow> cryptde \<Rightarrow> public_key \<Rightarrow> node_addr \<Rightarrow> message_type \<Rightarrow>
     codex_error + no_lookup_incipient_cores_package" where
  "no_lookup_new Q cryptde k na payload = (case encodex (cw_message Q) cryptde k payload of
      Inr p \<Rightarrow> Inr \<lparr>nlp_public_key = k, nlp_node_addr = node_addr_clone na, nlp_payload = p\<rparr>
    | Inl e \<Rightarrow> Inl e)"

definition incipient_new ::
  "'p cores_world \<Rightarrow> cryptde \<Rightarrow> route \<Rightarrow> message_type \<Rightarrow> public_key \<Rightarrow> codex_error + incipient_cores_package" where
  "incipient_new Q cryptde route payload payload_destination_key =
     (case encodex (cw_message Q) cryptde payload_destination_key payload of
        Inr p \<Rightarrow> Inr \<lparr>icp_route = route, icp_payload = p\<rparr>
      | Inl e \<Rightarrow> Inl e)"

definition lcp_version_current :: "packed_version run" where
  "lcp_version_current = (case packed_version_new 0 0 of Inr v \<Rightarrow> ret v | Inl _ \<Rightarrow> panic)"

definition lcp_new :: "route \<Rightarrow> bytes \<Rightarrow> live_cores_package run" where
  "lcp_new route payload = do {
     v \<leftarrow> lcp_version_current;
     ret \<lparr>lcp_version = v, lcp_route = route, lcp_payload = payload\<rparr> }"

definition into_next_live ::
  "'p cores_world \<Rightarrow> cryptde \<Rightarrow> live_cores_package \<Rightarrow> (codex_error + live_hop \<times> live_cores_package) run" where
  "into_next_live Q cryptde lcp = do {
     (res, route) \<leftarrow> shift (cw_hop Q) cryptde (lcp_route lcp);
     (case res of
        Inl e \<Rightarrow> ret (Inl e)
      | Inr hop \<Rightarrow> do {
          next_live \<leftarrow> lcp_new route (lcp_payload lcp);
          ret (Inr (hop, next_live)) }) }"

definition from_no_lookup_incipient ::
  "'p cores_world \<Rightarrow> no_lookup_incipient_cores_package \<Rightarrow> cryptde \<Rightarrow>
     (codex_error + live_cores_package \<times> public_key) run" where
  "from_no_lookup_incipient Q nlp cryptde = do {
     route_res \<leftarrow> single_hop (cw_hop Q) (cw_id Q) (cw_wallet_ops Q) (nlp_public_key nlp) cryptde;
     (case route_res of
        Inl e \<Rightarrow> ret (Inl e)
      | Inr route \<Rightarrow> do {
          (res, route') \<leftarrow> shift (cw_hop Q) cryptde route;
          (case res of
             Inl _ \<Rightarrow> panic
           | Inr _ \<Rightarrow> do {
               lcp \<leftarrow> lcp_new route' (nlp_payload nlp);
               ret (Inr (lcp, nlp_public_key nlp)) }) }) }"

definition from_incipient ::
  "'p cores_world \<Rightarrow> incipient_cores_package \<Rightarrow> cryptde \<Rightarrow> (codex_error + live_cores_package \<times> live_hop) run" where
  "from_incipient Q icp cryptde = do {
     (res, route) \<leftarrow> shift (cw_hop Q) cryptde (icp_route icp);
     (case res of
        Inl e \<Rightarrow> ret (Inl e)
      | Inr hop \<Rightarrow> do {
          lcp \<leftarrow> lcp_new route (icp_payload icp);
          ret (Inr (lcp, hop)) }) }"

definition to_expired ::
  "'p cores_world \<Rightarrow> live_cores_package \<Rightarrow> socket_addr \<Rightarrow> cryptde \<Rightarrow> cryptde \<Rightarrow>
     (codex_error + message_type expired_cores_package) run" where
  "to_expired Q lcp immediate_neighbor_addr main_cryptde payload_cryptde = do {
     top \<leftarrow> next_hop (cw_hop Q) main_cryptde (lcp_route lcp);
     (case top of
        Inl e \<Rightarrow> ret (Inl e)
      | Inr top_hop \<Rightarrow> do {
          decoded \<leftarrow> decodex (cw_message Q) payload_cryptde (lcp_payload lcp);
          ret (case decoded of
             Inl e \<Rightarrow> Inl e
           | Inr decoded_payload \<Rightarrow> Inr \<lparr>ecp_immediate_neighbor = immediate_neighbor_addr,
               ecp_paying_wallet = map_option payer_wallet (lh_payer top_hop),
               ecp_remaining_route = lcp_route lcp, ecp_payload = decoded_payload,
               ecp_payload_len = length (lcp_payload lcp)\<rparr>) }) }"

section \<open>Messages of the services\<close>

datatype endpoint = KeyEndpoint public_key | SocketEndpoint socket_addr

record inbound_client_data =
  icd_timestamp :: int
  icd_client_addr :: socket_addr
  icd_reception_port_opt :: "u16 option"
  icd_last_data :: bool
  icd_is_clandestine :: bool
  icd_sequence_number_opt :: "u64 option"
  icd_data :: bytes

record transmit_data_msg =
  tdm_endpoint :: endpoint
  tdm_last_data :: bool
  tdm_sequence_number_opt :: "u64 option"
  tdm_data :: bytes

record report_routing_service_provided =
  rrs_timestamp :: int
  rrs_paying_wallet :: wallet
  rrs_payload_size :: nat
  rrs_service_rate :: u64
  rrs_byte_rate :: u64

datatype 'p hopper_output =
    ToDispatcher transmit_data_msg
  | ToHopper inbound_client_data
  | ToAccountant report_routing_service_provided
  | ToProxyClient "'p expired_cores_package"
  | ToProxyServer "'p expired_cores_package"
  | DnsFailureToProxyServer "'p expired_cores_package"
  | ToNeighborhood "'p expired_cores_package"
  | GossipFailureToNeighborhood "'p expired_cores_package"

record hopper =
  hp_main :: cryptde
  hp_alias :: cryptde
  hp_digest :: bytes
  hp_per_routing_service :: u64
  hp_per_routing_byte :: u64
  hp_is_decentralized :: bool
  hp_proxy_client_running :: bool
  hp_ban_cache :: "wallet fset"

section \<open>ConsumingService\<close>

definition zero_hop :: "'p cores_world \<Rightarrow> bytes \<Rightarrow> 'p hopper_output list" where
  "zero_hop Q encrypted_package =
     [ToHopper \<lparr>icd_timestamp = cw_now Q, icd_client_addr = \<lparr>sa_ip = V4 0x7F000001, sa_port = 0\<rparr>,
        icd_reception_port_opt = None, icd_last_data = False, icd_is_clandestine = True,
        icd_sequence_number_opt = None, icd_data = encrypted_package\<rparr>]"

definition launch_lcp :: "bytes \<Rightarrow> endpoint \<Rightarrow> 'p hopper_output list" where
  "launch_lcp encrypted_package next_stop =
     [ToDispatcher \<lparr>tdm_endpoint = next_stop, tdm_last_data = False, tdm_sequence_number_opt = None,
        tdm_data = encrypted_package\<rparr>]"

definition consume_no_lookup ::
  "'p cores_world \<Rightarrow> cryptde \<Rightarrow> no_lookup_incipient_cores_package \<Rightarrow> 'p hopper_output list run" where
  "consume_no_lookup Q cryptde nlp = do {
     res \<leftarrow> from_no_lookup_incipient Q nlp cryptde;
     (case res of
        Inl _ \<Rightarrow> ret []
      | Inr (live_package, _) \<Rightarrow>
          (case encodex (cw_lcp Q) cryptde (nlp_public_key nlp) live_package of
             Inl _ \<Rightarrow> ret []
           | Inr encrypted_package \<Rightarrow>
               (case socket_addrs_of_node_addr (node_addr_clone (nlp_node_addr nlp)) of
                  [] \<Rightarrow> panic
                | socket_addr # _ \<Rightarrow> ret (launch_lcp encrypted_package (SocketEndpoint socket_addr))))) }"

definition consume ::
  "'p cores_world \<Rightarrow> cryptde \<Rightarrow> incipient_cores_package \<Rightarrow> 'p hopper_output list run" where
  "consume Q cryptde icp = do {
     res \<leftarrow> from_incipient Q icp cryptde;
     ret (case res of
        Inl _ \<Rightarrow> []
      | Inr (live_package, hop) \<Rightarrow>
          (case encodex (cw_lcp Q) cryptde (lh_public_key hop) live_package of
             Inl _ \<Rightarrow> []
           | Inr encrypted_package \<Rightarrow>
               if lh_public_key hop = cd_public_key cryptde then zero_hop Q encrypted_package
               else launch_lcp encrypted_package (KeyEndpoint (lh_public_key hop)))) }"

section \<open>RoutingService\<close>

definition is_destined_for_here :: "hopper \<Rightarrow> live_hop \<Rightarrow> bool" where
  "is_destined_for_here hp hop \<longleftrightarrow> lh_public_key hop = cd_public_key (hp_main hp)"

definition to_transmit_data_msg ::
  "'p cores_world \<Rightarrow> hopper \<Rightarrow> live_cores_package \<Rightarrow> bool \<Rightarrow> (codex_error + transmit_data_msg) run" where
  "to_transmit_data_msg Q hp live_package last_data = do {
     res \<leftarrow> into_next_live Q (hp_main hp) live_package;
     ret (case res of
        Inl e \<Rightarrow> Inl e
      | Inr (hop, next_live_package) \<Rightarrow>
          (case encodex (cw_lcp Q) (hp_main hp) (lh_public_key hop) next_live_package of
             Inl e \<Rightarrow> Inl e
           | Inr enc \<Rightarrow> Inr \<lparr>tdm_endpoint = KeyEndpoint (lh_public_key hop), tdm_last_data = last_data,
               tdm_sequence_number_opt = None, tdm_data = enc\<rparr>)) }"

definition route_data_externally ::
  "'p cores_world \<Rightarrow> hopper \<Rightarrow> live_cores_package \<Rightarrow> payer option \<Rightarrow> bool \<Rightarrow> 'p hopper_output list run" where
  "route_data_externally Q hp live_package payer_opt last_data =
     (case payer_opt of
        None \<Rightarrow> ret []
      | Some payer \<Rightarrow> do {
          owns \<leftarrow> owns_secret_key (cw_wallet_ops Q) payer (hp_digest hp);
          if \<not> owns then ret []
          else do {
           delinquent \<leftarrow> is_delinquent (cw_wallet_ops Q) (hp_ban_cache hp) payer;
           if delinquent then ret []
           else do {
            transmit_msg \<leftarrow> to_transmit_data_msg Q hp live_package last_data;
            let report = ToAccountant \<lparr>rrs_timestamp = cw_now Q, rrs_paying_wallet = payer_wallet payer,
                  rrs_payload_size = length (lcp_payload live_package),
                  rrs_service_rate = hp_per_routing_service hp, rrs_byte_rate = hp_per_routing_byte hp\<rparr>
            in ret (case transmit_msg of
                Inl _ \<Rightarrow> [report]
              | Inr m \<Rightarrow> [report, ToDispatcher m]) } } })"

definition route_data_around_again ::
  "'p cores_world \<Rightarrow> hopper \<Rightarrow> live_cores_package \<Rightarrow> inbound_client_data \<Rightarrow> 'p hopper_output list run" where
  "route_data_around_again Q hp live_package ibcd_but_data = do {
     res \<leftarrow> into_next_live Q (hp_main hp) live_package;
     (case res of
        Inl _ \<Rightarrow> ret []
      | Inr (_, next_lcp) \<Rightarrow>
          (case encodex (cw_lcp Q) (hp_main hp) (cd_public_key (hp_main hp)) next_lcp of
             Inl _ \<Rightarrow> panic
           | Inr payload \<Rightarrow> ret [ToHopper (ibcd_but_data\<lparr>icd_data := payload\<rparr>)])) }"

definition with_payload :: "message_type expired_cores_package \<Rightarrow> 'p \<Rightarrow> 'p expired_cores_package" where
  "with_payload ecp p = \<lparr>ecp_immediate_neighbor = ecp_immediate_neighbor ecp, ecp_paying_wallet = ecp_paying_wallet ecp,
     ecp_remaining_route = ecp_remaining_route ecp, ecp_payload = p, ecp_payload_len = ecp_payload_len ecp\<rparr>"

definition deliver_migrated ::
  "'p cores_world \<Rightarrow> message_type expired_cores_package \<Rightarrow> ('p expired_cores_package \<Rightarrow> 'p hopper_output) \<Rightarrow>
     'p hopper_output list" where
  "deliver_migrated Q ecp recipient = (case cw_extract Q (ecp_payload ecp) of
      Inl _ \<Rightarrow> []
    | Inr p \<Rightarrow> [recipient (with_payload ecp p)])"

definition route_expired_package ::
  "'p cores_world \<Rightarrow> hopper \<Rightarrow> component \<Rightarrow> message_type expired_cores_package \<Rightarrow> bool \<Rightarrow> 'p hopper_output list" where
  "route_expired_package Q hp component ecp owns =
     (case (component, ecp_payload ecp) of
        (ProxyClientComponent, ClientRequest _) \<Rightarrow>
          if \<not> hp_is_decentralized hp \<or> owns then
            if hp_proxy_client_running hp then deliver_migrated Q ecp ToProxyClient else []
          else []
      | (ProxyServerComponent, ClientResponse _) \<Rightarrow> deliver_migrated Q ecp ToProxyServer
      | (ProxyServerComponent, DnsResolveFailed _) \<Rightarrow> deliver_migrated Q ecp DnsFailureToProxyServer
      | (NeighborhoodComponent, GossipMessage _) \<Rightarrow> deliver_migrated Q ecp ToNeighborhood
      | (NeighborhoodComponent, GossipFailureMessage _) \<Rightarrow> deliver_migrated Q ecp GossipFailureToNeighborhood
      | _ \<Rightarrow> [])"

definition extract_expired_package ::
  "'p cores_world \<Rightarrow> hopper \<Rightarrow> socket_addr \<Rightarrow> live_cores_package \<Rightarrow> component \<Rightarrow>
     message_type expired_cores_package option run" where
  "extract_expired_package Q hp immediate_neighbor_addr live_package component = do {
     let payload_cryptde = (if component = ProxyServerComponent then hp_alias hp else hp_main hp)
     in do {
       res \<leftarrow> to_expired Q live_package immediate_neighbor_addr (hp_main hp) payload_cryptde;
       ret (case res of Inr pkg \<Rightarrow> Some pkg | Inl _ \<Rightarrow> None) } }"

definition route_data_to_peripheral_component ::
  "'p cores_world \<Rightarrow> hopper \<Rightarrow> component \<Rightarrow> socket_addr \<Rightarrow> live_cores_package \<Rightarrow> bool \<Rightarrow> 'p hopper_output list run" where
  "route_data_to_peripheral_component Q hp component immediate_neighbor_addr live_package owns = do {
     expired \<leftarrow> extract_expired_package Q hp immediate_neighbor_addr live_package component;
     ret (case expired of
        None \<Rightarrow> []
      | Some expired_package \<Rightarrow> route_expired_package Q hp component expired_package owns) }"

definition route_data_internally ::
  "'p cores_world \<Rightarrow> hopper \<Rightarrow> live_hop \<Rightarrow> socket_addr \<Rightarrow> live_cores_package \<Rightarrow> inbound_client_data \<Rightarrow>
     'p hopper_output list run" where
  "route_data_internally Q hp hop immediate_neighbor_addr live_package ibcd_but_data =
     (if lh_component hop = HopperComponent then route_data_around_again Q hp live_package ibcd_but_data
      else do {
        delinquent \<leftarrow> (case lh_payer hop of
           None \<Rightarrow> ret False
         | Some payer \<Rightarrow> is_delinquent (cw_wallet_ops Q) (hp_ban_cache hp) payer);
        if delinquent then ret []
        else do {
          owns \<leftarrow> payer_owns_secret_key (cw_wallet_ops Q) hop (hp_digest hp);
          route_data_to_peripheral_component Q hp (lh_component hop) immediate_neighbor_addr live_package owns } })"

definition route_data ::
  "'p cores_world \<Rightarrow> hopper \<Rightarrow> socket_addr \<Rightarrow> live_hop \<Rightarrow> live_cores_package \<Rightarrow> bool \<Rightarrow> inbound_client_data \<Rightarrow>
     'p hopper_output list run" where
  "route_data Q hp sender_addr hop live_package last_data ibcd_but_data =
     (if lh_component hop = HopperComponent \<and> \<not> is_destined_for_here hp hop
      then route_data_externally Q hp live_package (lh_payer hop) last_data
      else route_data_internally Q hp hop sender_addr live_package ibcd_but_data)"

definition clone_but_data :: "'p cores_world \<Rightarrow> inbound_client_data \<Rightarrow> inbound_client_data" where
  "clone_but_data Q ibcd = ibcd\<lparr>icd_timestamp := cw_now Q, icd_data := []\<rparr>"

definition route_inbound :: "'p cores_world \<Rightarrow> hopper \<Rightarrow> inbound_client_data \<Rightarrow> 'p hopper_output list run" where
  "route_inbound Q hp ibcd = do {
     decoded \<leftarrow> decodex (cw_lcp Q) (hp_main hp) (icd_data ibcd);
     (case decoded of
        Inl _ \<Rightarrow> ret []
      | Inr live_package \<Rightarrow> do {
          hop \<leftarrow> next_hop (cw_hop Q) (hp_main hp) (lcp_route live_package);
          (case hop of
             Inl _ \<Rightarrow> ret []
           | Inr hop \<Rightarrow> route_data Q hp (icd_client_addr ibcd) hop live_package (icd_last_data ibcd) (clone_but_data Q ibcd)) }) }"

end
