(* ===== verification/Neighborhood_Actor.thy ===== *)
theory Neighborhood_Actor
  imports Routing Connection_Status Hopper "HOL-Library.Char_ord"
begin

text \<open>
  The Neighborhood actor: \<open>Neighborhood\<close> of \<^verbatim>\<open>node/src/neighborhood/mod.rs\<close>. A handler takes the state of the
  actor and a message and returns the messages it sends and its new state. The Gossip acceptor's
  memory of passes and the producer's time of the last check for dead Nodes are part of the state.
  CBOR, the keys' text form and the answers of the configuration database are fields of one record, together
  with the environment of the Node records and the encryption that routes use. Log messages are
  not modelled, nor is the dot graph that the user interface can ask for.
\<close>

section \<open>State and messages\<close>

definition DEFAULT_MIN_HOPS :: hops where
  "DEFAULT_MIN_HOPS = ThreeHops"

definition RESPONSE_UNDESIRABILITY_FACTOR :: u64 where
  "RESPONSE_UNDESIRABILITY_FACTOR = 1000"

definition ZERO_UNDESIRABILITY :: u32 where
  "ZERO_UNDESIRABILITY = 0"

definition GOSSIP_CURRENT_VERSION :: data_version where
  "GOSSIP_CURRENT_VERSION = DataVersion 0 1"

definition GOSSIP_FAILURE_CURRENT_VERSION :: data_version where
  "GOSSIP_FAILURE_CURRENT_VERSION = DataVersion 0 1"

record 'p neighborhood_world =
  nw_env :: node_env
  nw_cores :: "'p cores_world"
  nw_cryptde :: cryptde
  nw_gossip :: "gossip_0v1 codec"
  nw_gossip_step :: migration_step
  nw_gossip_failure :: "gossip_failure codec"
  nw_gossip_failure_step :: migration_step
  nw_descriptor_key :: "public_key \<Rightarrow> public_key option"
  nw_database_opens :: bool
  nw_persisted_min_hops :: "hops option"

record neighborhood =
  nb_database :: neighborhood_database
  nb_consuming_wallet_opt :: "wallet option"
  nb_mode :: neighborhood_mode_light
  nb_min_hops :: hops
  nb_db_patch_size :: u8
  nb_next_return_route_id :: u32
  nb_overall_connection_status :: overall_connection_status
  nb_chain :: chain
  nb_database_connected :: bool
  nb_db_password_opt :: "string option"
  nb_user_exit_preferences :: user_exit_preferences
  nb_bound :: bool
  nb_last_dead_node_check :: u32
  nb_pass_targets :: pass_targets

datatype expected_services =
    OneWayServices "expected_service list"
  | RoundTripServices "expected_service list" "expected_service list" u32

record route_query_response =
  rqr_route :: route
  rqr_expected_services :: expected_services

record node_query_response_metadata =
  nqr_public_key :: public_key
  nqr_node_addr_opt :: "node_addr option"
  nqr_rate_pack :: rate_pack

datatype node_query = QueryIpAddress ip_addr | QueryPublicKey public_key

record country_groups =
  cg_country_codes :: "country_code list"
  cg_priority :: u64

record ui_set_exit_location_request =
  ser_fallback_routing :: bool
  ser_exit_locations :: "country_groups list"
  ser_show_countries :: bool

record ui_set_exit_location_response =
  sel_fallback_routing :: bool
  sel_exit_country_selection :: "exit_location list"
  sel_exit_countries :: "country_code list option"
  sel_missing_countries :: "country_code list"

datatype ui_body =
    ExitLocationSet ui_set_exit_location_response
  | ExitCountryMissingCountriesError string
  | ConnectionStatus ui_connection_stage

datatype config_change =
    UpdateWallets wallet
  | UpdateMinHops hops
  | UpdatePassword string

datatype neighborhood_output =
    ToHopperClient incipient_cores_package
  | ToHopperNoLookup no_lookup_incipient_cores_package
  | BroadcastStage ui_connection_stage
  | ToUi u64 u64 ui_body
  | StartAccountant
  | AskAboutDebutGossipLater connection_progress
  | ToDispatcherStreams "node_query_response_metadata option"
  | SetPastNeighbors "node_descriptor list option" string
  | NotifyProgress connection_progress_message
  | RouteAnswer "route_query_response option"
  | StopSystem nat

type_synonym handled = "(neighborhood_output list \<times> neighborhood) run"

section \<open>Construction and binding\<close>

definition calculate_db_patch_size :: "hops \<Rightarrow> u8" where
  "calculate_db_patch_size min_hops =
     of_nat (hops_num (if hops_num min_hops \<le> hops_num DEFAULT_MIN_HOPS then DEFAULT_MIN_HOPS else min_hops))"

definition neighborhood_new ::
  "node_env \<Rightarrow> neighborhood_mode \<Rightarrow> hops \<Rightarrow> wallet \<Rightarrow> wallet option \<Rightarrow> chain \<Rightarrow> string option \<Rightarrow> neighborhood run" where
  "neighborhood_new E mode min_hops earning consuming_wallet_opt chain db_password_opt = do {
     let neighbor_configs = mode_neighbor_configs mode
     in if mode_light mode = ZeroHopLight \<and> neighbor_configs \<noteq> [] then panic
     else do {
       db \<leftarrow> database_new E mode earning;
       if \<exists>nc \<in> set neighbor_configs. is_mainnet (nd_blockchain nc) \<noteq> is_mainnet chain then panic
       else do {
         ocs \<leftarrow> ocs_new neighbor_configs;
         ret \<lparr>nb_database = db, nb_consuming_wallet_opt = consuming_wallet_opt, nb_mode = mode_light mode,
           nb_min_hops = min_hops, nb_db_patch_size = calculate_db_patch_size min_hops,
           nb_next_return_route_id = 0, nb_overall_connection_status = ocs, nb_chain = chain,
           nb_database_connected = False, nb_db_password_opt = db_password_opt,
           nb_user_exit_preferences = user_exit_preferences_new, nb_bound = False,
           nb_last_dead_node_check = producer_new E, nb_pass_targets = fmempty\<rparr> } } }"

definition handle_bind_message :: "neighborhood \<Rightarrow> handled" where
  "handle_bind_message nb = ret ([], nb\<lparr>nb_bound := True\<rparr>)"

text \<open>Sending to an actor that was not bound panics.\<close>

definition send :: "neighborhood \<Rightarrow> neighborhood_output \<Rightarrow> neighborhood_output list run" where
  "send nb out = (if nb_bound nb then ret [out] else panic)"

definition update_stage_of :: "overall_connection_stage \<Rightarrow> neighborhood \<Rightarrow> handled" where
  "update_stage_of stage nb =
     (if nb_bound nb
      then (case update_ocs_stage_and_send_message_to_ui stage (nb_overall_connection_status nb) of
          (ocs, msgs) \<Rightarrow> ret (map BroadcastStage msgs, nb\<lparr>nb_overall_connection_status := ocs\<rparr>))
      else panic)"

section \<open>Routes\<close>

definition advance_return_route_id :: "neighborhood \<Rightarrow> u32 \<times> neighborhood" where
  "advance_return_route_id nb =
     (nb_next_return_route_id nb, nb\<lparr>nb_next_return_route_id := nb_next_return_route_id nb + 1\<rparr>)"

definition make_route ::
  "'p neighborhood_world \<Rightarrow> route_segment \<Rightarrow> route_segment \<Rightarrow> wallet option \<Rightarrow> u32 \<Rightarrow> bytes option \<Rightarrow> route run" where
  "make_route W over home consuming_wallet return_route_id contract_address = do {
     res \<leftarrow> round_trip (cw_hop (nw_cores W)) (cw_id (nw_cores W)) (cw_wallet_ops (nw_cores W)) over home (nw_cryptde W)
       consuming_wallet return_route_id contract_address;
     (case res of Inr route \<Rightarrow> ret route | Inl _ \<Rightarrow> panic) }"

definition zero_hop_route_response ::
  "'p neighborhood_world \<Rightarrow> neighborhood \<Rightarrow> (route_query_response \<times> neighborhood) run" where
  "zero_hop_route_response W nb = do {
     let (return_route_id, nb1) = advance_return_route_id nb;
         k = cd_public_key (nw_cryptde W)
     in do {
       route \<leftarrow> make_route W (route_segment_new [k, k] ProxyClientComponent)
         (route_segment_new [k, k] ProxyServerComponent) None return_route_id None;
       ret (\<lparr>rqr_route = route, rqr_expected_services =
         RoundTripServices [NoService, NoService] [NoService, NoService] return_route_id\<rparr>, nb1) } }"

datatype route_query_error =
    NoRoutes nat public_key component "public_key option"
  | NoSegmentKeys
  | NoConsumingWallet
  | UnknownNeighbor
  | NoServiceKeys

definition make_route_segment ::
  "'p neighborhood_world \<Rightarrow> neighborhood \<Rightarrow> public_key \<Rightarrow> public_key option \<Rightarrow> nat \<Rightarrow> component \<Rightarrow> u64 \<Rightarrow>
     route_direction \<Rightarrow> string option \<Rightarrow> (route_query_error + route_segment) run" where
  "make_route_segment W nb origin target_opt minimum_hop_count target_component payload_size direction hostname_opt = do {
     route_opt \<leftarrow> find_best_route_segment (nw_env W) (nb_database nb) (nb_user_exit_preferences nb) origin target_opt
       minimum_hop_count payload_size direction hostname_opt;
     ret (case route_opt of
        None \<Rightarrow> Inl (NoRoutes minimum_hop_count origin target_component target_opt)
      | Some route \<Rightarrow> Inr (route_segment_new route target_component)) }"

definition calculate_expected_service ::
  "neighborhood \<Rightarrow> public_key \<Rightarrow> public_key option \<Rightarrow> public_key option \<Rightarrow> (route_query_error + expected_service) run" where
  "calculate_expected_service nb route_segment_key originator_key exit_key =
     (case node_by_key (nb_database nb) route_segment_key of
        Some node \<Rightarrow> do {
          r \<leftarrow> root (nb_database nb);
          if route_segment_key = public_key r then ret (Inr NoService)
          else ret (case (originator_key, exit_key) of
              (Some originator_key, Some exit_key) \<Rightarrow>
                if route_segment_key = originator_key \<or> route_segment_key = exit_key
                then Inr (ExitService route_segment_key (earning_wallet node) (rate_pack_of node))
                else Inr (RoutingService route_segment_key (earning_wallet node) (rate_pack_of node))
            | _ \<Rightarrow> Inl NoServiceKeys) }
      | None \<Rightarrow> ret (Inl UnknownNeighbor))"

text \<open>Collecting \<open>Result\<close>s stops at the first error.\<close>

fun collect_results :: "('a \<Rightarrow> ('e + 'b) run) \<Rightarrow> 'a list \<Rightarrow> ('e + 'b list) run" where
  "collect_results f [] = ret (Inr [])"
| "collect_results f (x # xs) = do {
     res \<leftarrow> f x;
     (case res of
        Inl e \<Rightarrow> ret (Inl e)
      | Inr y \<Rightarrow> do {
          rest \<leftarrow> collect_results f xs;
          ret (case rest of Inl e \<Rightarrow> Inl e | Inr ys \<Rightarrow> Inr (y # ys)) }) }"

definition make_expected_services ::
  "neighborhood \<Rightarrow> route_segment \<Rightarrow> (route_query_error + expected_service list) run" where
  "make_expected_services nb segment =
     (let ks = rs_keys segment
      in collect_results (\<lambda>key. calculate_expected_service nb key
            (if ks = [] then None else Some (hd ks)) (if ks = [] then None else Some (last ks))) ks)"

definition compose_route_query_response ::
  "'p neighborhood_world \<Rightarrow> neighborhood \<Rightarrow> route_segment \<Rightarrow> route_segment \<Rightarrow>
     ((route_query_error + route_query_response) \<times> neighborhood) run" where
  "compose_route_query_response W nb over home =
     (if rs_keys over = [] \<or> rs_keys home = [] then ret (Inl NoSegmentKeys, nb)
      else if nb_consuming_wallet_opt nb = None \<and> (length (rs_keys over) > 2 \<or> length (rs_keys home) > 2)
      then ret (Inl NoConsumingWallet, nb)
      else do {
        request_services \<leftarrow> make_expected_services nb over;
        (case request_services of
           Inl e \<Rightarrow> ret (Inl e, nb)
         | Inr expected_request_services \<Rightarrow> do {
             response_services \<leftarrow> make_expected_services nb home;
             (case response_services of
                Inl e \<Rightarrow> ret (Inl e, nb)
              | Inr expected_response_services \<Rightarrow>
                  (case advance_return_route_id nb of (return_route_id, nb1) \<Rightarrow> do {
                     rec \<leftarrow> chain_rec (nb_chain nb);
                     route \<leftarrow> make_route W over home (nb_consuming_wallet_opt nb) return_route_id (Some (contract rec));
                     ret (Inr \<lparr>rqr_route = route, rqr_expected_services =
                       RoundTripServices expected_request_services expected_response_services return_route_id\<rparr>, nb1) })) }) })"

definition make_round_trip_route ::
  "'p neighborhood_world \<Rightarrow> route_query_message \<Rightarrow> neighborhood \<Rightarrow>
     ((route_query_error + route_query_response) \<times> neighborhood) run" where
  "make_round_trip_route W msg nb = do {
     over_res \<leftarrow> make_route_segment W nb (cd_public_key (nw_cryptde W)) (rqm_target_key_opt msg)
       (hops_num (nb_min_hops nb)) (rqm_target_component msg) (rqm_payload_size msg) Over (rqm_hostname_opt msg);
     (case over_res of
        Inl e \<Rightarrow> ret (Inl e, nb)
      | Inr over \<Rightarrow>
          if rs_keys over = [] then panic
          else do {
            return_component \<leftarrow> rqm_return_component_opt msg;
            back_res \<leftarrow> make_route_segment W nb (last (rs_keys over)) (Some (cd_public_key (nw_cryptde W)))
              (hops_num (nb_min_hops nb)) return_component (rqm_payload_size msg * RESPONSE_UNDESIRABILITY_FACTOR) Back
              (rqm_hostname_opt msg);
            (case back_res of
               Inl e \<Rightarrow> ret (Inl e, nb)
             | Inr home \<Rightarrow> compose_route_query_response W nb over home) }) }"

definition handle_route_query_message ::
  "'p neighborhood_world \<Rightarrow> route_query_message \<Rightarrow> neighborhood \<Rightarrow> (route_query_response option \<times> neighborhood) run" where
  "handle_route_query_message W msg nb =
     (if nb_mode nb = ZeroHopLight then do {
        (response, nb1) \<leftarrow> zero_hop_route_response W nb;
        ret (Some response, nb1) }
      else do {
        (res, nb1) \<leftarrow> make_round_trip_route W msg nb;
        ret (case res of Inr response \<Rightarrow> Some response | Inl _ \<Rightarrow> None, nb1) })"

definition search_for_a_new_route :: "'p neighborhood_world \<Rightarrow> neighborhood \<Rightarrow> handled" where
  "search_for_a_new_route W nb = do {
     (response, nb1) \<leftarrow> handle_route_query_message W
       \<lparr>rqm_target_key_opt = None, rqm_target_component = ProxyClientComponent,
        rqm_return_component_opt = Some ProxyServerComponent, rqm_payload_size = 10000, rqm_hostname_opt = None\<rparr> nb;
     (case response of
        Some _ \<Rightarrow> do {
          (outs, nb2) \<leftarrow> update_stage_of RouteFound nb1;
          start \<leftarrow> send nb2 StartAccountant;
          ret (outs @ start, nb2) }
      | None \<Rightarrow> ret ([], nb1)) }"

definition check_connectedness :: "'p neighborhood_world \<Rightarrow> neighborhood \<Rightarrow> handled" where
  "check_connectedness W nb =
     (if can_make_routes (nb_overall_connection_status nb) then ret ([], nb) else search_for_a_new_route W nb)"

section \<open>Gossip\<close>

definition gossip_migrations :: "'p neighborhood_world \<Rightarrow> migrations run" where
  "gossip_migrations W = add_step FUTURE_VERSION (DataVersion 0 1) (nw_gossip_step W) (migrations_new GOSSIP_CURRENT_VERSION)"

definition gossip_failure_migrations :: "'p neighborhood_world \<Rightarrow> migrations run" where
  "gossip_failure_migrations W =
     add_step FUTURE_VERSION (DataVersion 0 1) (nw_gossip_failure_step W) (migrations_new GOSSIP_FAILURE_CURRENT_VERSION)"

definition gossip_message :: "'p neighborhood_world \<Rightarrow> gossip_0v1 \<Rightarrow> message_type run" where
  "gossip_message W gossip = do {
     M \<leftarrow> gossip_migrations W;
     vd \<leftarrow> versioned_data_new (nw_gossip W) M gossip;
     ret (GossipMessage vd) }"

definition send_no_lookup_package ::
  "'p neighborhood_world \<Rightarrow> neighborhood \<Rightarrow> message_type \<Rightarrow> public_key \<Rightarrow> node_addr \<Rightarrow> neighborhood_output list run" where
  "send_no_lookup_package W nb message_type target_key target_node_addr =
     (case no_lookup_new (nw_cores W) (nw_cryptde W) target_key target_node_addr message_type of
        Inr p \<Rightarrow> send nb (ToHopperNoLookup p)
      | Inl _ \<Rightarrow> ret [])"

definition create_single_hop_route :: "'p neighborhood_world \<Rightarrow> public_key \<Rightarrow> route run" where
  "create_single_hop_route W destination = do {
     res \<leftarrow> one_way (cw_hop (nw_cores W)) (cw_id (nw_cores W)) (cw_wallet_ops (nw_cores W))
       (route_segment_new [cd_public_key (nw_cryptde W), destination] NeighborhoodComponent) (nw_cryptde W) None None;
     (case res of Inr route \<Rightarrow> ret route | Inl _ \<Rightarrow> panic) }"

definition gossip_to_neighbor ::
  "'p neighborhood_world \<Rightarrow> neighborhood \<Rightarrow> public_key \<Rightarrow> gossip_0v1 \<Rightarrow> neighborhood_output list run" where
  "gossip_to_neighbor W nb neighbor gossip = do {
     route \<leftarrow> create_single_hop_route W neighbor;
     m \<leftarrow> gossip_message W gossip;
     (case incipient_new (nw_cores W) (nw_cryptde W) route m neighbor of
        Inr package \<Rightarrow> send nb (ToHopperClient package)
      | Inl _ \<Rightarrow> panic) }"

fun gossip_to_each :: "'p neighborhood_world \<Rightarrow> public_key list \<Rightarrow> neighborhood \<Rightarrow> handled" where
  "gossip_to_each W [] nb = ret ([], nb)"
| "gossip_to_each W (neighbor # neighbors) nb = do {
     (gossip_opt, last_check, db) \<leftarrow> produce (nw_env W) neighbor (nb_last_dead_node_check nb) (nb_database nb);
     let nb1 = nb\<lparr>nb_database := db, nb_last_dead_node_check := last_check\<rparr>
     in do {
       outs \<leftarrow> (case gossip_opt of Some gossip \<Rightarrow> gossip_to_neighbor W nb1 neighbor gossip | None \<Rightarrow> ret []);
       (outs', nb2) \<leftarrow> gossip_to_each W neighbors nb1;
       ret (outs @ outs', nb2) } }"

definition gossip_to_neighbors :: "'p neighborhood_world \<Rightarrow> neighborhood \<Rightarrow> handled" where
  "gossip_to_neighbors W nb = do {
     db \<leftarrow> root_mut (regenerate_signed_gossip (nw_env W)) (nb_database nb);
     r \<leftarrow> root db;
     gossip_to_each W (env_iter (nw_env W) (half_neighbor_keys r)) (nb\<lparr>nb_database := db\<rparr>) }"

definition handle_gossip_failed ::
  "'p neighborhood_world \<Rightarrow> neighborhood \<Rightarrow> gossip_failure \<Rightarrow> public_key \<Rightarrow> node_addr \<Rightarrow> neighborhood_output list run" where
  "handle_gossip_failed W nb failure target_key target_node_addr = do {
     M \<leftarrow> gossip_failure_migrations W;
     vd \<leftarrow> versioned_data_new (nw_gossip_failure W) M failure;
     send_no_lookup_package W nb (GossipFailureMessage vd) target_key target_node_addr }"

definition handle_gossip_reply ::
  "'p neighborhood_world \<Rightarrow> neighborhood \<Rightarrow> gossip_0v1 \<Rightarrow> public_key \<Rightarrow> node_addr \<Rightarrow> neighborhood_output list run" where
  "handle_gossip_reply W nb gossip target_key target_node_addr = do {
     m \<leftarrow> gossip_message W gossip;
     send_no_lookup_package W nb m target_key target_node_addr }"

definition init_db_countries :: "'p neighborhood_world \<Rightarrow> neighborhood \<Rightarrow> country_code list run" where
  "init_db_countries W nb = do {
     exit_nodes \<leftarrow> find_exit_locations (nw_env W) (nb_database nb) (nb_user_exit_preferences nb)
       (ndb_this_node (nb_database nb)) (hops_num (nb_min_hops nb));
     ret (remdups_adj (sort (List.map_filter (\<lambda>k. case node_by_key (nb_database nb) k of
         Some node_record \<Rightarrow> nri_country_code_opt (nr_inner node_record)
       | None \<Rightarrow> None) exit_nodes))) }"

definition refresh_db_countries :: "'p neighborhood_world \<Rightarrow> neighborhood \<Rightarrow> neighborhood run" where
  "refresh_db_countries W nb = do {
     ccs \<leftarrow> init_db_countries W nb;
     ret (nb\<lparr>nb_user_exit_preferences := (nb_user_exit_preferences nb)\<lparr>uep_db_countries := ccs\<rparr>\<rparr>) }"

definition handle_agrs ::
  "'p neighborhood_world \<Rightarrow> accessible_gossip_record list \<Rightarrow> socket_addr \<Rightarrow> neighborhood \<Rightarrow> handled" where
  "handle_agrs W agrs gossip_source nb = do {
     (acceptance_result, cpms, targets, db) \<leftarrow> acceptor_handle (nw_env W) (nb_database nb) agrs gossip_source
       \<lparr>nmd_connection_progress_peers = get_peer_addrs (nb_overall_connection_status nb),
        nmd_db_patch_size = nb_db_patch_size nb, nmd_user_exit_preferences_opt = Some (nb_user_exit_preferences nb)\<rparr>
       (nb_pass_targets nb);
     let nb1 = nb\<lparr>nb_database := db, nb_pass_targets := targets\<rparr>
     in do {
       (outs, nb2) \<leftarrow> (case acceptance_result of
           Accepted \<Rightarrow> do {
             nb2 \<leftarrow> refresh_db_countries W nb1;
             gossip_to_neighbors W nb2 }
         | Reply next_debut target_key target_node_addr \<Rightarrow> do {
             nb2 \<leftarrow> (if nb_min_hops nb1 = OneHop then refresh_db_countries W nb1 else ret nb1);
             outs \<leftarrow> handle_gossip_reply W nb2 next_debut target_key target_node_addr;
             ret (outs, nb2) }
         | gossip_acceptance_result.Failed failure target_key target_node_addr \<Rightarrow> do {
             outs \<leftarrow> handle_gossip_failed W nb1 failure target_key target_node_addr;
             ret (outs, nb1) }
         | Ignored \<Rightarrow> ret ([], nb1)
         | Ban reason \<Rightarrow> ret ([], nb1));
       ret (map NotifyProgress cpms @ outs, nb2) } }"

definition neighbor_keys :: "neighborhood \<Rightarrow> public_key fset run" where
  "neighbor_keys nb = do {
     r \<leftarrow> root (nb_database nb);
     ret (full_neighbor_keys r (nb_database nb)) }"

definition node_descriptor_of_record :: "'p neighborhood_world \<Rightarrow> chain \<Rightarrow> node_record \<Rightarrow> node_descriptor run" where
  "node_descriptor_of_record W blockchain node_record = do {
     k \<leftarrow> nw_descriptor_key W (public_key node_record);
     ret \<lparr>nd_blockchain = blockchain, nd_encryption_public_key = k, nd_node_addr_opt = node_addr_opt node_record\<rparr> }"

definition to_node_descriptors :: "'p neighborhood_world \<Rightarrow> neighborhood \<Rightarrow> public_key list \<Rightarrow> node_descriptor list run" where
  "to_node_descriptors W nb ks = those (map (\<lambda>k. do {
     r \<leftarrow> node_by_key (nb_database nb) k;
     node_descriptor_of_record W (nb_chain nb) r }) ks)"

definition curate_past_neighbors ::
  "'p neighborhood_world \<Rightarrow> neighborhood \<Rightarrow> public_key fset \<Rightarrow> public_key fset \<Rightarrow> neighborhood_output list run" where
  "curate_past_neighbors W nb neighbor_keys_before neighbor_keys_after =
     (if neighbor_keys_after \<noteq> neighbor_keys_before then
        (case nb_db_password_opt nb of
           Some db_password \<Rightarrow> do {
             nds \<leftarrow> to_node_descriptors W nb (env_iter (nw_env W) neighbor_keys_after);
             if nb_database_connected nb
             then ret [SetPastNeighbors (if nds = [] then None else Some nds) db_password]
             else panic }
         | None \<Rightarrow> ret [])
      else ret [])"

definition handle_database_changes ::
  "'p neighborhood_world \<Rightarrow> public_key fset \<Rightarrow> public_key fset \<Rightarrow> neighborhood \<Rightarrow> handled" where
  "handle_database_changes W neighbor_keys_before neighbor_keys_after nb = do {
     outs \<leftarrow> curate_past_neighbors W nb neighbor_keys_before neighbor_keys_after;
     (outs', nb1) \<leftarrow> check_connectedness W nb;
     ret (outs @ outs', nb1) }"

definition handle_gossip_agrs ::
  "'p neighborhood_world \<Rightarrow> accessible_gossip_record list \<Rightarrow> socket_addr \<Rightarrow> neighborhood \<Rightarrow> handled" where
  "handle_gossip_agrs W agrs gossip_source nb = do {
     neighbor_keys_before \<leftarrow> neighbor_keys nb;
     (outs, nb1) \<leftarrow> handle_agrs W agrs gossip_source nb;
     neighbor_keys_after \<leftarrow> neighbor_keys nb1;
     (outs', nb2) \<leftarrow> handle_database_changes W neighbor_keys_before neighbor_keys_after nb1;
     ret (outs @ outs', nb2) }"

definition signature_invalid :: "'p neighborhood_world \<Rightarrow> accessible_gossip_record \<Rightarrow> bool" where
  "signature_invalid W agr \<longleftrightarrow>
     \<not> env_verify_signature (nw_env W) (agr_signed_gossip agr) (agr_signature agr) (nri_public_key (agr_inner agr))"

definition handle_gossip ::
  "'p neighborhood_world \<Rightarrow> gossip_0v1 \<Rightarrow> socket_addr \<Rightarrow> neighborhood \<Rightarrow> handled" where
  "handle_gossip W incoming_gossip gossip_source nb =
     (let agrs = List.map_filter (\<lambda>gnr. case agr_of_gnr (nw_env W) gnr of Inr agr \<Rightarrow> Some agr | Inl _ \<Rightarrow> None)
            (node_records incoming_gossip)
      in if length agrs < length (node_records incoming_gossip) then ret ([], nb)
         else if \<exists>agr \<in> set agrs. signature_invalid W agr then ret ([], nb)
         else handle_gossip_agrs W agrs gossip_source nb)"

definition handle_gossip_failure :: "socket_addr \<Rightarrow> neighborhood \<Rightarrow> handled" where
  "handle_gossip_failure failure_source nb =
     (case position (\<lambda>nd. case nd_node_addr_opt nd of
          None \<Rightarrow> False
        | Some node_addr \<Rightarrow> na_ip_addr node_addr = sa_ip failure_source)
        (iter_initial_node_descriptors (nb_overall_connection_status nb)) of
        None \<Rightarrow> panic
      | Some i \<Rightarrow> do {
          (_, ocs) \<leftarrow> ocs_remove i (nb_overall_connection_status nb);
          ret (if ocs_is_empty ocs then [StopSystem 1] else [], nb\<lparr>nb_overall_connection_status := ocs\<rparr>) })"

section \<open>Starting\<close>

definition connect_database :: "'p neighborhood_world \<Rightarrow> neighborhood \<Rightarrow> neighborhood run" where
  "connect_database W nb =
     (if nb_database_connected nb then ret nb
      else if nw_database_opens W then ret (nb\<lparr>nb_database_connected := True\<rparr>) else panic)"

definition validate_or_replace_min_hops_value :: "'p neighborhood_world \<Rightarrow> neighborhood \<Rightarrow> neighborhood run" where
  "validate_or_replace_min_hops_value W nb =
     (if nb_database_connected nb then do {
        value_in_db \<leftarrow> nw_persisted_min_hops W;
        if nb_min_hops nb \<noteq> value_in_db then ret (nb\<lparr>nb_min_hops := value_in_db\<rparr>) else ret nb }
      else ret nb)"

definition send_debut_gossip_to_descriptor ::
  "'p neighborhood_world \<Rightarrow> neighborhood \<Rightarrow> gossip_0v1 \<Rightarrow> node_descriptor \<Rightarrow> neighborhood_output list run" where
  "send_debut_gossip_to_descriptor W nb debut_gossip nd = do {
     node_addr \<leftarrow> nd_node_addr_opt nd;
     m \<leftarrow> gossip_message W debut_gossip;
     send_no_lookup_package W nb m (nd_encryption_public_key nd) node_addr }"

definition send_debut_gossip_to_all_initial_descriptors ::
  "'p neighborhood_world \<Rightarrow> neighborhood \<Rightarrow> neighborhood_output list run" where
  "send_debut_gossip_to_all_initial_descriptors W nb =
     (if ocs_is_empty (nb_overall_connection_status nb) then ret []
      else do {
        gossip \<leftarrow> produce_debut (nb_database nb);
        outs \<leftarrow> those (map (send_debut_gossip_to_descriptor W nb gossip)
          (iter_initial_node_descriptors (nb_overall_connection_status nb)));
        ret (concat outs) })"

definition handle_start_message :: "'p neighborhood_world \<Rightarrow> neighborhood \<Rightarrow> handled" where
  "handle_start_message W nb = do {
     nb1 \<leftarrow> connect_database W nb;
     nb2 \<leftarrow> validate_or_replace_min_hops_value W nb1;
     outs \<leftarrow> send_debut_gossip_to_all_initial_descriptors W nb2;
     ret (outs, nb2) }"

definition handle_new_ip_location :: "'p neighborhood_world \<Rightarrow> ip_addr \<Rightarrow> neighborhood \<Rightarrow> neighborhood run" where
  "handle_new_ip_location W ip nb = do {
     let node_location_opt = get_node_location (nw_env W) (Some ip)
     in do {
       db \<leftarrow> root_mut (\<lambda>r. ret (r\<lparr>nr_metadata := (nr_metadata r)\<lparr>nrm_node_location_opt := node_location_opt\<rparr>,
          nr_inner := (nr_inner r)\<lparr>nri_country_code_opt := map_option nl_country_code node_location_opt\<rparr>\<rparr>)) (nb_database nb);
       ret (nb\<lparr>nb_database := db\<rparr>) } }"

definition handle_new_public_ip :: "'p neighborhood_world \<Rightarrow> ip_addr \<Rightarrow> neighborhood \<Rightarrow> handled" where
  "handle_new_public_ip W new_ip nb = do {
     r \<leftarrow> root (nb_database nb);
     _ \<leftarrow> node_addr_opt r;
     db \<leftarrow> new_public_ip new_ip (nb_database nb);
     nb1 \<leftarrow> handle_new_ip_location W new_ip (nb\<lparr>nb_database := db\<rparr>);
     ret ([], nb1) }"

section \<open>Exit locations\<close>

definition code_in_db_countries_or_fallback_active :: "user_exit_preferences \<Rightarrow> country_code \<Rightarrow> bool" where
  "code_in_db_countries_or_fallback_active uep code \<longleftrightarrow>
     code \<in> set (uep_db_countries uep) \<or> uep_fallback_preference uep = ExitCountryWithFallback"

definition fallback_active_and_code_missing_in_db_countries :: "user_exit_preferences \<Rightarrow> country_code \<Rightarrow> bool" where
  "fallback_active_and_code_missing_in_db_countries uep code \<longleftrightarrow>
     uep_fallback_preference uep = ExitCountryWithFallback \<and> code \<notin> set (uep_db_countries uep)"

text \<open>The countries not in the neighborhood, and the new preferences. \<open>Vec::remove\<close> at the position of a
  code removes its first occurrence.\<close>

fun synchronize_exit_countries_and_return_missing ::
  "country_code list \<Rightarrow> user_exit_preferences \<Rightarrow> country_code list \<times> user_exit_preferences" where
  "synchronize_exit_countries_and_return_missing [] uep = ([], uep)"
| "synchronize_exit_countries_and_return_missing (code # codes) uep =
     (let (missing, uep1) =
        (if code_in_db_countries_or_fallback_active uep code
         then (if fallback_active_and_code_missing_in_db_countries uep code then [code] else [],
               if code \<notin> set (uep_exit_countries uep)
               then uep\<lparr>uep_exit_countries := uep_exit_countries uep @ [code]\<rparr> else uep)
         else ([code], uep\<lparr>uep_exit_countries := remove1 code (uep_exit_countries uep)\<rparr>))
      in (case synchronize_exit_countries_and_return_missing codes uep1 of (missing', uep2) \<Rightarrow>
           (missing @ missing', uep2)))"

fun synchronize_each :: "exit_location list \<Rightarrow> user_exit_preferences \<Rightarrow> country_code list \<times> user_exit_preferences" where
  "synchronize_each [] uep = ([], uep)"
| "synchronize_each (loc # locs) uep =
     (case synchronize_exit_countries_and_return_missing (el_country_codes loc) uep of (missing, uep1) \<Rightarrow>
        (case synchronize_each locs uep1 of (missing', uep2) \<Rightarrow> (missing @ missing', uep2)))"

definition put_preferences :: "user_exit_preferences \<Rightarrow> neighborhood \<Rightarrow> neighborhood" where
  "put_preferences uep nb = nb\<lparr>nb_user_exit_preferences := uep\<rparr>"

definition extract_exit_locations_from_message ::
  "'p neighborhood_world \<Rightarrow> ui_set_exit_location_request \<Rightarrow> neighborhood \<Rightarrow>
     ((exit_location list \<times> country_code list) \<times> neighborhood) run" where
  "extract_exit_locations_from_message W message nb = do {
     nb1 \<leftarrow> refresh_db_countries W nb;
     let locations = map (\<lambda>cc. \<lparr>el_country_codes = cg_country_codes cc, el_priority = cg_priority cc\<rparr>)
           (ser_exit_locations message)
     in (case synchronize_each locations (nb_user_exit_preferences nb1) of (missing, uep) \<Rightarrow>
        ret ((locations, missing), put_preferences uep nb1)) }"

definition set_exit_locations_opt :: "exit_location list \<Rightarrow> user_exit_preferences \<Rightarrow> user_exit_preferences" where
  "set_exit_locations_opt exit_locations_by_priority uep = uep\<lparr>uep_locations_opt :=
     (if uep_exit_countries uep \<noteq> [] then Some exit_locations_by_priority
      else case uep_fallback_preference uep of
          ExitCountryNoFallback \<Rightarrow> None
        | _ \<Rightarrow> Some exit_locations_by_priority)\<rparr>"

definition map_nodes :: "(node_record \<Rightarrow> node_record) \<Rightarrow> neighborhood_database \<Rightarrow> neighborhood_database" where
  "map_nodes f db = db\<lparr>ndb_by_public_key := fmmap f (ndb_by_public_key db)\<rparr>"

definition set_country_undesirability_and_exit_countries :: "exit_location list \<Rightarrow> neighborhood \<Rightarrow> neighborhood" where
  "set_country_undesirability_and_exit_countries exit_locations_by_priority nb =
     (if exit_locations_by_priority \<noteq> []
      then nb\<lparr>nb_database := map_nodes (assign_nodes_country_undesirability (nb_user_exit_preferences nb)) (nb_database nb)\<rparr>
      else nb\<lparr>nb_user_exit_preferences := (nb_user_exit_preferences nb)\<lparr>uep_exit_countries := []\<rparr>,
              nb_database := map_nodes (put_country_undesirability ZERO_UNDESIRABILITY) (nb_database nb)\<rparr>)"

definition is_fallback_routing_active :: "user_exit_preferences \<Rightarrow> bool" where
  "is_fallback_routing_active uep = (case uep_fallback_preference uep of
      FallbackNothing \<Rightarrow> True
    | ExitCountryWithFallback \<Rightarrow> True
    | ExitCountryNoFallback \<Rightarrow> False)"

definition get_locations_opt :: "user_exit_preferences \<Rightarrow> exit_location list" where
  "get_locations_opt uep = (case uep_locations_opt uep of Some locs \<Rightarrow> locs | None \<Rightarrow> [])"

definition get_countries_to_show :: "user_exit_preferences \<Rightarrow> bool \<Rightarrow> country_code list option" where
  "get_countries_to_show uep show_countries_flag = (if show_countries_flag then Some (uep_db_countries uep) else None)"

text \<open>The result, and the missing countries, which are sorted unless the first test returns.\<close>

definition error_message_indicates :: "user_exit_preferences \<Rightarrow> country_code list \<Rightarrow> bool \<times> country_code list" where
  "error_message_indicates uep missing_countries =
     (let desired_countries = concat (map el_country_codes (get_locations_opt uep))
      in if desired_countries = [] \<and> missing_countries = [] then (False, missing_countries)
         else (sort missing_countries = sort desired_countries, sort missing_countries))"

definition create_exit_location_response :: "user_exit_preferences \<Rightarrow> country_code list \<Rightarrow> bool \<Rightarrow> ui_body" where
  "create_exit_location_response uep missing_countries show_countries_flag =
     (case error_message_indicates uep missing_countries of (indicates, sorted_missing) \<Rightarrow>
        if indicates then ExitCountryMissingCountriesError (join_with '', '' missing_countries)
        else ExitLocationSet \<lparr>sel_fallback_routing = is_fallback_routing_active uep,
          sel_exit_country_selection = get_locations_opt uep,
          sel_exit_countries = get_countries_to_show uep show_countries_flag,
          sel_missing_countries = sorted_missing\<rparr>)"

definition handle_exit_location_message ::
  "'p neighborhood_world \<Rightarrow> ui_set_exit_location_request \<Rightarrow> u64 \<Rightarrow> u64 \<Rightarrow> neighborhood \<Rightarrow> handled" where
  "handle_exit_location_message W message client_id context_id nb = do {
     ((exit_locations_by_priority, missing_countries), nb1) \<leftarrow> extract_exit_locations_from_message W message nb;
     let uep2 = (nb_user_exit_preferences nb1)\<lparr>uep_fallback_preference :=
           (if exit_locations_by_priority = [] then FallbackNothing
            else if ser_fallback_routing message then ExitCountryWithFallback else ExitCountryNoFallback)\<rparr>;
         uep3 = (if ser_show_countries message then uep2 else set_exit_locations_opt exit_locations_by_priority uep2);
         nb3 = put_preferences uep3 nb1;
         nb4 = (if fcard (keys (nb_database nb3)) > 1
                then set_country_undesirability_and_exit_countries exit_locations_by_priority nb3 else nb3)
     in do {
       outs \<leftarrow> send nb4 (ToUi client_id context_id
         (create_exit_location_response (nb_user_exit_preferences nb4) missing_countries (ser_show_countries message)));
       ret (outs, nb4) } }"

section \<open>Configuration changes\<close>

definition set_min_hops_and_patch_size :: "hops \<Rightarrow> neighborhood \<Rightarrow> neighborhood" where
  "set_min_hops_and_patch_size new_min_hops nb =
     nb\<lparr>nb_min_hops := new_min_hops, nb_db_patch_size := calculate_db_patch_size new_min_hops\<rparr>"

fun handle_config_change_msg :: "'p neighborhood_world \<Rightarrow> config_change \<Rightarrow> neighborhood \<Rightarrow> handled" where
  "handle_config_change_msg W (UpdateWallets consuming_wallet) nb =
     ret ([], if nb_consuming_wallet_opt nb \<noteq> Some consuming_wallet
              then nb\<lparr>nb_consuming_wallet_opt := Some consuming_wallet\<rparr> else nb)"
| "handle_config_change_msg W (UpdateMinHops new_min_hops) nb = do {
     let nb1 = set_min_hops_and_patch_size new_min_hops nb
     in do {
       (outs, nb2) \<leftarrow> (if can_make_routes (nb_overall_connection_status nb1)
          then update_stage_of ConnectedToNeighbor nb1 else ret ([], nb1));
       nb3 \<leftarrow> refresh_db_countries W nb2;
       let nb4 = (case uep_locations_opt (nb_user_exit_preferences nb3) of
             Some exit_locations_by_priority \<Rightarrow>
               set_country_undesirability_and_exit_countries exit_locations_by_priority
                 (put_preferences (snd (synchronize_each exit_locations_by_priority (nb_user_exit_preferences nb3))) nb3)
           | None \<Rightarrow> nb3)
       in do {
         (outs', nb5) \<leftarrow> search_for_a_new_route W nb4;
         ret (outs @ outs', nb5) } } }"
| "handle_config_change_msg W (UpdatePassword new_password) nb = ret ([], nb\<lparr>nb_db_password_opt := Some new_password\<rparr>)"

section \<open>Neighbors and connections\<close>

definition handle_remove_neighbor_message :: "'p neighborhood_world \<Rightarrow> public_key \<Rightarrow> neighborhood \<Rightarrow> handled" where
  "handle_remove_neighbor_message W k nb = do {
     (res, db) \<leftarrow> remove_neighbor k (nb_database nb);
     let nb1 = nb\<lparr>nb_database := db\<rparr>
     in (case res of
        Inl _ \<Rightarrow> ret ([], nb1)
      | Inr db_changed \<Rightarrow> if db_changed then gossip_to_neighbors W nb1 else ret ([], nb1)) }"

definition remove_neighbor_at :: "'p neighborhood_world \<Rightarrow> public_key \<Rightarrow> neighborhood \<Rightarrow> handled" where
  "remove_neighbor_at W neighbor_key nb = do {
     (res, db) \<leftarrow> remove_neighbor neighbor_key (nb_database nb);
     let nb1 = nb\<lparr>nb_database := db\<rparr>
     in (case res of
        Inl _ \<Rightarrow> panic
      | Inr True \<Rightarrow> gossip_to_neighbors W nb1
      | Inr False \<Rightarrow> ret ([], nb1)) }"

datatype removed_stream_type = Clandestine | NonClandestine u16 u64

definition handle_stream_shutdown_msg ::
  "'p neighborhood_world \<Rightarrow> socket_addr \<Rightarrow> removed_stream_type \<Rightarrow> neighborhood \<Rightarrow> handled" where
  "handle_stream_shutdown_msg W peer_addr stream_type nb =
     (if stream_type \<noteq> Clandestine then panic
      else case node_by_ip (nb_database nb) (sa_ip peer_addr) of
          None \<Rightarrow> ret ([], nb)
        | Some n \<Rightarrow> remove_neighbor_at W (public_key n) nb)"

definition handle_dispatcher_node_query :: "node_query \<Rightarrow> neighborhood \<Rightarrow> handled" where
  "handle_dispatcher_node_query query nb =
     (let node_record_ref_opt = (case query of
          QueryIpAddress ip_addr \<Rightarrow> node_by_ip (nb_database nb) ip_addr
        | QueryPublicKey key \<Rightarrow> node_by_key (nb_database nb) key)
      in ret ([ToDispatcherStreams (map_option (\<lambda>r. \<lparr>nqr_public_key = public_key r, nqr_node_addr_opt = node_addr_opt r,
           nqr_rate_pack = rate_pack_of r\<rparr>) node_record_ref_opt)], nb))"

definition send_ask_about_debut_gossip_message :: "ip_addr \<Rightarrow> neighborhood \<Rightarrow> neighborhood_output list run" where
  "send_ask_about_debut_gossip_message current_peer_addr nb =
     (case get_connection_progress_by_ip (nb_overall_connection_status nb) current_peer_addr of
        Inr i \<Rightarrow> ret [AskAboutDebutGossipLater (ocs_progress (nb_overall_connection_status nb) ! i)]
      | Inl _ \<Rightarrow> panic)"

definition handle_connection_progress_message :: "connection_progress_message \<Rightarrow> neighborhood \<Rightarrow> handled" where
  "handle_connection_progress_message msg nb =
     (case get_connection_progress_to_modify (nb_overall_connection_status nb) msg of
        Inl _ \<Rightarrow> ret ([], nb)
      | Inr i \<Rightarrow> do {
          ocs \<leftarrow> modify_progress (update_connection_stage (cpm_event msg)) i (nb_overall_connection_status nb);
          let nb1 = nb\<lparr>nb_overall_connection_status := ocs\<rparr>
          in (case cpm_event msg of
             TcpConnectionSuccessful \<Rightarrow> do {
               outs \<leftarrow> send_ask_about_debut_gossip_message (cpm_peer_addr msg) nb1;
               ret (outs, nb1) }
           | IntroductionGossipReceived _ \<Rightarrow> update_stage_of ConnectedToNeighbor nb1
           | StandardGossipReceived \<Rightarrow> update_stage_of ConnectedToNeighbor nb1
           | _ \<Rightarrow> ret ([], nb1)) })"

definition handle_ask_about_debut_gossip_message :: "connection_progress \<Rightarrow> neighborhood \<Rightarrow> handled" where
  "handle_ask_about_debut_gossip_message prev nb =
     (case get_connection_progress_by_desc (nb_overall_connection_status nb) (cp_initial_node_descriptor prev) of
        Inl _ \<Rightarrow> ret ([], nb)
      | Inr i \<Rightarrow>
          if prev = ocs_progress (nb_overall_connection_status nb) ! i then do {
            ocs \<leftarrow> modify_progress (update_connection_stage NoGossipResponseReceivedEvent) i (nb_overall_connection_status nb);
            ret ([], nb\<lparr>nb_overall_connection_status := ocs\<rparr>) }
          else ret ([], nb))"

definition handle_update_node_record_metadata :: "public_key \<Rightarrow> string \<Rightarrow> neighborhood \<Rightarrow> handled" where
  "handle_update_node_record_metadata k hostname nb = do {
     r \<leftarrow> node_by_key (nb_database nb) k;
     ret ([], nb\<lparr>nb_database := put_node k (r\<lparr>nr_metadata := (nr_metadata r)
       \<lparr>nrm_unreachable_hosts := finsert hostname (nrm_unreachable_hosts (nr_metadata r))\<rparr>\<rparr>) (nb_database nb)\<rparr>) }"

definition handle_connection_status_message :: "u64 \<Rightarrow> u64 \<Rightarrow> neighborhood \<Rightarrow> handled" where
  "handle_connection_status_message client_id context_id nb = do {
     outs \<leftarrow> send nb (ToUi client_id context_id
       (ConnectionStatus (ui_stage (ocs_stage (nb_overall_connection_status nb)))));
     ret (outs, nb) }"

definition handle_shutdown_order :: "neighborhood \<Rightarrow> handled" where
  "handle_shutdown_order nb = ret ([StopSystem 0], nb)"

section \<open>The messages of the actor\<close>

text \<open>One constructor for each message type that the actor handles, the requests from the user interface decoded.\<close>

datatype neighborhood_message =
    BindMessage
  | StartMessage
  | NewPublicIp ip_addr
  | ConfigChangeMsg config_change
  | DispatcherNodeQueryMessage node_query
  | RouteQueryMessage route_query_message
  | GossipReceived gossip_0v1 socket_addr
  | GossipFailureReceived gossip_failure socket_addr
  | RemoveNeighborMessage public_key
  | ConnectionProgressMessage connection_progress_message
  | AskAboutDebutGossipMessage connection_progress
  | UpdateNodeRecordMetadataMessage public_key string
  | StreamShutdownMsg socket_addr removed_stream_type
  | UiSetExitLocationRequest ui_set_exit_location_request u64 u64
  | UiConnectionStatusRequest u64 u64
  | UiShutdownRequest

fun dispatch :: "'p neighborhood_world \<Rightarrow> neighborhood_message \<Rightarrow> neighborhood \<Rightarrow> handled" where
  "dispatch W BindMessage nb = handle_bind_message nb"
| "dispatch W StartMessage nb = handle_start_message W nb"
| "dispatch W (NewPublicIp ip) nb = handle_new_public_ip W ip nb"
| "dispatch W (ConfigChangeMsg change) nb = handle_config_change_msg W change nb"
| "dispatch W (DispatcherNodeQueryMessage query) nb = handle_dispatcher_node_query query nb"
| "dispatch W (RouteQueryMessage msg) nb = do {
     (response, nb1) \<leftarrow> handle_route_query_message W msg nb;
     ret ([RouteAnswer response], nb1) }"
| "dispatch W (GossipReceived gossip source) nb = handle_gossip W gossip source nb"
| "dispatch W (GossipFailureReceived failure source) nb = handle_gossip_failure source nb"
| "dispatch W (RemoveNeighborMessage k) nb = handle_remove_neighbor_message W k nb"
| "dispatch W (ConnectionProgressMessage msg) nb = handle_connection_progress_message msg nb"
| "dispatch W (AskAboutDebutGossipMessage prev) nb = handle_ask_about_debut_gossip_message prev nb"
| "dispatch W (UpdateNodeRecordMetadataMessage k hostname) nb = handle_update_node_record_metadata k hostname nb"
| "dispatch W (StreamShutdownMsg peer_addr stream_type) nb = handle_stream_shutdown_msg W peer_addr stream_type nb"
| "dispatch W (UiSetExitLocationRequest message client_id context_id) nb =
     handle_exit_location_message W message client_id context_id nb"
| "dispatch W (UiConnectionStatusRequest client_id context_id) nb = handle_connection_status_message client_id context_id nb"
| "dispatch W UiShutdownRequest nb = handle_shutdown_order nb"

end
