(* ===== verification/Best_Routes.thy ===== *)
theory Best_Routes
  imports Routing
begin

text \<open>
  What the routing engine computes: the routes it may return, described without the search order and
  without pruning, and the proof that it returns a cheapest one of them, or none if there is none.
\<close>

section \<open>The routes of a search\<close>

definition country_qualifies :: "routing_args \<Rightarrow> node_record \<Rightarrow> bool" where
  "country_qualifies A r \<longleftrightarrow> validate_last_node_country_code (ra_db A) (ra_preferences A)
     (public_key r) False (ra_direction A)"

text \<open>A prefix is a complete route, or the search goes on from it.\<close>

definition completes :: "routing_args \<Rightarrow> public_key list \<Rightarrow> nat \<Rightarrow> bool" where
  "completes A p h \<longleftrightarrow> (\<exists>r. node_by_key (ra_db A) (last p) = Some r \<and> position_qualifies A p h r \<and> country_qualifies A r)"

definition goes_on :: "routing_args \<Rightarrow> public_key list \<Rightarrow> nat \<Rightarrow> node_record \<Rightarrow> bool" where
  "goes_on A p h r \<longleftrightarrow> (if position_qualifies A p h r then \<not> country_qualifies A r else \<not> gives_up A h)"

definition next_cost :: "routing_args \<Rightarrow> node_record \<Rightarrow> int \<Rightarrow> nat \<Rightarrow> int" where
  "next_cost A r u h = compute_new_undesirability r u (ra_target_opt A) h (ra_payload_size A) (ra_direction A) (ra_hostname_opt A)"

inductive extends :: "routing_args \<Rightarrow> public_key list \<Rightarrow> int \<Rightarrow> nat \<Rightarrow> public_key list \<Rightarrow> int \<Rightarrow> nat \<Rightarrow> bool" where
  extends_refl: "extends A p u h p u h"
| extends_step: "node_by_key (ra_db A) (last p) = Some r \<Longrightarrow> goes_on A p h r \<Longrightarrow>
    has_full_neighbor r (ra_db A) k \<Longrightarrow> node_by_key (ra_db A) k = Some n \<Longrightarrow> k \<notin> set p \<Longrightarrow>
    routes_data n \<or> is_orig_node_on_back_leg n (ra_target_opt A) (ra_direction A) \<Longrightarrow>
    extends A (p @ [k]) (next_cost A n u (h - 1)) (h - 1) p' u' h' \<Longrightarrow> extends A p u h p' u' h'"

definition route_from :: "routing_args \<Rightarrow> public_key list \<Rightarrow> int \<Rightarrow> nat \<Rightarrow> public_key list \<Rightarrow> int \<Rightarrow> bool" where
  "route_from A p u h p' u' \<longleftrightarrow> (\<exists>h'. extends A p u h p' u' h' \<and> completes A p' h')"

section \<open>Prices that cannot overflow\<close>

text \<open>
  The two charges of every Node for the payload are not negative as \<open>i64\<close>; with the undesirability of
  its country and the penalty for an unreachable host they come to at most \<open>B\<close>; and charging every
  Node once stays below the largest \<open>i64\<close>.
\<close>

definition fair_costs :: "neighborhood_database \<Rightarrow> u64 \<Rightarrow> int \<Rightarrow> bool" where
  "fair_costs db payload_size B \<longleftrightarrow>
     fmpred (\<lambda>_ r. 0 \<le> sint (routing_charge (rate_pack_of r) payload_size) \<and>
        0 \<le> sint (exit_charge (rate_pack_of r) payload_size) \<and>
        sint (routing_charge (rate_pack_of r) payload_size) + sint (exit_charge (rate_pack_of r) payload_size) +
          uint (nrm_country_undesirability (nr_metadata r)) + UNREACHABLE_HOST_PENALTY \<le> B)
       (ndb_by_public_key db) \<and>
     int (fcard (fmdom (ndb_by_public_key db))) * B < i64_max"

lemma fair_costs_bound:
  assumes "fair_costs db payload_size B" and r: "node_by_key db k = Some r"
  shows "0 \<le> compute_undesirability r payload_size t \<and> compute_undesirability r payload_size t \<le> B"
proof -
  let ?n = "fcard (fmdom (ndb_by_public_key db))" and ?e = "sint (exit_charge (rate_pack_of r) payload_size)"
    and ?o = "sint (routing_charge (rate_pack_of r) payload_size)" and ?c = "uint (nrm_country_undesirability (nr_metadata r))"
  have pos: "0 \<le> ?o" "0 \<le> ?e" "?o + ?e + ?c + UNREACHABLE_HOST_PENALTY \<le> B"
    using assms unfolding fair_costs_def node_by_key_def fmpred_iff by blast+
  have c: "0 \<le> ?c" by simp
  have h: "0 \<le> UNREACHABLE_HOST_PENALTY" by (simp add: UNREACHABLE_HOST_PENALTY_def)
  have B0: "0 \<le> B" using pos c h by linarith
  have "1 \<le> ?n"
  proof -
    have "k \<in> fset (fmdom (ndb_by_public_key db))" using r by (auto simp: node_by_key_def intro: fmdomI)
    then have "card (fset (fmdom (ndb_by_public_key db))) \<noteq> 0" by auto
    then show ?thesis unfolding fcard.rep_eq by linarith
  qed
  then have "1 * B \<le> int ?n * B" using B0 by (intro mult_right_mono) auto
  then have B: "B < i64_max" using assms(1) by (simp add: fair_costs_def)
  have w: "wrap_i64 x = x" if "0 \<le> x" "x \<le> B" for x
    using that B by (intro wrap_i64_id) auto
  show ?thesis
  proof (cases t)
    case Relay
    show ?thesis unfolding Relay compute_undesirability.simps using pos c h by linarith
  next
    case (ExitRequest host)
    have "wrap_i64 (?e + ?c) = ?e + ?c" "wrap_i64 ?e = ?e"
      "wrap_i64 (?e + UNREACHABLE_HOST_PENALTY) = ?e + UNREACHABLE_HOST_PENALTY"
      "wrap_i64 (?e + UNREACHABLE_HOST_PENALTY + ?c) = ?e + UNREACHABLE_HOST_PENALTY + ?c"
      by (rule w; use pos c h in linarith)+
    note wraps = this
    show ?thesis
    proof (cases host)
      case None
      show ?thesis unfolding ExitRequest None compute_undesirability.simps wraps using pos c h by linarith
    next
      case (Some hostname)
      show ?thesis
        unfolding ExitRequest Some compute_undesirability.simps Let_def
        by (cases "hostname |\<in>| nrm_unreachable_hosts (nr_metadata r)"; simp only: if_True if_False add_0_right wraps)
          (use pos c h in linarith)+
    qed
  next
    case ExitAndRouteResponse
    have "wrap_i64 (?e + ?o) = ?e + ?o" by (rule w; use pos c h in linarith)
    then show ?thesis unfolding ExitAndRouteResponse compute_undesirability.simps using pos c h by linarith
  qed
qed

definition sound_prefix :: "routing_args \<Rightarrow> int \<Rightarrow> public_key list \<Rightarrow> int \<Rightarrow> bool" where
  "sound_prefix A B p u \<longleftrightarrow> p \<noteq> [] \<and> distinct p \<and> (\<forall>k \<in> set p. node_by_key (ra_db A) k \<noteq> None) \<and>
     0 \<le> u \<and> u \<le> int (length p) * B"

lemma known_keys_length:
  assumes "distinct p" and "\<forall>k \<in> set p. node_by_key db k \<noteq> None"
  shows "length p \<le> fcard (fmdom (ndb_by_public_key db))"
proof -
  have "set p \<subseteq> fset (fmdom (ndb_by_public_key db))"
    using assms(2) by (auto simp: node_by_key_def intro: fmdomI)
  then have "card (set p) \<le> card (fset (fmdom (ndb_by_public_key db)))"
    by (rule card_mono [OF finite_fset])
  then show ?thesis using assms(1) by (simp add: distinct_card fcard.rep_eq)
qed

lemma sound_prefix_below:
  assumes "fair_costs (ra_db A) (ra_payload_size A) B" and "sound_prefix A B p u"
  shows "u < i64_max"
proof -
  let ?n = "fcard (fmdom (ndb_by_public_key (ra_db A)))"
  from assms(2) obtain k r where "node_by_key (ra_db A) k = Some r"
    unfolding sound_prefix_def by (metis hd_in_set not_None_eq)
  then have "0 \<le> B" using fair_costs_bound [OF assms(1), of k r Relay] by linarith
  moreover have "length p \<le> ?n" using assms(2) by (simp add: sound_prefix_def known_keys_length)
  ultimately have "int (length p) * B \<le> int ?n * B" by (simp add: mult_right_mono)
  with assms show ?thesis by (simp add: sound_prefix_def fair_costs_def)
qed

lemma sound_prefix_step:
  assumes costs: "fair_costs (ra_db A) (ra_payload_size A) B" and p: "sound_prefix A B p u"
    and n: "node_by_key (ra_db A) k = Some n" and k: "k \<notin> set p"
  shows "u \<le> next_cost A n u h \<and> sound_prefix A B (p @ [k]) (next_cost A n u h)"
proof -
  have u: "\<exists>c. next_cost A n u h = wrap_i64 (u + c) \<and> 0 \<le> c \<and> c \<le> B"
    unfolding next_cost_def compute_new_undesirability_def Let_def
    using fair_costs_bound [OF costs n] by blast
  then obtain c where c: "next_cost A n u h = wrap_i64 (u + c)" "0 \<le> c" "c \<le> B" by blast
  have step: "sound_prefix A B (p @ [k]) (u + c)"
    using p n k c(2,3) by (auto simp: sound_prefix_def algebra_simps)
  from sound_prefix_below [OF costs step] have "u + c \<le> i64_max" by simp
  moreover have "0 \<le> u + c" using step by (simp add: sound_prefix_def)
  ultimately have "next_cost A n u h = u + c" unfolding c(1) by (intro wrap_i64_id) simp_all
  with step c(2) show ?thesis by simp
qed

lemma extends_sound:
  assumes "extends A p u h p' u' h'" and "fair_costs (ra_db A) (ra_payload_size A) B" and "sound_prefix A B p u"
  shows "u \<le> u' \<and> sound_prefix A B p' u'"
  using assms
proof (induction rule: extends.induct)
  case (extends_refl A p u h)
  then show ?case by simp
next
  case (extends_step A p r h k n u p' u' h')
  from sound_prefix_step [OF extends_step.prems(1,2) extends_step.hyps(4,5), of "h - 1"]
    extends_step.IH [OF extends_step.prems(1)]
  show ?case by auto
qed

section \<open>The search finds a cheapest route\<close>

text \<open>What one call leaves, for the set \<open>R\<close> of routes below its prefix.\<close>

definition finds_best ::
  "(public_key list \<Rightarrow> int \<Rightarrow> bool) \<Rightarrow> int \<Rightarrow> computed_route_segment list \<Rightarrow> int \<Rightarrow> bool" where
  "finds_best R mn rs mn' \<longleftrightarrow>
     (\<forall>s \<in> set rs. R (crs_nodes s) (crs_undesirability s)) \<and> mn' \<le> mn \<and>
     (mn' = mn \<or> (\<exists>s \<in> set rs. crs_undesirability s = mn')) \<and> (\<forall>p u. R p u \<longrightarrow> mn' \<le> u)"

lemma finds_best_append:
  assumes "finds_best R mn rs mn'" and "finds_best R' mn' rs' mn''"
  shows "finds_best (\<lambda>p u. R p u \<or> R' p u) mn (rs @ rs') mn''"
  unfolding finds_best_def
proof (intro conjI ballI allI impI)
  show "mn'' \<le> mn" using assms unfolding finds_best_def by linarith
  show "mn'' = mn \<or> (\<exists>s\<in>set (rs @ rs'). crs_undesirability s = mn'')"
    using assms unfolding finds_best_def by auto
  show "R (crs_nodes s) (crs_undesirability s) \<or> R' (crs_nodes s) (crs_undesirability s)" if "s \<in> set (rs @ rs')" for s
    using that assms unfolding finds_best_def by auto
  show "mn'' \<le> u" if "R p u \<or> R' p u" for p u
  proof -
    from that show ?thesis
    proof
      assume "R p u"
      then have "mn' \<le> u" using assms(1) unfolding finds_best_def by blast
      moreover have "mn'' \<le> mn'" using assms(2) unfolding finds_best_def by blast
      ultimately show ?thesis by linarith
    next
      assume "R' p u"
      then show ?thesis using assms(2) unfolding finds_best_def by blast
    qed
  qed
qed

lemma finds_best_cong: "(\<And>p u. R p u \<longleftrightarrow> R' p u) \<Longrightarrow> finds_best R mn rs mn' = finds_best R' mn rs mn'"
  unfolding finds_best_def by simp

lemma iter_flat_map_finds_best:
  assumes "\<And>x mn. x \<in> set xs \<Longrightarrow> \<exists>rs mn'. f x (mn, ex) = Some (rs, mn', ex) \<and> finds_best (R x) mn rs mn'"
  shows "\<exists>rs mn'. iter_flat_map f xs (mn, ex) = Some (rs, mn', ex) \<and>
    finds_best (\<lambda>p u. \<exists>x \<in> set xs. R x p u) mn rs mn'"
  using assms
proof (induction xs arbitrary: mn)
  case Nil
  then show ?case by (simp add: finds_best_def)
next
  case (Cons x xs)
  from Cons.prems [of x mn] obtain rs mn' where 1: "f x (mn, ex) = Some (rs, mn', ex)" "finds_best (R x) mn rs mn'" by auto
  from Cons.IH [of mn'] Cons.prems obtain rs' mn'' where
    2: "iter_flat_map f xs (mn', ex) = Some (rs', mn'', ex)" "finds_best (\<lambda>p u. \<exists>x \<in> set xs. R x p u) mn' rs' mn''" by auto
  from finds_best_append [OF 1(2) 2(2)]
  have "finds_best (\<lambda>p u. \<exists>y \<in> set (x # xs). R y p u) mn (rs @ rs') mn''"
    by (rule finds_best_cong [THEN iffD1, rotated]) simp
  with 1(1) 2(1) show ?case by simp
qed

lemma in_next_nodes:
  assumes "wf_db (ra_db A)" and "env_ok (ra_env A)" and "full_neighbors (ra_env A) r (ra_db A) = Some ns"
  shows "n \<in> set (next_nodes A p ns) \<longleftrightarrow> (\<exists>k. has_full_neighbor r (ra_db A) k \<and> node_by_key (ra_db A) k = Some n \<and>
    k \<notin> set p \<and> (routes_data n \<or> is_orig_node_on_back_leg n (ra_target_opt A) (ra_direction A)))"
proof -
  let ?db = "ra_db A"
  have ns: "ns = map (\<lambda>k. the (node_by_key ?db k)) (env_iter (ra_env A) (full_neighbor_keys r ?db))"
    using full_neighbors_run [OF assms(2), of r ?db] assms(3) by simp
  have "n \<in> set ns \<longleftrightarrow> (\<exists>k. has_full_neighbor r ?db k \<and> node_by_key ?db k = Some n)"
  proof -
    have "n \<in> set ns \<longleftrightarrow> (\<exists>k. k |\<in>| full_neighbor_keys r ?db \<and> the (node_by_key ?db k) = n)"
      using assms(2) by (auto simp: ns image_iff)
    moreover have "node_by_key ?db k \<noteq> None" if "k |\<in>| full_neighbor_keys r ?db" for k
      using that by (auto simp: in_full_neighbor_keys)
    ultimately show ?thesis unfolding has_full_neighbor_iff by (metis option.collapse option.sel)
  qed
  moreover have "public_key n = k" if "node_by_key ?db k = Some n" for k
    using wf_db_key [OF assms(1) that] by simp
  ultimately show ?thesis unfolding next_nodes_def by auto
qed

lemma route_from_step:
  assumes "wf_db (ra_db A)" and "env_ok (ra_env A)" and "full_neighbors (ra_env A) r (ra_db A) = Some ns"
    and "node_by_key (ra_db A) (last p) = Some r" and "goes_on A p h r"
  shows "route_from A p u h p' u' \<longleftrightarrow>
    (\<exists>n \<in> set (next_nodes A p ns). route_from A (p @ [public_key n]) (next_cost A n u (h - 1)) (h - 1) p' u')"
proof
  assume "route_from A p u h p' u'"
  then obtain h' where "extends A p u h p' u' h'" and c: "completes A p' h'" by (auto simp: route_from_def)
  from this(1) show "\<exists>n \<in> set (next_nodes A p ns). route_from A (p @ [public_key n]) (next_cost A n u (h - 1)) (h - 1) p' u'"
  proof cases
    case extends_refl
    with c assms(4,5) show ?thesis by (auto simp: completes_def goes_on_def)
  next
    case (extends_step r' k n)
    with assms(4) have "n \<in> set (next_nodes A p ns)" unfolding in_next_nodes [OF assms(1-3)] by auto
    moreover have "public_key n = k" using wf_db_key [OF assms(1) extends_step(4)] by simp
    ultimately show ?thesis using extends_step(7) c unfolding route_from_def by metis
  qed
next
  assume "\<exists>n \<in> set (next_nodes A p ns). route_from A (p @ [public_key n]) (next_cost A n u (h - 1)) (h - 1) p' u'"
  then obtain n h' where n: "n \<in> set (next_nodes A p ns)"
    and e: "extends A (p @ [public_key n]) (next_cost A n u (h - 1)) (h - 1) p' u' h'" "completes A p' h'"
    unfolding route_from_def by blast
  from n obtain k where k: "has_full_neighbor r (ra_db A) k" "node_by_key (ra_db A) k = Some n" "k \<notin> set p"
    "routes_data n \<or> is_orig_node_on_back_leg n (ra_target_opt A) (ra_direction A)"
    unfolding in_next_nodes [OF assms(1-3)] by blast
  have "public_key n = k" using wf_db_key [OF assms(1) k(2)] by simp
  with e(1) have "extends A p u h p' u' h'"
    using extends.extends_step [OF assms(4,5) k] by simp
  with e(2) show "route_from A p u h p' u'" by (auto simp: route_from_def)
qed


lemma route_from_end:
  assumes "node_by_key (ra_db A) (last p) = Some r" and "\<not> goes_on A p h r"
  shows "route_from A p u h p' u' \<longleftrightarrow> position_qualifies A p h r \<and> country_qualifies A r \<and> p' = p \<and> u' = u"
proof
  assume "route_from A p u h p' u'"
  then obtain h' where "extends A p u h p' u' h'" and c: "completes A p' h'" by (auto simp: route_from_def)
  from this(1) show "position_qualifies A p h r \<and> country_qualifies A r \<and> p' = p \<and> u' = u"
    by cases (use c assms in \<open>auto simp: completes_def\<close>)
next
  assume "position_qualifies A p h r \<and> country_qualifies A r \<and> p' = p \<and> u' = u"
  with assms(1) show "route_from A p u h p' u'"
    unfolding route_from_def completes_def using extends_refl by blast
qed

lemma routing_guts_finds_best:
  assumes wf: "wf_db (ra_db A)" and env: "env_ok (ra_env A)" and costs: "fair_costs (ra_db A) (ra_payload_size A) B"
    and p: "sound_prefix A B p u" and r: "node_by_key (ra_db A) (last p) = Some r" and on: "goes_on A p h r"
    and engine: "\<And>n u' h' mn. card (unused_keys A (p @ [public_key n])) < card (unused_keys A p) \<Longrightarrow>
      sound_prefix A B (p @ [public_key n]) u' \<Longrightarrow>
      \<exists>rs mn'. routing_engine A (p @ [public_key n]) u' h' (mn, ex) = Some (rs, mn', ex) \<and>
        finds_best (route_from A (p @ [public_key n]) u' h') mn rs mn'"
  shows "\<exists>rs mn'. routing_guts A p u h r (mn, ex) = Some (rs, mn', ex) \<and> finds_best (route_from A p u h) mn rs mn'"
proof -
  obtain ns where ns: "full_neighbors (ra_env A) r (ra_db A) = Some ns"
    using full_neighbors_run [OF env] by blast
  let ?f = "\<lambda>n st. routing_engine A (p @ [public_key n]) (next_cost A n u (h - 1)) (h - 1) st"
  let ?R = "\<lambda>n. route_from A (p @ [public_key n]) (next_cost A n u (h - 1)) (h - 1)"
  have "\<exists>rs mn'. ?f n (mn, ex) = Some (rs, mn', ex) \<and> finds_best (?R n) mn rs mn'"
    if n: "n \<in> set (next_nodes A p ns)" for n mn
  proof (rule engine)
    show "card (unused_keys A (p @ [public_key n])) < card (unused_keys A p)"
      by (rule unused_keys_decrease [OF ns n])
    from n obtain k where k: "node_by_key (ra_db A) k = Some n" "k \<notin> set p"
      unfolding in_next_nodes [OF wf env ns] by blast
    have "public_key n = k" using wf_db_key [OF wf k(1)] by simp
    then show "sound_prefix A B (p @ [public_key n]) (next_cost A n u (h - 1))"
      using sound_prefix_step [OF costs p k] by simp
  qed
  from iter_flat_map_finds_best [of "next_nodes A p ns" ?f ex ?R mn, OF this] obtain rs mn' where
    it: "iter_flat_map ?f (next_nodes A p ns) (mn, ex) = Some (rs, mn', ex)"
    "finds_best (\<lambda>p' u'. \<exists>n \<in> set (next_nodes A p ns). ?R n p' u') mn rs mn'" by blast
  have "finds_best (route_from A p u h) mn rs mn'"
    using it(2) finds_best_cong [OF route_from_step [OF wf env ns r on]] by (rule iffD2 [rotated])
  with it(1) ns show ?thesis by (simp add: next_cost_def Let_def del: node_record_defs)
qed

lemma routing_engine_finds_best:
  assumes wf: "wf_db (ra_db A)" and env: "env_ok (ra_env A)" and costs: "fair_costs (ra_db A) (ra_payload_size A) B"
    and research: "\<not> ra_research A" and p: "sound_prefix A B p u"
  shows "\<exists>rs mn'. routing_engine A p u h (mn, ex) = Some (rs, mn', ex) \<and> finds_best (route_from A p u h) mn rs mn'"
  using p
proof (induction "card (unused_keys A p)" arbitrary: p u h mn rule: less_induct)
  case less
  note p = less.prems
  from p obtain r where r: "node_by_key (ra_db A) (last p) = Some r" unfolding sound_prefix_def
    by (metis last_in_set not_None_eq)
  note guts = routing_guts_finds_best [OF wf env costs p r _ less.hyps, where h = h and mn = mn, simplified]
  show ?case
  proof (cases "u > mn")
    case True
    have "mn \<le> u'" if "route_from A p u h p' u'" for p' u'
      using that True extends_sound [OF _ costs p] unfolding route_from_def by fastforce
    with True research show ?thesis by (simp add: finds_best_def)
  next
    case cheap: False
    show ?thesis
    proof (cases "goes_on A p h r")
      case True
      then have "routing_engine A p u h (mn, ex) = routing_guts A p u h r (mn, ex)"
        using cheap research p r
        by (auto simp: sound_prefix_def goes_on_def country_qualifies_def simp del: routing_guts.simps split: if_splits)
      with guts [OF True] show ?thesis by simp
    next
      case end': False
      show ?thesis
      proof (cases "position_qualifies A p h r")
        case True
        with end' have c: "country_qualifies A r" by (simp add: goes_on_def)
        have "routing_engine A p u h (mn, ex) = Some ([\<lparr>crs_nodes = p, crs_undesirability = u\<rparr>], u, ex)"
          using cheap research p r True c by (simp add: sound_prefix_def country_qualifies_def)
        with cheap True c show ?thesis by (simp add: finds_best_def route_from_end [OF r end'])
      next
        case False
        with end' have "gives_up A h" by (simp add: goes_on_def)
        with cheap research p r False have "routing_engine A p u h (mn, ex) = Some ([], mn, ex)"
          by (simp add: sound_prefix_def)
        with False show ?thesis by (simp add: finds_best_def route_from_end [OF r end'])
      qed
    qed
  qed
qed

section \<open>What a route looks like\<close>

definition path_ok :: "routing_args \<Rightarrow> public_key list \<Rightarrow> bool" where
  "path_ok A p \<longleftrightarrow> p \<noteq> [] \<and> distinct p \<and>
     (\<forall>i. Suc i < length p \<longrightarrow> db_has_full_neighbor (ra_db A) (p ! i) (p ! Suc i)) \<and>
     (\<forall>k \<in> set (tl p). \<exists>n. node_by_key (ra_db A) k = Some n \<and>
        (routes_data n \<or> ra_direction A = Back \<and> ra_target_opt A = Some k))"

lemma path_ok_snoc:
  assumes "wf_db (ra_db A)" and "path_ok A p" and "node_by_key (ra_db A) (last p) = Some r"
    and "has_full_neighbor r (ra_db A) k" and "node_by_key (ra_db A) k = Some n" and "k \<notin> set p"
    and "routes_data n \<or> is_orig_node_on_back_leg n (ra_target_opt A) (ra_direction A)"
  shows "path_ok A (p @ [k])"
  unfolding path_ok_def
proof (intro conjI ballI allI impI)
  show "p @ [k] \<noteq> []" by simp
  show "distinct (p @ [k])" using assms(2,6) by (simp add: path_ok_def)
  have p: "p \<noteq> []" using assms(2) by (simp add: path_ok_def)
  fix i assume i: "Suc i < length (p @ [k])"
  show "db_has_full_neighbor (ra_db A) ((p @ [k]) ! i) ((p @ [k]) ! Suc i)"
  proof (cases "Suc i < length p")
    case True
    then show ?thesis using assms(2) by (simp add: path_ok_def nth_append)
  next
    case False
    with i have i: "Suc i = length p" by simp
    have "db_has_full_neighbor (ra_db A) (last p) k"
      using assms(3,4) by (auto simp: db_has_full_neighbor_iff [OF assms(1)])
    moreover have "(p @ [k]) ! i = last p" "(p @ [k]) ! Suc i = k"
    proof -
      from i have "i = length p - 1" by simp
      with p show "(p @ [k]) ! i = last p" by (simp add: nth_append last_conv_nth)
      show "(p @ [k]) ! Suc i = k" using i by (simp add: nth_append)
    qed
    ultimately show ?thesis by simp
  qed
next
  fix k' assume "k' \<in> set (tl (p @ [k]))"
  moreover have "p \<noteq> []" using assms(2) by (simp add: path_ok_def)
  ultimately have "k' \<in> set (tl p) \<or> k' = k" by (auto simp: tl_append2)
  then show "\<exists>n. node_by_key (ra_db A) k' = Some n \<and>
      (routes_data n \<or> ra_direction A = Back \<and> ra_target_opt A = Some k')"
  proof
    assume "k' \<in> set (tl p)"
    then show ?thesis using assms(2) unfolding path_ok_def by blast
  next
    assume "k' = k"
    with assms(5,7) wf_db_key [OF assms(1,5)] show ?thesis
      by (auto simp: is_orig_node_on_back_leg_def split: route_direction.splits option.splits)
  qed
qed

lemma extends_path:
  assumes "extends A p u h p' u' h'" and "wf_db (ra_db A)" and "path_ok A p"
  shows "path_ok A p' \<and> hd p' = hd p \<and> length p \<le> length p' \<and> length p + h \<le> length p' + h'"
  using assms
proof (induction rule: extends.induct)
  case (extends_refl A p u h)
  then show ?case by simp
next
  case (extends_step A p r h k n u p' u' h')
  from path_ok_snoc [OF extends_step.prems extends_step.hyps(1,3,4,5,6)]
  have "path_ok A (p @ [k])" .
  from extends_step.IH [OF extends_step.prems(1) this]
  have "path_ok A p'" "hd p' = hd (p @ [k])" "length (p @ [k]) \<le> length p'"
    "length (p @ [k]) + (h - 1) \<le> length p' + h'" by blast+
  moreover have "p \<noteq> []" using extends_step.prems(2) by (simp add: path_ok_def)
  ultimately show ?case by simp
qed

lemma route_from_shape:
  assumes "route_from A [source] u h p u'" and "wf_db (ra_db A)" and "node_by_key (ra_db A) source = Some r"
  shows "path_ok A p" and "hd p = source" and "h < length p"
    and "\<exists>r. node_by_key (ra_db A) (last p) = Some r \<and> last_key_qualifies r (ra_target_opt A) \<and> country_qualifies A r"
    and "2 < length p \<longrightarrow> \<not> db_has_half_neighbor (ra_db A) (last p) source"
proof -
  from assms(1) obtain h' where e: "extends A [source] u h p u' h'" and c: "completes A p h'"
    by (auto simp: route_from_def)
  have "path_ok A [source]" by (simp add: path_ok_def)
  from extends_path [OF e assms(2) this] have p: "path_ok A p" "hd p = source" "Suc h \<le> length p + h'" by auto
  from c obtain n where n: "node_by_key (ra_db A) (last p) = Some n" "position_qualifies A p h' n" "country_qualifies A n"
    unfolding completes_def by blast
  from n(2) have h': "h' = 0" by (simp add: position_qualifies_def route_length_qualifies_def)
  show "path_ok A p" "hd p = source" "h < length p" using p h' by simp_all
  show "\<exists>r. node_by_key (ra_db A) (last p) = Some r \<and> last_key_qualifies r (ra_target_opt A) \<and> country_qualifies A r"
    using n by (auto simp: position_qualifies_def)
  show "2 < length p \<longrightarrow> \<not> db_has_half_neighbor (ra_db A) (last p) source"
    using n(2) p(2) wf_db_key [OF assms(2) n(1)]
    by (auto simp: position_qualifies_def validate_last_node_not_too_close_to_first_node_def)
qed

section \<open>The search returns whatever the prices are\<close>

text \<open>
  Neither that the search returns nor the shape of what it finds depends on the prices: a
  search below a prefix leaves only routes, and only exits, that extend it from full neighbor to full neighbor.
\<close>

definition reached :: "routing_args \<Rightarrow> public_key list \<Rightarrow> nat \<Rightarrow> public_key list \<Rightarrow> bool" where
  "reached A p h p' \<longleftrightarrow> path_ok A p' \<and> hd p' = hd p \<and> length p + h \<le> length p' \<and>
     (\<exists>n. node_by_key (ra_db A) (last p') = Some n) \<and>
     (2 < length p' \<longrightarrow> \<not> db_has_half_neighbor (ra_db A) (last p') (hd p'))"

definition completed :: "routing_args \<Rightarrow> public_key list \<Rightarrow> nat \<Rightarrow> public_key list \<Rightarrow> bool" where
  "completed A p h p' \<longleftrightarrow> reached A p h p' \<and>
     (\<exists>n. node_by_key (ra_db A) (last p') = Some n \<and> last_key_qualifies n (ra_target_opt A) \<and> country_qualifies A n)"

definition leaves_routes ::
  "routing_args \<Rightarrow> public_key list \<Rightarrow> nat \<Rightarrow> public_key list \<Rightarrow> (computed_route_segment list \<times> search_state) run \<Rightarrow> bool" where
  "leaves_routes A p h ex out \<longleftrightarrow> (\<exists>rs mn' ex'. out = Some (rs, mn', ex') \<and> (\<forall>s \<in> set rs. completed A p h (crs_nodes s)) \<and>
     (\<forall>k \<in> set ex'. k \<in> set ex \<or> (\<exists>p'. reached A p h p' \<and> last p' = k)) \<and> (\<not> ra_research A \<longrightarrow> ex' = ex) \<and> (distinct ex \<longrightarrow> distinct ex'))"

lemma reached_weaken: "reached A (p @ [k]) (h - 1) p' \<Longrightarrow> p \<noteq> [] \<Longrightarrow> reached A p h p'"
  by (auto simp: reached_def)

lemma completed_weaken: "completed A (p @ [k]) (h - 1) p' \<Longrightarrow> p \<noteq> [] \<Longrightarrow> completed A p h p'"
  by (auto simp: completed_def intro: reached_weaken)

lemma leaves_routes_none: "leaves_routes A p h ex (Some ([], mn, ex))"
  by (simp add: leaves_routes_def)

lemma iter_flat_map_leaves_routes:
  assumes "\<And>x mn ex. x \<in> set xs \<Longrightarrow> leaves_routes A (p @ [g x]) (h - 1) ex (f x (mn, ex))" and "p \<noteq> []"
  shows "leaves_routes A p h ex (iter_flat_map f xs (mn, ex))"
  using assms(1)
proof (induction xs arbitrary: mn ex)
  case Nil
  then show ?case by (simp add: leaves_routes_none)
next
  case (Cons x xs)
  from Cons.prems [of x ex mn] obtain rs mn' ex' where 1: "f x (mn, ex) = Some (rs, mn', ex')"
    "\<forall>s \<in> set rs. completed A (p @ [g x]) (h - 1) (crs_nodes s)"
    "\<forall>k \<in> set ex'. k \<in> set ex \<or> (\<exists>p'. reached A (p @ [g x]) (h - 1) p' \<and> last p' = k)"
    "\<not> ra_research A \<longrightarrow> ex' = ex" "distinct ex \<longrightarrow> distinct ex'"
    unfolding leaves_routes_def by auto
  have "leaves_routes A p h ex' (iter_flat_map f xs (mn', ex'))" using Cons by simp
  then obtain rs' mn'' ex'' where 2: "iter_flat_map f xs (mn', ex') = Some (rs', mn'', ex'')"
    "\<forall>s \<in> set rs'. completed A p h (crs_nodes s)" "\<forall>k \<in> set ex''. k \<in> set ex' \<or> (\<exists>p'. reached A p h p' \<and> last p' = k)"
    "\<not> ra_research A \<longrightarrow> ex'' = ex'" "distinct ex' \<longrightarrow> distinct ex''"
    unfolding leaves_routes_def by auto
  have "\<forall>k \<in> set ex''. k \<in> set ex \<or> (\<exists>p'. reached A p h p' \<and> last p' = k)"
    using 1(3) 2(3) reached_weaken [OF _ assms(2)] by blast
  moreover have "\<forall>s \<in> set (rs @ rs'). completed A p h (crs_nodes s)"
    using 1(2) 2(2) completed_weaken [OF _ assms(2)] by auto
  ultimately show ?case using 1 2 unfolding leaves_routes_def by auto
qed

lemma routing_guts_runs:
  assumes wf: "wf_db (ra_db A)" and env: "env_ok (ra_env A)" and p: "path_ok A p"
    and r: "node_by_key (ra_db A) (last p) = Some r"
    and engine: "\<And>n u' h' mn ex r'. card (unused_keys A (p @ [public_key n])) < card (unused_keys A p) \<Longrightarrow>
      path_ok A (p @ [public_key n]) \<Longrightarrow> node_by_key (ra_db A) (public_key n) = Some r' \<Longrightarrow>
      leaves_routes A (p @ [public_key n]) h' ex (routing_engine A (p @ [public_key n]) u' h' (mn, ex))"
  shows "leaves_routes A p h ex (routing_guts A p u h r (mn, ex))"
proof -
  obtain ns where ns: "full_neighbors (ra_env A) r (ra_db A) = Some ns"
    using full_neighbors_run [OF env] by blast
  let ?f = "\<lambda>n st. routing_engine A (p @ [public_key n]) (next_cost A n u (h - 1)) (h - 1) st"
  have "leaves_routes A (p @ [public_key n]) (h - 1) ex (?f n (mn, ex))" if n: "n \<in> set (next_nodes A p ns)" for n mn ex
  proof -
    from n obtain k where k: "has_full_neighbor r (ra_db A) k" "node_by_key (ra_db A) k = Some n" "k \<notin> set p"
      "routes_data n \<or> is_orig_node_on_back_leg n (ra_target_opt A) (ra_direction A)"
      unfolding in_next_nodes [OF wf env ns] by blast
    have key: "public_key n = k" using wf_db_key [OF wf k(2)] by simp
    show ?thesis
      by (rule engine [of _ n]) (use unused_keys_decrease [OF ns n] path_ok_snoc [OF wf p r k] k(2) key in simp_all)
  qed
  moreover have "p \<noteq> []" using p by (simp add: path_ok_def)
  ultimately have "leaves_routes A p h ex (iter_flat_map ?f (next_nodes A p ns) (mn, ex))"
    by (rule iter_flat_map_leaves_routes)
  with ns show ?thesis by (simp add: next_cost_def Let_def del: node_record_defs)
qed

lemma routing_engine_runs:
  assumes wf: "wf_db (ra_db A)" and env: "env_ok (ra_env A)"
    and p: "path_ok A p" and r: "node_by_key (ra_db A) (last p) = Some r"
  shows "leaves_routes A p h ex (routing_engine A p u h (mn, ex))"
  using p r
proof (induction "card (unused_keys A p)" arbitrary: p r u h mn ex rule: less_induct)
  case less
  note p = less.prems(1) and r = less.prems(2)
  have ne: "p \<noteq> []" using p by (simp add: path_ok_def)
  have guts: "leaves_routes A p h ex (routing_guts A p u h r (mn, ex))" for ex
    by (rule routing_guts_runs [OF wf env p r]) (rule less.hyps, simp_all)
  have key: "nri_public_key (nr_inner r) = last p" by (rule wf_db_key [OF wf r])
  show ?case
  proof (cases "position_qualifies A p h r")
    case True
    then have here: "reached A p h p" "last_key_qualifies r (ra_target_opt A)"
      using p r key by (auto simp: reached_def position_qualifies_def route_length_qualifies_def
          validate_last_node_not_too_close_to_first_node_def)
    have found: "leaves_routes A p h ex (Some ([\<lparr>crs_nodes = p, crs_undesirability = u\<rparr>], mn', ex))"
      if "country_qualifies A r" for mn'
      using here that r unfolding leaves_routes_def completed_def by auto
    have exit: "leaves_routes A p h ex (routing_guts A p u h r (mn, ex @ [last p]))" if "ra_research A" "last p \<notin> set ex"
      using guts [of "ex @ [last p]"] that here unfolding leaves_routes_def by fastforce
    show ?thesis
      using ne r True guts found exit leaves_routes_none [of A p h ex]
      by (auto simp: country_qualifies_def simp del: routing_guts.simps)
  next
    case False
    with ne r guts leaves_routes_none [of A p h ex] show ?thesis by (simp del: routing_guts.simps)
  qed
qed

section \<open>Properties\<close>

definition segment_args ::
  "node_env \<Rightarrow> neighborhood_database \<Rightarrow> user_exit_preferences \<Rightarrow> public_key option \<Rightarrow> u64 \<Rightarrow> route_direction \<Rightarrow>
     string option \<Rightarrow> routing_args" where
  "segment_args E db uep target_opt payload_size direction hostname_opt =
     \<lparr>ra_env = E, ra_db = db, ra_preferences = uep, ra_target_opt = target_opt, ra_payload_size = payload_size,
      ra_direction = direction, ra_hostname_opt = hostname_opt, ra_research = False\<rparr>"

lemma segment_args_sel [simp]:
  "ra_env (segment_args E db uep t ps d hn) = E" "ra_db (segment_args E db uep t ps d hn) = db"
  "ra_preferences (segment_args E db uep t ps d hn) = uep" "ra_target_opt (segment_args E db uep t ps d hn) = t"
  "ra_payload_size (segment_args E db uep t ps d hn) = ps" "ra_direction (segment_args E db uep t ps d hn) = d"
  "ra_hostname_opt (segment_args E db uep t ps d hn) = hn" "\<not> ra_research (segment_args E db uep t ps d hn)"
  by (simp_all add: segment_args_def)

lemma find_best_route_segment_run:
  assumes "wf_db db" and "env_ok E" and "fair_costs db ps B" and "node_by_key db source = Some r"
  shows "\<exists>u0 res. compute_initial_undesirability db source ps d = Some u0 \<and>
    find_best_route_segment E db uep source t h ps d hn = Some res \<and>
    (case res of
       None \<Rightarrow> \<forall>p u. \<not> route_from (segment_args E db uep t ps d hn) [source] u0 h p u
     | Some p \<Rightarrow> \<exists>u. route_from (segment_args E db uep t ps d hn) [source] u0 h p u \<and>
         (\<forall>p' u'. route_from (segment_args E db uep t ps d hn) [source] u0 h p' u' \<longrightarrow> u \<le> u'))"
proof -
  let ?A = "segment_args E db uep t ps d hn"
  obtain u0 where u0: "compute_initial_undesirability db source ps d = Some u0" "0 \<le> u0" "u0 \<le> B"
  proof (cases d)
    case Over
    have "0 \<le> compute_undesirability r ps Relay \<and> compute_undesirability r ps Relay \<le> B"
      by (rule fair_costs_bound [OF assms(3,4)])
    with Over show thesis by (intro that [of 0]) (auto simp: compute_initial_undesirability_def)
  next
    case Back
    have "0 \<le> compute_undesirability r ps ExitAndRouteResponse \<and> compute_undesirability r ps ExitAndRouteResponse \<le> B"
      by (rule fair_costs_bound [OF assms(3,4)])
    with Back assms(4) show thesis
      by (intro that [of "compute_undesirability r ps ExitAndRouteResponse"])
        (simp_all add: compute_initial_undesirability_def)
  qed
  have sp: "sound_prefix ?A B [source] u0" using u0 assms(4) by (simp add: sound_prefix_def)
  from routing_engine_finds_best [of ?A B "[source]" u0 h i64_max "[]"] assms sp obtain rs mn where
    run: "routing_engine ?A [source] u0 h (i64_max, []) = Some (rs, mn, [])"
    and best: "finds_best (route_from ?A [source] u0 h) i64_max rs mn" by auto
  have below: "u < i64_max" if "route_from ?A [source] u0 h p u" for p u
    using that extends_sound [of ?A "[source]" u0 h p u _ B] sp assms(3) sound_prefix_below [of ?A B p u]
    unfolding route_from_def by auto
  let ?res = "map_option crs_nodes (find (\<lambda>cr. crs_undesirability cr \<le> mn) rs)"
  have res: "find_best_route_segment E db uep source t h ps d hn = Some ?res"
    using u0(1) run by (simp add: find_best_route_segment_def segment_args_def)
  show ?thesis
  proof (cases "find (\<lambda>cr. crs_undesirability cr \<le> mn) rs")
    case None
    then have none: "\<forall>s \<in> set rs. \<not> crs_undesirability s \<le> mn" by (auto simp: find_None_iff)
    have "\<not> route_from ?A [source] u0 h p u" for p u
    proof
      assume p: "route_from ?A [source] u0 h p u"
      then have "mn \<le> u" using best unfolding finds_best_def by blast
      with below [OF p] have "mn \<noteq> i64_max" by simp
      with best none show False unfolding finds_best_def by force
    qed
    with u0(1) res None show ?thesis by auto
  next
    case (Some s)
    then have s: "s \<in> set rs" "crs_undesirability s \<le> mn" by (auto simp: find_Some_iff)
    have "route_from ?A [source] u0 h (crs_nodes s) (crs_undesirability s)"
      using best s(1) unfolding finds_best_def by blast
    moreover have "crs_undesirability s \<le> u'" if "route_from ?A [source] u0 h p' u'" for p' u'
      using best s(2) that unfolding finds_best_def by force
    ultimately show ?thesis using u0(1) res Some by auto
  qed
qed

lemma segment_run:
  assumes "wf_db db" and "env_ok E" and "node_by_key db source = Some r"
  shows "\<exists>res. find_best_route_segment E db uep source t h ps d hn = Some res \<and>
    (\<forall>p. res = Some p \<longrightarrow> completed (segment_args E db uep t ps d hn) [source] h p)"
proof -
  let ?A = "segment_args E db uep t ps d hn"
  obtain u0 where u0: "compute_initial_undesirability db source ps d = Some u0"
    using assms(3) by (cases d) (simp_all add: compute_initial_undesirability_def)
  have "path_ok ?A [source]" by (simp add: path_ok_def)
  from routing_engine_runs [of ?A "[source]" r h "[]" u0 i64_max] this assms obtain rs mn' ex' where
    run: "routing_engine ?A [source] u0 h (i64_max, []) = Some (rs, mn', ex')"
    "\<forall>s \<in> set rs. completed ?A [source] h (crs_nodes s)" unfolding leaves_routes_def by auto
  have "find_best_route_segment E db uep source t h ps d hn =
      Some (map_option crs_nodes (find (\<lambda>cr. crs_undesirability cr \<le> mn') rs))"
    using u0 run(1) by (simp add: find_best_route_segment_def segment_args_def)
  with run(2) show ?thesis by (auto simp: find_Some_iff)
qed

text \<open>What the shape of a route says of the search's result.\<close>

lemma best_segment_shape:
  assumes "wf_db db" and "env_ok E" and "node_by_key db source = Some r"
    and "find_best_route_segment E db uep source target_opt minimum_hops payload_size direction hostname_opt = Some (Some p)"
  shows "hd p = source \<and> (\<forall>t. target_opt = Some t \<longrightarrow> last p = t) \<and> minimum_hops < length p \<and> distinct p \<and>
    (\<forall>i. Suc i < length p \<longrightarrow> db_has_full_neighbor db (p ! i) (p ! Suc i)) \<and>
    (\<forall>k \<in> set (tl p). \<exists>n. node_by_key db k = Some n \<and> (routes_data n \<or> direction = Back \<and> target_opt = Some k)) \<and>
    (2 < length p \<longrightarrow> \<not> db_has_half_neighbor db (last p) source) \<and>
    (direction = Over \<and> uep_fallback_preference uep = ExitCountryNoFallback \<longrightarrow>
      (\<exists>n cc. node_by_key db (last p) = Some n \<and> nri_country_code_opt (nr_inner n) = Some cc \<and>
        cc \<in> set (uep_exit_countries uep)))"
proof -
  let ?A = "segment_args E db uep target_opt payload_size direction hostname_opt"
  from segment_run [OF assms(1-3), of uep target_opt minimum_hops payload_size direction hostname_opt] assms(4)
  have c: "completed ?A [source] minimum_hops p" by auto
  then obtain n where n: "node_by_key db (last p) = Some n" "last_key_qualifies n target_opt" "country_qualifies ?A n"
    by (auto simp: completed_def)
  have key: "public_key n = last p" using wf_db_key [OF assms(1) n(1)] by simp
  have "last p = t" if "target_opt = Some t" for t
    using n(2) key that by (simp add: last_key_qualifies_def)
  moreover have "\<exists>cc. nri_country_code_opt (nr_inner n) = Some cc \<and> cc \<in> set (uep_exit_countries uep)"
    if "direction = Over" "uep_fallback_preference uep = ExitCountryNoFallback"
    using n(1,3) that key unfolding country_qualifies_def validate_last_node_country_code_def
      last_node_is_always_true_def is_fallback_and_last_node_qualifies_def
    by (auto split: option.splits)
  ultimately show ?thesis using c n(1) unfolding completed_def reached_def path_ok_def by auto
qed

lemma exits_run:
  assumes "wf_db db" and "env_ok E" and "node_by_key db source = Some r"
  shows "\<exists>exits. find_exit_locations E db uep source minimum_hops = Some exits \<and> distinct exits \<and>
    (\<forall>k \<in> set exits. \<exists>p. hd p = source \<and> last p = k \<and> minimum_hops < length p \<and> distinct p \<and>
       (\<forall>i. Suc i < length p \<longrightarrow> db_has_full_neighbor db (p ! i) (p ! Suc i)) \<and>
       (\<forall>j \<in> set (tl p). \<exists>n. node_by_key db j = Some n \<and> routes_data n) \<and>
       (2 < length p \<longrightarrow> \<not> db_has_half_neighbor db k source))"
proof -
  let ?A = "\<lparr>ra_env = E, ra_db = db, ra_preferences = uep, ra_target_opt = None, ra_payload_size = PAYLOAD_ZERO_SIZE,
        ra_direction = Over, ra_hostname_opt = None, ra_research = True\<rparr>"
  have "path_ok ?A [source]" by (simp add: path_ok_def)
  from routing_engine_runs [of ?A "[source]" r minimum_hops "[]" 0 i64_max] this assms obtain rs mn' exits where
    run: "routing_engine ?A [source] 0 minimum_hops (i64_max, []) = Some (rs, mn', exits)" "distinct exits"
    "\<forall>k \<in> set exits. \<exists>p'. reached ?A [source] minimum_hops p' \<and> last p' = k" unfolding leaves_routes_def by auto
  have "\<exists>p. hd p = source \<and> last p = k \<and> minimum_hops < length p \<and> distinct p \<and>
       (\<forall>i. Suc i < length p \<longrightarrow> db_has_full_neighbor db (p ! i) (p ! Suc i)) \<and>
       (\<forall>j \<in> set (tl p). \<exists>n. node_by_key db j = Some n \<and> routes_data n) \<and>
       (2 < length p \<longrightarrow> \<not> db_has_half_neighbor db k source)" if k: "k \<in> set exits" for k
  proof -
    from run(3) k obtain p where "reached ?A [source] minimum_hops p" "last p = k" by blast
    then show ?thesis unfolding reached_def path_ok_def by (intro exI [of _ p]) auto
  qed
  with run(1,2) show ?thesis by (simp add: find_exit_locations_def)
qed

text \<open>
  A network for the instances: Node 0 reaches Node 3 over Node 1, which charges 5 for routing, or over
  Node 2, which charges 3.
\<close>

definition priced_record :: "nat \<Rightarrow> nat list \<Rightarrow> u64 \<Rightarrow> node_record" where
  "priced_record i ns price =
     (let r = sample_record i (Some (sample_addr (10 + i))) ns 900
      in r\<lparr>nr_inner := (nr_inner r)\<lparr>nri_rate_pack := \<lparr>routing_byte_rate = 0, routing_service_rate = price,
           exit_byte_rate = 0, exit_service_rate = 2\<rparr>\<rparr>\<rparr>)"

definition priced_db :: neighborhood_database where
  "priced_db = \<lparr>ndb_this_node = [0],
     ndb_by_public_key = fmap_of_list
       [([0], priced_record 0 [1, 2] 1), ([1], priced_record 1 [0, 3] 5), ([2], priced_record 2 [0, 3] 3),
        ([3], priced_record 3 [1, 2] 1)],
     ndb_by_ip_addr = fmap_of_list [(V4 10, [0]), (V4 11, [1]), (V4 12, [2]), (V4 13, [3])]\<rparr>"

definition dear_db :: neighborhood_database where
  "dear_db = put_node [1] (priced_record 1 [0, 3] 0x8000000000000000) priced_db"

lemma priced_db_wf: "wf_db priced_db"
  by code_simp

lemma priced_db_fair: "fair_costs priced_db 1000 200000000"
  by code_simp

text \<open>
  C4. The search for a route never panics and finds a cheapest one: if it returns a route, that route
  is one of the admissible ones and no admissible one costs less; if it returns none, there is
  none. Admissible routes are described without the search order, the pruning and the running
  minimum of the code.
\<close>

theorem find_best_route_segment_optimal:
  assumes "wf_db db" and "env_ok E" and "fair_costs db payload_size B" and "node_by_key db source = Some r"
  shows "\<exists>u0 res. compute_initial_undesirability db source payload_size direction = Some u0 \<and>
    find_best_route_segment E db uep source target_opt minimum_hops payload_size direction hostname_opt = Some res \<and>
    (case res of
       None \<Rightarrow> \<forall>p u. \<not> route_from (segment_args E db uep target_opt payload_size direction hostname_opt)
         [source] u0 minimum_hops p u
     | Some p \<Rightarrow> \<exists>u. route_from (segment_args E db uep target_opt payload_size direction hostname_opt)
           [source] u0 minimum_hops p u \<and>
         (\<forall>p' u'. route_from (segment_args E db uep target_opt payload_size direction hostname_opt)
            [source] u0 minimum_hops p' u' \<longrightarrow> u \<le> u'))"
  by (rule find_best_route_segment_run [OF assms])

theorem find_best_route_segment_optimal_witness:
  "\<exists>u. route_from (segment_args sample_env priced_db user_exit_preferences_new (Some [3]) 1000 Over None) [[0]] 0 2 [[0], [2], [3]] u \<and>
    (\<forall>p' u'. route_from (segment_args sample_env priced_db user_exit_preferences_new (Some [3]) 1000 Over None)
       [[0]] 0 2 p' u' \<longrightarrow> u \<le> u')"
proof -
  have "find_best_route_segment sample_env priced_db user_exit_preferences_new [0] (Some [3]) 2 1000 Over None =
      Some (Some [[0], [2], [3]])"
    by code_simp
  moreover have "node_by_key priced_db [0] = Some (priced_record 0 [1, 2] 1)" by code_simp
  moreover have "compute_initial_undesirability priced_db [0] 1000 Over = Some 0" by code_simp
  ultimately show ?thesis
    using find_best_route_segment_optimal [OF priced_db_wf sample_env_ok priced_db_fair, of "[0]" "priced_record 0 [1, 2] 1"
        Over user_exit_preferences_new "Some [3]" 2 None]
    by auto
qed

text \<open>
  C25. A route that the search returns starts at the source, ends at the target if one is asked for, has at
  least the asked number of hops and no cycle, goes from full neighbor to full neighbor over Nodes
  that route data, ends, if longer than one hop, at a Node that does not have the source as a
  neighbor, and, when the user insists on exit countries, ends in one of them.
\<close>

theorem find_best_route_segment_sound:
  assumes "wf_db db" and "env_ok E" and "node_by_key db source = Some r"
    and "find_best_route_segment E db uep source target_opt minimum_hops payload_size direction hostname_opt = Some (Some p)"
  shows "hd p = source \<and> (\<forall>t. target_opt = Some t \<longrightarrow> last p = t) \<and> minimum_hops < length p \<and> distinct p \<and>
    (\<forall>i. Suc i < length p \<longrightarrow> db_has_full_neighbor db (p ! i) (p ! Suc i)) \<and>
    (\<forall>k \<in> set (tl p). \<exists>n. node_by_key db k = Some n \<and> (routes_data n \<or> direction = Back \<and> target_opt = Some k)) \<and>
    (2 < length p \<longrightarrow> \<not> db_has_half_neighbor db (last p) source) \<and>
    (direction = Over \<and> uep_fallback_preference uep = ExitCountryNoFallback \<longrightarrow>
      (\<exists>n cc. node_by_key db (last p) = Some n \<and> nri_country_code_opt (nr_inner n) = Some cc \<and>
        cc \<in> set (uep_exit_countries uep)))"
  using assms by (rule best_segment_shape)

theorem find_best_route_segment_sound_witness:
  "find_best_route_segment sample_env priced_db user_exit_preferences_new [0] None 2 1000 Over None =
      Some (Some [[0], [2], [3]]) \<and> db_has_full_neighbor priced_db [2] [3] \<and> \<not> db_has_half_neighbor priced_db [3] [0]"
proof -
  have run: "find_best_route_segment sample_env priced_db user_exit_preferences_new [0] None 2 1000 Over None =
      Some (Some [[0], [2], [3]])"
    by code_simp
  have "node_by_key priced_db [0] = Some (priced_record 0 [1, 2] 1)" by code_simp
  note sound = find_best_route_segment_sound [OF priced_db_wf sample_env_ok this run]
  from sound have "\<forall>i. Suc i < 3 \<longrightarrow> db_has_full_neighbor priced_db ([[0], [2], [3]] ! i) ([[0], [2], [3]] ! Suc i)"
    by (simp add: numeral_3_eq_3)
  from this [rule_format, of 1] run sound show ?thesis by simp
qed

text \<open>
  C28. Looking for possible exits never panics, whatever the prices are, and finds each exit once: every Node it finds is the
  end of a path of at least the asked number of hops and no cycle, from the source over full neighbors that route
  data, and does not have the source as a neighbor if the path is longer than one hop.
\<close>

theorem find_exit_locations_sound:
  assumes "wf_db db" and "env_ok E" and "node_by_key db source = Some r"
  shows "\<exists>exits. find_exit_locations E db uep source minimum_hops = Some exits \<and> distinct exits \<and>
    (\<forall>k \<in> set exits. \<exists>p. hd p = source \<and> last p = k \<and> minimum_hops < length p \<and> distinct p \<and>
       (\<forall>i. Suc i < length p \<longrightarrow> db_has_full_neighbor db (p ! i) (p ! Suc i)) \<and>
       (\<forall>j \<in> set (tl p). \<exists>n. node_by_key db j = Some n \<and> routes_data n) \<and>
       (2 < length p \<longrightarrow> \<not> db_has_half_neighbor db k source))"
  by (rule exits_run [OF assms])

theorem find_exit_locations_sound_witness:
  "find_exit_locations sample_env priced_db user_exit_preferences_new [0] 2 = Some [[3]] \<and>
   (\<exists>p :: public_key list. hd p = [0] \<and> last p = [3] \<and> 2 < length p \<and> distinct p)"
proof -
  have run: "find_exit_locations sample_env priced_db user_exit_preferences_new [0] 2 = Some [[3]]" by code_simp
  have "node_by_key priced_db [0] = Some (priced_record 0 [1, 2] 1)" by code_simp
  from find_exit_locations_sound [OF priced_db_wf sample_env_ok this, of user_exit_preferences_new 2] run
  show ?thesis by auto
qed

text \<open>
  A Node that asks for an absurd price is preferred. The price is an unsigned number of 64 bits that the search
  reads as a signed one: Node 1 charges 2 to the power of 63 for routing, Node 2 charges 3, and the
  cheapest route goes over Node 1.
\<close>

theorem overflowing_rate_preferred:
  "routing_service_rate (nri_rate_pack (nr_inner (priced_record 1 [0, 3] 0x8000000000000000))) = 2 ^ 63 \<and>
   find_best_route_segment sample_env dear_db user_exit_preferences_new [0] (Some [3]) 2 1000 Over None =
     Some (Some [[0], [1], [3]]) \<and>
   find_best_route_segment sample_env priced_db user_exit_preferences_new [0] (Some [3]) 2 1000 Over None =
     Some (Some [[0], [2], [3]])"
proof (intro conjI)
  show "routing_service_rate (nri_rate_pack (nr_inner (priced_record 1 [0, 3] 0x8000000000000000))) = 2 ^ 63"
    by (simp add: priced_record_def Let_def)
qed code_simp+

end
