(* ===== verification/Delivery.thy ===== *)
theory Delivery
  imports Hopper
begin

text \<open>
  From end to end: what a network of Hoppers does with a package that its originator sends on a round
  trip. Every Node has the Hopper of its own key; what one Hopper hands to its Dispatcher for a key
  arrives at the Hopper with that key.
\<close>

section \<open>A network of Hoppers\<close>

fun transmitted :: "'p hopper_output list \<Rightarrow> (public_key \<times> bytes) option" where
  "transmitted [] = None"
| "transmitted (ToDispatcher m # outs) = (case tdm_endpoint m of
      KeyEndpoint k \<Rightarrow> Some (k, tdm_data m)
    | SocketEndpoint _ \<Rightarrow> transmitted outs)"
| "transmitted (_ # outs) = transmitted outs"

definition arriving :: "socket_addr \<Rightarrow> bytes \<Rightarrow> inbound_client_data" where
  "arriving addr data = \<lparr>icd_timestamp = 0, icd_client_addr = addr, icd_reception_port_opt = None, icd_last_data = False,
     icd_is_clandestine = True, icd_sequence_number_opt = None, icd_data = data\<rparr>"

text \<open>The outputs of all Hoppers on the way, each with the key of its Node, for at most \<open>n\<close> Nodes.\<close>

fun transport ::
  "'p cores_world \<Rightarrow> (public_key \<Rightarrow> hopper) \<Rightarrow> socket_addr \<Rightarrow> nat \<Rightarrow> public_key \<Rightarrow> bytes \<Rightarrow>
     (public_key \<times> 'p hopper_output) list run" where
  "transport Q hps addr 0 k data = ret []"
| "transport Q hps addr (Suc n) k data = do {
     outs \<leftarrow> route_inbound Q (hps k) (arriving addr data);
     rest \<leftarrow> (case transmitted outs of
        None \<Rightarrow> ret []
      | Some (k', data') \<Rightarrow> transport Q hps addr n k' data');
     ret (map (Pair k) outs @ rest) }"

definition reports :: "(public_key \<times> 'p hopper_output) list \<Rightarrow> (public_key \<times> report_routing_service_provided) list" where
  "reports tr = List.map_filter (\<lambda>(k, out). case out of ToAccountant r \<Rightarrow> Some (k, r) | _ \<Rightarrow> None) tr"

definition deliveries :: "(public_key \<times> 'p hopper_output) list \<Rightarrow> (public_key \<times> 'p hopper_output) list" where
  "deliveries tr = filter (\<lambda>(k, out). case out of ToAccountant _ \<Rightarrow> False | ToDispatcher _ \<Rightarrow> False | _ \<Rightarrow> True) tr"

lemma trace_simps [simp]:
  "reports [] = []" "reports ((k, ToAccountant r) # tr) = (k, r) # reports tr" "reports ((k, ToDispatcher m) # tr) = reports tr"
  "reports ((k, ToProxyClient e) # tr) = reports tr" "reports ((k, ToProxyServer e) # tr) = reports tr"
  "deliveries [] = []" "deliveries ((k, ToAccountant r) # tr) = deliveries tr" "deliveries ((k, ToDispatcher m) # tr) = deliveries tr"
  "deliveries ((k, ToProxyClient e) # tr) = (k, ToProxyClient e) # deliveries tr"
  "deliveries ((k, ToProxyServer e) # tr) = (k, ToProxyServer e) # deliveries tr"
  by (simp_all add: reports_def deliveries_def List.map_filter_def)

definition hoppers_of ::
  "'p cores_world \<Rightarrow> (public_key \<Rightarrow> cryptde) \<Rightarrow> bytes \<Rightarrow> (public_key \<Rightarrow> hopper) \<Rightarrow> bool" where
  "hoppers_of Q C ca hps \<longleftrightarrow> (\<forall>k. hp_main (hps k) = C k \<and> hp_digest (hps k) = create_digest (cw_wallet_ops Q) k ca)"

definition cores_world_ok :: "'p cores_world \<Rightarrow> bool" where
  "cores_world_ok Q \<longleftrightarrow> codec_ok (cw_hop Q) \<and> codec_ok (cw_id Q) \<and> codec_ok (cw_lcp Q) \<and> codec_ok (cw_message Q) \<and>
     wallet_ops_ok (cw_wallet_ops Q)"

section \<open>One Node\<close>

lemma lcp_new_run: "lcp_new route payload = Some \<lparr>lcp_version = PackedVersion 0 0 0, lcp_route = route, lcp_payload = payload\<rparr>"
proof -
  have "packed_version_new 0 0 = Inr (PackedVersion 0 0 0)" by code_simp
  then show ?thesis by (simp add: lcp_new_def lcp_version_current_def)
qed

abbreviation live :: "route \<Rightarrow> bytes \<Rightarrow> live_cores_package" where
  "live r payload \<equiv> \<lparr>lcp_version = PackedVersion 0 0 0, lcp_route = r, lcp_payload = payload\<rparr>"

lemma shift_next_hop: "shift H c r = Some (Inr hop, r') \<Longrightarrow> next_hop H c r = Some (Inr hop)"
  by (auto simp: shift_def next_hop_def split: list.splits bind_splits sum.splits)

text \<open>The report of a Node that relays a package.\<close>

definition relay_report :: "'p cores_world \<Rightarrow> (public_key \<Rightarrow> hopper) \<Rightarrow> wallet \<Rightarrow> bytes \<Rightarrow> public_key \<Rightarrow>
    public_key \<times> report_routing_service_provided" where
  "relay_report Q hps a payload k = (k, \<lparr>rrs_timestamp = cw_now Q, rrs_paying_wallet = a, rrs_payload_size = length payload,
     rrs_service_rate = hp_per_routing_service (hps k), rrs_byte_rate = hp_per_routing_byte (hps k)\<rparr>)"

context cryptde_network
begin

lemma relay:
  assumes world: "cores_world_ok Q" and hps: "hoppers_of Q cryptde_of ca hps"
    and data: "decodex (cw_lcp Q) (cryptde_of k) data = Some (Inr (live r payload))"
    and hop: "shift (cw_hop Q) (cryptde_of k) r = Some (Inr hop, r')" "lh_component hop = HopperComponent"
      "lh_public_key hop \<noteq> k" "valid_key (lh_public_key hop)"
    and paid: "hop_paid (cw_wallet_ops Q) (Some w) (Some ca) k hop"
    and wallet: "as_address_wallet (cw_wallet_ops Q) w = Some a" "a |\<notin>| hp_ban_cache (hps k)"
  shows "\<exists>data'. route_inbound Q (hps k) (arriving addr data) =
      Some [ToAccountant \<lparr>rrs_timestamp = cw_now Q, rrs_paying_wallet = a, rrs_payload_size = length payload,
              rrs_service_rate = hp_per_routing_service (hps k), rrs_byte_rate = hp_per_routing_byte (hps k)\<rparr>,
            ToDispatcher \<lparr>tdm_endpoint = KeyEndpoint (lh_public_key hop), tdm_last_data = False,
              tdm_sequence_number_opt = None, tdm_data = data'\<rparr>] \<and>
    decodex (cw_lcp Q) (cryptde_of (lh_public_key hop)) data' = Some (Inr (live r' payload))"
proof -
  have main: "hp_main (hps k) = cryptde_of k" "hp_digest (hps k) = create_digest (cw_wallet_ops Q) k ca"
    using hps by (simp_all add: hoppers_of_def)
  from paid wallet(1) obtain p where p: "lh_payer hop = Some p" "payer_wallet p = a"
    "owns_secret_key (cw_wallet_ops Q) p (create_digest (cw_wallet_ops Q) k ca) = Some True"
    by (auto simp: hop_paid_def)
  have "codec_ok (cw_lcp Q)" using world by (simp add: cores_world_ok_def)
  from decodex_encodex [OF hop(4) this, of k "live r' payload"] obtain data' where
    enc: "encodex (cw_lcp Q) (cryptde_of k) (lh_public_key hop) (live r' payload) = Inr data'"
    "decodex (cw_lcp Q) (cryptde_of (lh_public_key hop)) data' = Some (Inr (live r' payload))" by blast
  have "into_next_live Q (cryptde_of k) (live r payload) = Some (Inr (hop, live r' payload))"
    using hop(1) by (simp add: into_next_live_def lcp_new_run)
  then have "route_data_externally Q (hps k) (live r payload) (lh_payer hop) False =
      Some [ToAccountant \<lparr>rrs_timestamp = cw_now Q, rrs_paying_wallet = a, rrs_payload_size = length payload,
              rrs_service_rate = hp_per_routing_service (hps k), rrs_byte_rate = hp_per_routing_byte (hps k)\<rparr>,
            ToDispatcher \<lparr>tdm_endpoint = KeyEndpoint (lh_public_key hop), tdm_last_data = False,
              tdm_sequence_number_opt = None, tdm_data = data'\<rparr>]"
    using main p wallet(2) enc(1) by (simp add: route_data_externally_def to_transmit_data_msg_def is_delinquent_address [OF wallet(1)])
  moreover have "next_hop (cw_hop Q) (cryptde_of k) r = Some (Inr hop)" by (rule shift_next_hop [OF hop(1)])
  ultimately show ?thesis
    using data main hop(2,3) enc(2)
    by (simp add: route_inbound_def arriving_def route_data_def is_destined_for_here_def)
qed

lemma exit_delivers:
  assumes hps: "hoppers_of Q cryptde_of ca hps"
    and data: "decodex (cw_lcp Q) (cryptde_of k) data = Some (Inr (live r payload))"
    and hop: "shift (cw_hop Q) (cryptde_of k) r = Some (Inr hop, r')" "lh_component hop = ProxyClientComponent"
    and paid: "hop_paid (cw_wallet_ops Q) (Some w) (Some ca) k hop"
    and wallet: "as_address_wallet (cw_wallet_ops Q) w = Some a" "a |\<notin>| hp_ban_cache (hps k)"
    and payload: "decodex (cw_message Q) (cryptde_of k) payload = Some (Inr (ClientRequest vd))"
      "cw_extract Q (ClientRequest vd) = Inr p" "hp_proxy_client_running (hps k)"
  shows "route_inbound Q (hps k) (arriving addr data) =
    Some [ToProxyClient \<lparr>ecp_immediate_neighbor = addr, ecp_paying_wallet = Some a, ecp_remaining_route = r,
      ecp_payload = p, ecp_payload_len = length payload\<rparr>]"
proof -
  have main: "hp_main (hps k) = cryptde_of k" "hp_digest (hps k) = create_digest (cw_wallet_ops Q) k ca"
    using hps by (simp_all add: hoppers_of_def)
  from paid wallet(1) obtain pay where pay: "lh_payer hop = Some pay" "payer_wallet pay = a"
    "owns_secret_key (cw_wallet_ops Q) pay (create_digest (cw_wallet_ops Q) k ca) = Some True"
    by (auto simp: hop_paid_def)
  have next_hop: "next_hop (cw_hop Q) (cryptde_of k) r = Some (Inr hop)" by (rule shift_next_hop [OF hop(1)])
  have "extract_expired_package Q (hps k) addr (live r payload) ProxyClientComponent =
      Some (Some \<lparr>ecp_immediate_neighbor = addr, ecp_paying_wallet = Some a, ecp_remaining_route = r,
        ecp_payload = ClientRequest vd, ecp_payload_len = length payload\<rparr>)"
    using main next_hop pay payload(1) by (simp add: extract_expired_package_def to_expired_def)
  then show ?thesis
    using data main hop(2) next_hop pay wallet(2) payload(2,3)
    by (simp add: route_inbound_def arriving_def route_data_def route_data_internally_def is_delinquent_address [OF wallet(1)]
        payer_owns_secret_key_def route_data_to_peripheral_component_def route_expired_package_def
        deliver_migrated_def with_payload_def)
qed


lemma unwind_Cons:
  assumes "unwind H C (k # ks) r = Some (map Inr hs, r'')"
  obtains hop hs' r' where "hs = hop # hs'" and "shift H (C k) r = Some (Inr hop, r')"
    and "unwind H C ks r' = Some (map Inr hs', r'')"
proof -
  from assms obtain res r' ress where u: "shift H (C k) r = Some (res, r')" "unwind H C ks r' = Some (ress, r'')"
    "res # ress = map Inr hs"
    by (auto split: bind_splits)
  from u(3) obtain hop hs' where "hs = hop # hs'" "res = Inr hop" "ress = map Inr hs'" by (cases hs) auto
  with u(1,2) that show thesis by blast
qed

lemma response_delivers:
  assumes hps: "hoppers_of Q cryptde_of ca hps"
    and data: "decodex (cw_lcp Q) (cryptde_of k) data = Some (Inr (live r payload))"
    and hop: "shift (cw_hop Q) (cryptde_of k) r = Some (Inr hop, r')" "lh_component hop = ProxyServerComponent"
    and paid: "hop_paid (cw_wallet_ops Q) (Some w) (Some ca) k hop"
    and wallet: "as_address_wallet (cw_wallet_ops Q) w = Some a" "a |\<notin>| hp_ban_cache (hps k)"
    and payload: "decodex (cw_message Q) (hp_alias (hps k)) payload = Some (Inr (ClientResponse vd))"
      "cw_extract Q (ClientResponse vd) = Inr p"
  shows "route_inbound Q (hps k) (arriving addr data) =
    Some [ToProxyServer \<lparr>ecp_immediate_neighbor = addr, ecp_paying_wallet = Some a, ecp_remaining_route = r,
      ecp_payload = p, ecp_payload_len = length payload\<rparr>]"
proof -
  have main: "hp_main (hps k) = cryptde_of k" "hp_digest (hps k) = create_digest (cw_wallet_ops Q) k ca"
    using hps by (simp_all add: hoppers_of_def)
  from paid wallet(1) obtain pay where pay: "lh_payer hop = Some pay" "payer_wallet pay = a"
    "owns_secret_key (cw_wallet_ops Q) pay (create_digest (cw_wallet_ops Q) k ca) = Some True"
    by (auto simp: hop_paid_def)
  have next_hop: "next_hop (cw_hop Q) (cryptde_of k) r = Some (Inr hop)" by (rule shift_next_hop [OF hop(1)])
  have "extract_expired_package Q (hps k) addr (live r payload) ProxyServerComponent =
      Some (Some \<lparr>ecp_immediate_neighbor = addr, ecp_paying_wallet = Some a, ecp_remaining_route = r,
        ecp_payload = ClientResponse vd, ecp_payload_len = length payload\<rparr>)"
    using main next_hop pay payload(1) by (simp add: extract_expired_package_def to_expired_def)
  then show ?thesis
    using data main hop(2) next_hop pay wallet(2) payload(2)
    by (simp add: route_inbound_def arriving_def route_data_def route_data_internally_def is_delinquent_address [OF wallet(1)]
        payer_owns_secret_key_def route_data_to_peripheral_component_def route_expired_package_def
        deliver_migrated_def with_payload_def)
qed

lemma transport_run:
  assumes world: "cores_world_ok Q" and hps: "hoppers_of Q cryptde_of ca hps"
    and wallet: "as_address_wallet (cw_wallet_ops Q) w = Some a" "\<forall>k. a |\<notin>| hp_ban_cache (hps k)"
    and arrival: "\<And>r data hop r'. decodex (cw_lcp Q) (cryptde_of goal) data = Some (Inr (live r payload)) \<Longrightarrow>
      shift (cw_hop Q) (cryptde_of goal) r = Some (Inr hop, r') \<Longrightarrow> lh_component hop = tc \<Longrightarrow>
      hop_paid (cw_wallet_ops Q) (Some w) (Some ca) goal hop \<Longrightarrow>
      route_inbound Q (hps goal) (arriving addr data) = Some [out r]"
    and out: "\<And>r. reports [(goal, out r)] = []" "\<And>r. deliveries [(goal, out r)] = [(goal, out r)]" "\<And>r. transmitted [out r] = None"
    and hops: "unwind (cw_hop Q) cryptde_of (k # ks) r = Some (map Inr hs, r'')"
      "map lh_public_key hs = ks @ [b]" "map lh_component hs = replicate (length ks) HopperComponent @ [tc]"
      "list_all2 (hop_paid (cw_wallet_ops Q) (Some w) (Some ca)) (k # ks) hs"
    and keys: "distinct (k # ks)" "\<forall>k \<in> set ks. valid_key k" "last (k # ks) = goal"
    and data: "decodex (cw_lcp Q) (cryptde_of k) data = Some (Inr (live r payload))"
  shows "\<exists>tr r1. transport Q hps addr (Suc (length ks)) k data = Some tr \<and>
    reports tr = map (relay_report Q hps a payload) (butlast (k # ks)) \<and> deliveries tr = [(goal, out r1)] \<and>
    shift (cw_hop Q) (cryptde_of goal) r1 = Some (Inr (last hs), r'')"
  using hops keys data
proof (induction ks arbitrary: k r data hs)
  case Nil
  from unwind_Cons [OF Nil.prems(1)] obtain hop hs' r' where u: "hs = hop # hs'"
    "shift (cw_hop Q) (cryptde_of k) r = Some (Inr hop, r')" "unwind (cw_hop Q) cryptde_of [] r' = Some (map Inr hs', r'')"
    by blast
  from u(1) Nil.prems(2) have "hs' = []" by simp
  with u have hop: "hs = [hop]" "shift (cw_hop Q) (cryptde_of k) r = Some (Inr hop, r'')" by simp_all
  have k: "k = goal" using Nil.prems(7) by simp
  have "route_inbound Q (hps k) (arriving addr data) = Some [out r]"
    using arrival [of data r hop r''] Nil.prems hop k by simp
  with hop k out show ?case by (intro exI [of _ "[(k, out r)]"] exI [of _ r]) simp
next
  case (Cons k1 ks)
  from unwind_Cons [OF Cons.prems(1)] obtain hop hs' r' where u: "hs = hop # hs'"
    "shift (cw_hop Q) (cryptde_of k) r = Some (Inr hop, r')"
    "unwind (cw_hop Q) cryptde_of (k1 # ks) r' = Some (map Inr hs', r'')" by blast
  have hop: "lh_public_key hop = k1" "lh_component hop = HopperComponent"
    "hop_paid (cw_wallet_ops Q) (Some w) (Some ca) k hop"
    using Cons.prems(2-4) u(1) by simp_all
  from relay [OF world hps Cons.prems(8) u(2) hop(2) _ _ hop(3) wallet(1), where addr = addr] hop(1) Cons.prems(5,6) wallet(2)
  obtain data' where relay: "route_inbound Q (hps k) (arriving addr data) =
      Some [ToAccountant (snd (relay_report Q hps a payload k)),
            ToDispatcher \<lparr>tdm_endpoint = KeyEndpoint k1, tdm_last_data = False,
              tdm_sequence_number_opt = None, tdm_data = data'\<rparr>]"
    "decodex (cw_lcp Q) (cryptde_of k1) data' = Some (Inr (live r' payload))"
    unfolding relay_report_def by auto
  have rest: "map lh_public_key hs' = ks @ [b]" "map lh_component hs' = replicate (length ks) HopperComponent @ [tc]"
    "list_all2 (hop_paid (cw_wallet_ops Q) (Some w) (Some ca)) (k1 # ks) hs'" "distinct (k1 # ks)" "\<forall>k \<in> set ks. valid_key k"
    "last (k1 # ks) = goal"
    using Cons.prems(2-7) u(1) by simp_all
  have "hs' \<noteq> []" using rest(1) by auto
  then have last: "last hs' = last hs" using u(1) by simp
  from Cons.IH [OF u(3) rest relay(2)] obtain tr r1 where
    t: "transport Q hps addr (Suc (length ks)) k1 data' = Some tr"
    "reports tr = map (relay_report Q hps a payload) (butlast (k1 # ks))" "deliveries tr = [(goal, out r1)]"
    "shift (cw_hop Q) (cryptde_of goal) r1 = Some (Inr (last hs'), r'')"
    by blast
  let ?tr = "(k, ToAccountant (snd (relay_report Q hps a payload k))) #
    (k, ToDispatcher \<lparr>tdm_endpoint = KeyEndpoint k1, tdm_last_data = False, tdm_sequence_number_opt = None, tdm_data = data'\<rparr>) # tr"
  have "transport Q hps addr (Suc (length (k1 # ks))) k data = Some ?tr"
    using relay(1) t(1) by (simp del: transport.simps add: transport.simps(2) [of _ _ _ "Suc (length ks)"])
  moreover have "reports ?tr = map (relay_report Q hps a payload) (butlast (k # k1 # ks))"
    using t(2) by (simp add: relay_report_def)
  moreover have "deliveries ?tr = [(goal, out r1)]" using t(3) by simp
  ultimately show ?case using t(4) last by (intro exI [of _ ?tr] exI [of _ r1]) simp
qed

lemma unwind_append:
  assumes "unwind H C (xs @ ys) r = Some (map Inr hs, r'')"
  obtains hs1 hs2 r' where "hs = hs1 @ hs2" and "length hs1 = length xs"
    and "unwind H C xs r = Some (map Inr hs1, r')" and "unwind H C ys r' = Some (map Inr hs2, r'')"
proof -
  have "\<exists>hs1 hs2 r'. hs = hs1 @ hs2 \<and> length hs1 = length xs \<and> unwind H C xs r = Some (map Inr hs1, r') \<and>
      unwind H C ys r' = Some (map Inr hs2, r'')"
    using assms
  proof (induction xs arbitrary: r hs)
    case Nil
    then show ?case by simp
  next
    case (Cons x xs)
    from Cons.prems have "unwind H C (x # xs @ ys) r = Some (map Inr hs, r'')" by simp
    from unwind_Cons [OF this] obtain hop hs' r' where u: "hs = hop # hs'" "shift H (C x) r = Some (Inr hop, r')"
      "unwind H C (xs @ ys) r' = Some (map Inr hs', r'')" by blast
    from Cons.IH [OF u(3)] obtain hs1 hs2 r1 where "hs' = hs1 @ hs2" "length hs1 = length xs"
      "unwind H C xs r' = Some (map Inr hs1, r1)" "unwind H C ys r1 = Some (map Inr hs2, r'')" by blast
    with u show ?case by (intro exI [of _ "hop # hs1"] exI [of _ hs2] exI [of _ r1]) simp
  qed
  with that show thesis by blast
qed

lemma launch:
  assumes world: "cores_world_ok Q" and hop: "shift (cw_hop Q) (cryptde_of k) r = Some (Inr hop, r')"
    "lh_public_key hop \<noteq> k" "valid_key (lh_public_key hop)"
  shows "\<exists>data. consume Q (cryptde_of k) \<lparr>icp_route = r, icp_payload = payload\<rparr> =
      Some [ToDispatcher \<lparr>tdm_endpoint = KeyEndpoint (lh_public_key hop), tdm_last_data = False,
        tdm_sequence_number_opt = None, tdm_data = data\<rparr>] \<and>
    decodex (cw_lcp Q) (cryptde_of (lh_public_key hop)) data = Some (Inr (live r' payload))"
proof -
  have "codec_ok (cw_lcp Q)" using world by (simp add: cores_world_ok_def)
  from decodex_encodex [OF hop(3) this, of k "live r' payload"] obtain data where
    "encodex (cw_lcp Q) (cryptde_of k) (lh_public_key hop) (live r' payload) = Inr data"
    "decodex (cw_lcp Q) (cryptde_of (lh_public_key hop)) data = Some (Inr (live r' payload))" by blast
  with hop show ?thesis
    by (auto simp: consume_def from_incipient_def lcp_new_run launch_lcp_def)
qed


text \<open>One leg: a package leaves a Node and arrives at the Node where its leg of the route ends.\<close>

lemma leg:
  assumes world: "cores_world_ok Q" and hps: "hoppers_of Q cryptde_of ca hps"
    and wallet: "as_address_wallet (cw_wallet_ops Q) w = Some a" "\<forall>k. a |\<notin>| hp_ban_cache (hps k)"
    and arrival: "\<And>r data hop r'. decodex (cw_lcp Q) (cryptde_of (last p)) data = Some (Inr (live r payload)) \<Longrightarrow>
      shift (cw_hop Q) (cryptde_of (last p)) r = Some (Inr hop, r') \<Longrightarrow> lh_component hop = tc \<Longrightarrow>
      hop_paid (cw_wallet_ops Q) (Some w) (Some ca) (last p) hop \<Longrightarrow>
      route_inbound Q (hps (last p)) (arriving addr data) = Some [out r]"
    and out: "\<And>r. reports [(last p, out r)] = []" "\<And>r. deliveries [(last p, out r)] = [(last p, out r)]"
      "\<And>r. transmitted [out r] = None"
    and start: "shift (cw_hop Q) (cryptde_of k) r = Some (Inr hop, r0)" "lh_public_key hop = hd p"
    and hops: "unwind (cw_hop Q) cryptde_of p r0 = Some (map Inr hs, r'')" "map lh_public_key hs = tl p @ [b]"
      "map lh_component hs = replicate (length p - 1) HopperComponent @ [tc]"
      "list_all2 (hop_paid (cw_wallet_ops Q) (Some w) (Some ca)) p hs"
    and keys: "p \<noteq> []" "distinct (k # p)" "\<forall>k \<in> set p. valid_key k"
  shows "\<exists>data tr r1. consume Q (cryptde_of k) \<lparr>icp_route = r, icp_payload = payload\<rparr> =
      Some [ToDispatcher \<lparr>tdm_endpoint = KeyEndpoint (hd p), tdm_last_data = False, tdm_sequence_number_opt = None,
        tdm_data = data\<rparr>] \<and>
    transport Q hps addr (length p) (hd p) data = Some tr \<and>
    reports tr = map (relay_report Q hps a payload) (butlast p) \<and> deliveries tr = [(last p, out r1)] \<and>
    shift (cw_hop Q) (cryptde_of (last p)) r1 = Some (Inr (last hs), r'')"
proof -
  obtain p1 ps where p: "p = p1 # ps" using keys(1) by (cases p) simp_all
  from launch [OF world start(1), of payload] start(2) keys p obtain data where
    data: "consume Q (cryptde_of k) \<lparr>icp_route = r, icp_payload = payload\<rparr> =
        Some [ToDispatcher \<lparr>tdm_endpoint = KeyEndpoint p1, tdm_last_data = False, tdm_sequence_number_opt = None,
          tdm_data = data\<rparr>]"
      "decodex (cw_lcp Q) (cryptde_of p1) data = Some (Inr (live r0 payload))" by auto
  have hops': "unwind (cw_hop Q) cryptde_of (p1 # ps) r0 = Some (map Inr hs, r'')" "map lh_public_key hs = ps @ [b]"
    "map lh_component hs = replicate (length ps) HopperComponent @ [tc]"
    "list_all2 (hop_paid (cw_wallet_ops Q) (Some w) (Some ca)) (p1 # ps) hs"
    "distinct (p1 # ps)" "\<forall>k \<in> set ps. valid_key k" "last (p1 # ps) = last p"
    using hops keys p by simp_all
  have "\<exists>tr r1. transport Q hps addr (Suc (length ps)) p1 data = Some tr \<and>
      reports tr = map (relay_report Q hps a payload) (butlast (p1 # ps)) \<and> deliveries tr = [(last p, out r1)] \<and>
      shift (cw_hop Q) (cryptde_of (last p)) r1 = Some (Inr (last hs), r'')"
    by (rule transport_run [where out = out, OF world hps wallet _ out hops' data(2)]) (rule arrival)
  then obtain tr r1 where tr: "transport Q hps addr (Suc (length ps)) p1 data = Some tr"
    "reports tr = map (relay_report Q hps a payload) (butlast (p1 # ps))" "deliveries tr = [(last p, out r1)]"
    "shift (cw_hop Q) (cryptde_of (last p)) r1 = Some (Inr (last hs), r'')" by blast
  have "length p = Suc (length ps)" "hd p = p1" using p by simp_all
  with data(1) tr show ?thesis unfolding p by auto
qed

text \<open>The hops of a round trip, cut at the exit Node.\<close>

lemma round_trip_legs:
  assumes ok: "codec_ok H" "codec_ok N" "usable_wallet W w"
    and keys: "p \<noteq> []" "q \<noteq> []" "last q = me" "\<forall>k \<in> set p \<union> set q. valid_key k"
  shows "\<exists>route hop0 r0 hs1 r1 hs2 r3.
    round_trip H N W \<lparr>rs_keys = me # p, rs_recipient = oc\<rparr> \<lparr>rs_keys = last p # q, rs_recipient = bc\<rparr> (cryptde_of me) w rid c =
      Some (Inr route) \<and>
    shift H (cryptde_of me) route = Some (Inr hop0, r0) \<and> lh_public_key hop0 = hd p \<and>
    unwind H cryptde_of p r0 = Some (map Inr hs1, r1) \<and> map lh_public_key hs1 = tl p @ [hd q] \<and>
    map lh_component hs1 = replicate (length p - 1) HopperComponent @ [oc] \<and> list_all2 (hop_paid W w c) p hs1 \<and>
    unwind H cryptde_of q r1 = Some (map Inr hs2, r3) \<and> map lh_public_key hs2 = tl q @ [[]] \<and>
    map lh_component hs2 = replicate (length q - 1) HopperComponent @ [bc] \<and> list_all2 (hop_paid W w c) q hs2 \<and>
    route_id N (cryptde_of me) r3 = Some (Inr rid)"
proof -
  have me: "valid_key me" using keys(2-4) last_in_set by blast
  obtain p1 ps where p: "p = p1 # ps" using keys(1) by (cases p) simp_all
  obtain q1 qs where q: "q = q1 # qs" using keys(2) by (cases q) simp_all
  have exit: "valid_key (last p)" using keys(1,4) by simp
  from round_trip_run [OF ok, of "me # p" "last p # q" me oc bc rid c] keys me exit obtain route hs r3 where
    rt: "round_trip H N W \<lparr>rs_keys = me # p, rs_recipient = oc\<rparr> \<lparr>rs_keys = last p # q, rs_recipient = bc\<rparr>
      (cryptde_of me) w rid c = Some (Inr route)"
    and un: "unwind H cryptde_of (butlast (me # p) @ last p # q) route = Some (map Inr hs, r3)"
    and pk: "map lh_public_key hs = p @ q @ [[]]"
    and comps: "map lh_component hs = replicate (length p) HopperComponent @ back_components oc (length q) @ [bc]"
    and paid: "list_all2 (hop_paid W w c) (butlast (me # p) @ last p # q) hs"
    and id: "route_id N (cryptde_of me) r3 = Some (Inr rid)"
    by auto
  have path: "butlast (me # p) @ last p # q = (me # p) @ q"
    using keys(1) by (metis append_Cons append_Nil append_assoc append_butlast_last_id last_ConsR list.distinct(1))
  from unwind_append [OF un [unfolded path]] obtain hs1 hs2 r1 where h: "hs = hs1 @ hs2" "length hs1 = length (me # p)"
    "unwind H cryptde_of (me # p) route = Some (map Inr hs1, r1)" "unwind H cryptde_of q r1 = Some (map Inr hs2, r3)" .
  from unwind_Cons [OF h(3)] obtain hop0 hs1' r0 where u: "hs1 = hop0 # hs1'" "shift H (cryptde_of me) route = Some (Inr hop0, r0)"
    "unwind H cryptde_of p r0 = Some (map Inr hs1', r1)" .
  have len: "length hs1' = length p" using h(2) u(1) by simp
  have "map lh_public_key hs1' @ map lh_public_key hs2 = (tl p @ [hd q]) @ tl q @ [[]]" and hop0: "lh_public_key hop0 = hd p"
    using pk h(1) u(1) p q by simp_all
  moreover have "length (map lh_public_key hs1') = length (tl p @ [hd q])" using len p by simp
  ultimately have pk': "map lh_public_key hs1' = tl p @ [hd q]" "map lh_public_key hs2 = tl q @ [[]]"
    by (metis append_eq_append_conv)+
  have "map lh_component hs1' @ map lh_component hs2 =
      (replicate (length p - 1) HopperComponent @ [oc]) @ replicate (length q - 1) HopperComponent @ [bc]"
    using comps h(1) u(1) p q by (simp add: back_components_def)
  moreover have "length (map lh_component hs1') = length (replicate (length p - 1) HopperComponent @ [oc])"
    using len p by simp
  ultimately have comps': "map lh_component hs1' = replicate (length p - 1) HopperComponent @ [oc]"
    "map lh_component hs2 = replicate (length q - 1) HopperComponent @ [bc]"
    by (metis append_eq_append_conv)+
  have "list_all2 (hop_paid W w c) (p @ q) (hs1' @ hs2)" using paid unfolding path h(1) u(1) by simp
  with len have "list_all2 (hop_paid W w c) p hs1'" "list_all2 (hop_paid W w c) q hs2"
    by (simp_all add: list_all2_append)
  with rt u(2,3) hop0 pk' comps' h(4) id show ?thesis by blast
qed

lemma delivered:
  assumes world: "cores_world_ok Q" and hps: "hoppers_of Q cryptde_of ca hps"
    and a: "a = WalletAddress (wo_secret_address (cw_wallet_ops Q) s)" "\<forall>k. a |\<notin>| hp_ban_cache (hps k)"
    and keys: "p \<noteq> []" "q \<noteq> []" "distinct (me # p)" "distinct (last p # q)" "last q = me"
      "\<forall>k \<in> set p \<union> set q. valid_key k"
    and request: "cw_extract Q (ClientRequest vd) = Inr req" "hp_proxy_client_running (hps (last p))"
    and response: "decodex (cw_message Q) (hp_alias (hps me)) payload' = Some (Inr (ClientResponse vd'))"
      "cw_extract Q (ClientResponse vd') = Inr resp"
  shows "\<exists>route icp data tr r1 data' tr' r2 hop r3.
    round_trip (cw_hop Q) (cw_id Q) (cw_wallet_ops Q) \<lparr>rs_keys = me # p, rs_recipient = ProxyClientComponent\<rparr>
      \<lparr>rs_keys = last p # q, rs_recipient = ProxyServerComponent\<rparr> (cryptde_of me) (Some (WalletSecretKey s)) rid (Some ca) =
      Some (Inr route) \<and>
    incipient_new Q (cryptde_of me) route (ClientRequest vd) (last p) = Inr icp \<and>
    consume Q (cryptde_of me) icp = Some [ToDispatcher \<lparr>tdm_endpoint = KeyEndpoint (hd p), tdm_last_data = False,
      tdm_sequence_number_opt = None, tdm_data = data\<rparr>] \<and>
    transport Q hps addr (length p) (hd p) data = Some tr \<and>
    reports tr = map (relay_report Q hps a (icp_payload icp)) (butlast p) \<and>
    deliveries tr = [(last p, ToProxyClient \<lparr>ecp_immediate_neighbor = addr, ecp_paying_wallet = Some a,
      ecp_remaining_route = r1, ecp_payload = req, ecp_payload_len = length (icp_payload icp)\<rparr>)] \<and>
    consume Q (cryptde_of (last p)) \<lparr>icp_route = r1, icp_payload = payload'\<rparr> =
      Some [ToDispatcher \<lparr>tdm_endpoint = KeyEndpoint (hd q), tdm_last_data = False,
        tdm_sequence_number_opt = None, tdm_data = data'\<rparr>] \<and>
    transport Q hps addr' (length q) (hd q) data' = Some tr' \<and>
    reports tr' = map (relay_report Q hps a payload') (butlast q) \<and>
    deliveries tr' = [(me, ToProxyServer \<lparr>ecp_immediate_neighbor = addr', ecp_paying_wallet = Some a,
      ecp_remaining_route = r2, ecp_payload = resp, ecp_payload_len = length payload'\<rparr>)] \<and>
    shift (cw_hop Q) (cryptde_of me) r2 = Some (Inr hop, r3) \<and> route_id (cw_id Q) (cryptde_of me) r3 = Some (Inr rid)"
proof -
  let ?W = "cw_wallet_ops Q" and ?w = "WalletSecretKey s"
  have ok: "codec_ok (cw_hop Q)" "codec_ok (cw_id Q)" "codec_ok (cw_message Q)" "usable_wallet ?W (Some ?w)"
    using world by (auto simp: cores_world_ok_def usable_wallet_def)
  have wallet: "as_address_wallet ?W ?w = Some a" by (simp add: as_address_wallet_def a(1))
  from round_trip_legs [OF ok(1,2,4) keys(1,2,5,6), of ProxyClientComponent ProxyServerComponent rid "Some ca"]
  obtain route hop0 r0 hs1 r1 hs2 r3 where
    rt: "round_trip (cw_hop Q) (cw_id Q) ?W \<lparr>rs_keys = me # p, rs_recipient = ProxyClientComponent\<rparr>
      \<lparr>rs_keys = last p # q, rs_recipient = ProxyServerComponent\<rparr> (cryptde_of me) (Some ?w) rid (Some ca) = Some (Inr route)"
    and start: "shift (cw_hop Q) (cryptde_of me) route = Some (Inr hop0, r0)" "lh_public_key hop0 = hd p"
    and over: "unwind (cw_hop Q) cryptde_of p r0 = Some (map Inr hs1, r1)" "map lh_public_key hs1 = tl p @ [hd q]"
      "map lh_component hs1 = replicate (length p - 1) HopperComponent @ [ProxyClientComponent]"
      "list_all2 (hop_paid ?W (Some ?w) (Some ca)) p hs1"
    and home: "unwind (cw_hop Q) cryptde_of q r1 = Some (map Inr hs2, r3)" "map lh_public_key hs2 = tl q @ [[]]"
      "map lh_component hs2 = replicate (length q - 1) HopperComponent @ [ProxyServerComponent]"
      "list_all2 (hop_paid ?W (Some ?w) (Some ca)) q hs2"
    and id: "route_id (cw_id Q) (cryptde_of me) r3 = Some (Inr rid)"
    by blast
  have "valid_key (last p)" using keys(1,6) by simp
  from decodex_encodex [OF this ok(3), of me "ClientRequest vd"] obtain payload where
    payload: "encodex (cw_message Q) (cryptde_of me) (last p) (ClientRequest vd) = Inr payload"
      "decodex (cw_message Q) (cryptde_of (last p)) payload = Some (Inr (ClientRequest vd))" .
  define out where "out = (\<lambda>r. ToProxyClient \<lparr>ecp_immediate_neighbor = addr, ecp_paying_wallet = Some a,
      ecp_remaining_route = r, ecp_payload = req, ecp_payload_len = length payload\<rparr>)"
  define out' where "out' = (\<lambda>r. ToProxyServer \<lparr>ecp_immediate_neighbor = addr', ecp_paying_wallet = Some a,
      ecp_remaining_route = r, ecp_payload = resp, ecp_payload_len = length payload'\<rparr>)"
  have valid: "\<forall>k \<in> set p. valid_key k" "\<forall>k \<in> set q. valid_key k" using keys(6) by blast+
  have "\<exists>data tr r1'. consume Q (cryptde_of me) \<lparr>icp_route = route, icp_payload = payload\<rparr> =
      Some [ToDispatcher \<lparr>tdm_endpoint = KeyEndpoint (hd p), tdm_last_data = False, tdm_sequence_number_opt = None,
        tdm_data = data\<rparr>] \<and>
    transport Q hps addr (length p) (hd p) data = Some tr \<and>
    reports tr = map (relay_report Q hps a payload) (butlast p) \<and> deliveries tr = [(last p, out r1')] \<and>
    shift (cw_hop Q) (cryptde_of (last p)) r1' = Some (Inr (last hs1), r1)"
    by (rule leg [where out = out, OF world hps wallet a(2) _ _ _ _ start over keys(1,3) valid(1)])
      (use exit_delivers [OF hps _ _ _ _ wallet _ payload(2) request] a(2) in \<open>auto simp: out_def\<close>)
  then obtain data tr r1' where go: "consume Q (cryptde_of me) \<lparr>icp_route = route, icp_payload = payload\<rparr> =
      Some [ToDispatcher \<lparr>tdm_endpoint = KeyEndpoint (hd p), tdm_last_data = False, tdm_sequence_number_opt = None,
        tdm_data = data\<rparr>]" "transport Q hps addr (length p) (hd p) data = Some tr"
    "reports tr = map (relay_report Q hps a payload) (butlast p)" "deliveries tr = [(last p, out r1')]"
    "shift (cw_hop Q) (cryptde_of (last p)) r1' = Some (Inr (last hs1), r1)" by blast
  have "hs1 \<noteq> []" using over(2) by auto
  then have hd_q: "lh_public_key (last hs1) = hd q" using over(2) by (metis last_map last_snoc)
  have "\<exists>data' tr' r2. consume Q (cryptde_of (last p)) \<lparr>icp_route = r1', icp_payload = payload'\<rparr> =
      Some [ToDispatcher \<lparr>tdm_endpoint = KeyEndpoint (hd q), tdm_last_data = False, tdm_sequence_number_opt = None,
        tdm_data = data'\<rparr>] \<and>
    transport Q hps addr' (length q) (hd q) data' = Some tr' \<and>
    reports tr' = map (relay_report Q hps a payload') (butlast q) \<and> deliveries tr' = [(last q, out' r2)] \<and>
    shift (cw_hop Q) (cryptde_of (last q)) r2 = Some (Inr (last hs2), r3)"
    by (rule leg [where out = out', OF world hps wallet a(2) _ _ _ _ go(5) hd_q home keys(2,4) valid(2)])
      (use response_delivers [OF hps _ _ _ _ wallet _ response] a(2) keys(5) in \<open>auto simp: out'_def\<close>)
  then obtain data' tr' r2 where come: "consume Q (cryptde_of (last p)) \<lparr>icp_route = r1', icp_payload = payload'\<rparr> =
      Some [ToDispatcher \<lparr>tdm_endpoint = KeyEndpoint (hd q), tdm_last_data = False, tdm_sequence_number_opt = None,
        tdm_data = data'\<rparr>]" "transport Q hps addr' (length q) (hd q) data' = Some tr'"
    "reports tr' = map (relay_report Q hps a payload') (butlast q)" "deliveries tr' = [(me, out' r2)]"
    "shift (cw_hop Q) (cryptde_of me) r2 = Some (Inr (last hs2), r3)" using keys(5) by blast
  have icp: "incipient_new Q (cryptde_of me) route (ClientRequest vd) (last p) = Inr \<lparr>icp_route = route, icp_payload = payload\<rparr>"
    using payload(1) by (simp add: incipient_new_def)
  show ?thesis
    by (rule exI [of _ route], rule exI [of _ "\<lparr>icp_route = route, icp_payload = payload\<rparr>"], rule exI [of _ data],
        rule exI [of _ tr], rule exI [of _ r1'], rule exI [of _ data'], rule exI [of _ tr'], rule exI [of _ r2],
        rule exI [of _ "last hs2"], rule exI [of _ r3])
      (use rt icp go come id in \<open>simp add: out_def out'_def\<close>)
qed

end

section \<open>Sample codecs\<close>

text \<open>Codecs of the two packages, for witnesses.\<close>

definition enc_versioned :: "versioned_data \<Rightarrow> bytes" where
  "enc_versioned v = enc_nat (unat (major (vd_version v))) @ enc_nat (unat (minor (vd_version v))) @ enc_bytes (vd_bytes v)"

definition dec_versioned :: "bytes \<Rightarrow> versioned_data option" where
  "dec_versioned bs = do {
     (a, bs1) \<leftarrow> dec_nat bs;
     (b, bs2) \<leftarrow> dec_nat bs1;
     (d, bs3) \<leftarrow> dec_bytes bs2;
     Some \<lparr>vd_version = DataVersion (of_nat a) (of_nat b), vd_bytes = d\<rparr> }"

fun enc_message :: "message_type \<Rightarrow> bytes" where
  "enc_message (ClientRequest v) = 0 # enc_versioned v"
| "enc_message (ClientResponse v) = 1 # enc_versioned v"
| "enc_message (GossipMessage v) = 2 # enc_versioned v"
| "enc_message (GossipFailureMessage v) = 3 # enc_versioned v"
| "enc_message (DnsResolveFailed v) = 4 # enc_versioned v"

definition dec_message :: "bytes \<Rightarrow> message_type option" where
  "dec_message bs = (case bs of
      [] \<Rightarrow> None
    | t # bs1 \<Rightarrow> map_option
        (if t = 0 then ClientRequest else if t = 1 then ClientResponse else if t = 2 then GossipMessage
         else if t = 3 then GossipFailureMessage else DnsResolveFailed) (dec_versioned bs1))"

definition sample_message_codec :: "message_type codec" where
  "sample_message_codec = \<lparr>to_vec = (\<lambda>x. Some (enc_message x)), from_slice = dec_message\<rparr>"

fun enc_list :: "bytes list \<Rightarrow> bytes" where
  "enc_list [] = []"
| "enc_list (b # bs) = enc_bytes b @ enc_list bs"

fun dec_list :: "nat \<Rightarrow> bytes \<Rightarrow> bytes list option" where
  "dec_list 0 bs = Some []"
| "dec_list (Suc n) bs = do {
     (x, bs1) \<leftarrow> dec_bytes bs;
     xs \<leftarrow> dec_list n bs1;
     Some (x # xs) }"

fun enc_lcp :: "live_cores_package \<Rightarrow> bytes" where
  "enc_lcp \<lparr>lcp_version = PackedVersion a b c, lcp_route = r, lcp_payload = p\<rparr> =
     a # b # c # enc_bytes p @ enc_nat (length (rt_hops r)) @ enc_list (rt_hops r)"

definition dec_lcp :: "bytes \<Rightarrow> live_cores_package option" where
  "dec_lcp bs = (case bs of
      a # b # c # bs1 \<Rightarrow> do {
        (p, bs2) \<leftarrow> dec_bytes bs1;
        (n, bs3) \<leftarrow> dec_nat bs2;
        hops \<leftarrow> dec_list n bs3;
        Some \<lparr>lcp_version = PackedVersion a b c, lcp_route = \<lparr>rt_hops = hops\<rparr>, lcp_payload = p\<rparr> }
    | _ \<Rightarrow> None)"

definition sample_lcp_codec :: "live_cores_package codec" where
  "sample_lcp_codec = \<lparr>to_vec = (\<lambda>x. Some (enc_lcp x)), from_slice = dec_lcp\<rparr>"

lemma dec_versioned_enc [simp]: "dec_versioned (enc_versioned v) = Some v"
proof -
  have "dec_bytes (enc_bytes d) = Some (d, [])" for d using dec_bytes_enc [of d "[]"] by simp
  then show ?thesis by (simp add: dec_versioned_def enc_versioned_def)
qed

lemma sample_message_codec_ok: "codec_ok sample_message_codec"
proof -
  have "dec_message (enc_message x) = Some x" "enc_message x \<noteq> []" for x
    by (cases x; simp add: dec_message_def)+
  then show ?thesis by (simp add: codec_ok_def sample_message_codec_def)
qed

lemma dec_list_enc [simp]: "dec_list (length xs) (enc_list xs) = Some xs"
  by (induction xs) simp_all

lemma sample_lcp_codec_ok: "codec_ok sample_lcp_codec"
proof -
  have "dec_lcp (enc_lcp x) = Some x \<and> enc_lcp x \<noteq> []" for x
    by (induction x rule: enc_lcp.induct) (simp add: dec_lcp_def)
  then show ?thesis by (simp add: codec_ok_def sample_lcp_codec_def)
qed

definition sample_cores_world :: "message_type cores_world" where
  "sample_cores_world = \<lparr>cw_hop = sample_hop_codec, cw_id = sample_u32_codec, cw_message = sample_message_codec,
     cw_lcp = sample_lcp_codec, cw_wallet_ops = sample_wallet_ops, cw_extract = Inr, cw_now = 0\<rparr>"

definition sample_hoppers :: "public_key \<Rightarrow> hopper" where
  "sample_hoppers k = \<lparr>hp_main = null_cryptde_of (\<lambda>_ _. []) k, hp_alias = null_cryptde_of (\<lambda>_ _. []) (k @ [0]),
     hp_digest = create_digest sample_wallet_ops k [5], hp_per_routing_service = 2, hp_per_routing_byte = 3,
     hp_is_decentralized = True, hp_proxy_client_running = True, hp_ban_cache = {||}\<rparr>"

section \<open>Properties\<close>

text \<open>
  C3. A request and its response get through. The originator, with a consuming wallet, makes a round
  trip over distinct Nodes to the exit Node and over distinct Nodes back, and gives its Hopper the
  request. Every Hopper before the exit Node relays the package, exactly once, and reports the payload
  to its Accountant with its own rates and the originator's wallet; the exit Node hands the request to
  its ProxyClient, which learns the payload, the wallet and what is left of the route. With only that
  rest of the route the exit Node sends its response, which every Hopper before the originator relays
  and reports, and which the originator's ProxyServer gets. From what is then left of the route the
  originator reads the return route id it chose. No Node panics, and nothing else is delivered.
\<close>

theorem round_trip_delivered:
  assumes net: "cryptde_network C valid_key"
    and world: "cores_world_ok Q" and hps: "hoppers_of Q C ca hps"
    and a: "a = WalletAddress (wo_secret_address (cw_wallet_ops Q) s)" "\<forall>k. a |\<notin>| hp_ban_cache (hps k)"
    and keys: "p \<noteq> []" "q \<noteq> []" "distinct (me # p)" "distinct (last p # q)" "last q = me"
      "\<forall>k \<in> set p \<union> set q. valid_key k"
    and request: "cw_extract Q (ClientRequest vd) = Inr req" "hp_proxy_client_running (hps (last p))"
    and response: "decodex (cw_message Q) (hp_alias (hps me)) payload' = Some (Inr (ClientResponse vd'))"
      "cw_extract Q (ClientResponse vd') = Inr resp"
  shows "\<exists>route icp data tr r1 data' tr' r2 hop r3.
    round_trip (cw_hop Q) (cw_id Q) (cw_wallet_ops Q) \<lparr>rs_keys = me # p, rs_recipient = ProxyClientComponent\<rparr>
      \<lparr>rs_keys = last p # q, rs_recipient = ProxyServerComponent\<rparr> (C me) (Some (WalletSecretKey s)) rid (Some ca) =
      Some (Inr route) \<and>
    incipient_new Q (C me) route (ClientRequest vd) (last p) = Inr icp \<and>
    consume Q (C me) icp = Some [ToDispatcher \<lparr>tdm_endpoint = KeyEndpoint (hd p), tdm_last_data = False,
      tdm_sequence_number_opt = None, tdm_data = data\<rparr>] \<and>
    transport Q hps addr (length p) (hd p) data = Some tr \<and>
    reports tr = map (relay_report Q hps a (icp_payload icp)) (butlast p) \<and>
    deliveries tr = [(last p, ToProxyClient \<lparr>ecp_immediate_neighbor = addr, ecp_paying_wallet = Some a,
      ecp_remaining_route = r1, ecp_payload = req, ecp_payload_len = length (icp_payload icp)\<rparr>)] \<and>
    consume Q (C (last p)) \<lparr>icp_route = r1, icp_payload = payload'\<rparr> =
      Some [ToDispatcher \<lparr>tdm_endpoint = KeyEndpoint (hd q), tdm_last_data = False,
        tdm_sequence_number_opt = None, tdm_data = data'\<rparr>] \<and>
    transport Q hps addr' (length q) (hd q) data' = Some tr' \<and>
    reports tr' = map (relay_report Q hps a payload') (butlast q) \<and>
    deliveries tr' = [(me, ToProxyServer \<lparr>ecp_immediate_neighbor = addr', ecp_paying_wallet = Some a,
      ecp_remaining_route = r2, ecp_payload = resp, ecp_payload_len = length payload'\<rparr>)] \<and>
    shift (cw_hop Q) (C me) r2 = Some (Inr hop, r3) \<and> route_id (cw_id Q) (C me) r3 = Some (Inr rid)"
  using cryptde_network.delivered [OF assms] .

theorem round_trip_delivered_witness:
  "\<exists>payload' route icp data tr r1 data' tr' r2 hop r3.
    round_trip sample_hop_codec sample_u32_codec sample_wallet_ops
      \<lparr>rs_keys = [[1], [2], [3]], rs_recipient = ProxyClientComponent\<rparr>
      \<lparr>rs_keys = [[3], [4], [1]], rs_recipient = ProxyServerComponent\<rparr> (null_cryptde_of (\<lambda>_ _. []) [1])
      (Some (WalletSecretKey [9])) 7 (Some [5]) = Some (Inr route) \<and>
    incipient_new sample_cores_world (null_cryptde_of (\<lambda>_ _. []) [1]) route
      (ClientRequest \<lparr>vd_version = DataVersion 0 1, vd_bytes = [8]\<rparr>) [3] = Inr icp \<and>
    consume sample_cores_world (null_cryptde_of (\<lambda>_ _. []) [1]) icp =
      Some [ToDispatcher \<lparr>tdm_endpoint = KeyEndpoint [2], tdm_last_data = False, tdm_sequence_number_opt = None,
        tdm_data = data\<rparr>] \<and>
    transport sample_cores_world sample_hoppers \<lparr>sa_ip = V4 1, sa_port = 2\<rparr> 2 [2] data = Some tr \<and>
    map fst (reports tr) = [[2]] \<and> map fst (deliveries tr) = [[3]] \<and>
    consume sample_cores_world (null_cryptde_of (\<lambda>_ _. []) [3]) \<lparr>icp_route = r1, icp_payload = payload'\<rparr> =
      Some [ToDispatcher \<lparr>tdm_endpoint = KeyEndpoint [4], tdm_last_data = False, tdm_sequence_number_opt = None,
        tdm_data = data'\<rparr>] \<and>
    transport sample_cores_world sample_hoppers \<lparr>sa_ip = V4 3, sa_port = 4\<rparr> 2 [4] data' = Some tr' \<and>
    map fst (reports tr') = [[4]] \<and> map fst (deliveries tr') = [[1]] \<and>
    shift sample_hop_codec (null_cryptde_of (\<lambda>_ _. []) [1]) r2 = Some (Inr hop, r3) \<and>
    route_id sample_u32_codec (null_cryptde_of (\<lambda>_ _. []) [1]) r3 = Some (Inr 7)"
proof -
  let ?Q = sample_cores_world and ?C = "null_cryptde_of (\<lambda>_ _. [])"
  let ?resp = "\<lparr>vd_version = DataVersion 0 1, vd_bytes = [6]\<rparr>"
  have world: "cores_world_ok ?Q"
    by (simp add: cores_world_ok_def sample_cores_world_def sample_hop_codec_ok sample_u32_codec_ok
        sample_message_codec_ok sample_lcp_codec_ok sample_wallet_ops_ok)
  have hps: "hoppers_of ?Q ?C [5] sample_hoppers"
    by (simp add: hoppers_of_def sample_hoppers_def sample_cores_world_def)
  have ban: "\<forall>k. WalletAddress (wo_secret_address (cw_wallet_ops ?Q) [9]) |\<notin>| hp_ban_cache (sample_hoppers k)"
    by (simp add: sample_hoppers_def)
  from null.decodex_encodex [of "[1, 0]" sample_message_codec "\<lambda>_ _. []" "[3]" "ClientResponse ?resp"]
  obtain payload' where dec: "decodex (cw_message ?Q) (hp_alias (sample_hoppers [1])) payload' = Some (Inr (ClientResponse ?resp))"
    using sample_message_codec_ok by (auto simp: sample_cores_world_def sample_hoppers_def)
  have req: "cw_extract ?Q (ClientRequest \<lparr>vd_version = DataVersion 0 1, vd_bytes = [8]\<rparr>) =
      Inr (ClientRequest \<lparr>vd_version = DataVersion 0 1, vd_bytes = [8]\<rparr>)"
    and resp: "cw_extract ?Q (ClientResponse ?resp) = Inr (ClientResponse ?resp)"
    and run: "hp_proxy_client_running (sample_hoppers (last [[2], [3]]))"
    by (simp_all add: sample_cores_world_def sample_hoppers_def)
  have keys: "[[2], [3]] \<noteq> ([] :: public_key list)" "[[4], [1]] \<noteq> ([] :: public_key list)"
    "distinct ([1] # [[2], [3]] :: public_key list)" "distinct (last [[2], [3]] # [[4], [1]] :: public_key list)"
    "last [[4], [1]] = ([1] :: public_key)" "\<forall>k \<in> set [[2], [3]] \<union> set [[4], [1]]. k \<noteq> ([] :: public_key)"
    by simp_all
  from round_trip_delivered [OF null.cryptde_network_axioms [of "\<lambda>_ _. []"] world hps refl ban keys req run dec resp,
      of 7 "\<lparr>sa_ip = V4 1, sa_port = 2\<rparr>" "\<lparr>sa_ip = V4 3, sa_port = 4\<rparr>"]
  show ?thesis
    apply (elim exE conjE)
    subgoal for route icp data tr r1 data' tr' r2 hop r3
      by (rule exI [of _ payload'], rule exI [of _ route], rule exI [of _ icp], rule exI [of _ data],
          rule exI [of _ tr], rule exI [of _ r1], rule exI [of _ data'], rule exI [of _ tr'], rule exI [of _ r2],
          rule exI [of _ hop], rule exI [of _ r3])
        (simp del: transport.simps add: sample_cores_world_def relay_report_def numeral_2_eq_2)
    done
qed

end
