(* ===== verification/Actor_Routes.thy ===== *)
theory Actor_Routes
  imports Neighborhood_Actor Best_Routes Delivery
begin

text \<open>
  What the Neighborhood answers to a route query: the search, the composition of the
  two legs, the services to expect and the return route id together, and what the Hoppers of the
  network do with a package that is sent on the answer.
\<close>

section \<open>What the answer rests on\<close>

text \<open>
  A state that is ready for routing: the database is well-formed and belongs to the key of
  the Node's encryption, every key in it can be encrypted for, and the consuming wallet, if there is one, can
  sign.
\<close>

definition routing_ready ::
  "(public_key \<Rightarrow> cryptde) \<Rightarrow> (public_key \<Rightarrow> bool) \<Rightarrow> 'p neighborhood_world \<Rightarrow> neighborhood \<Rightarrow> bool" where
  "routing_ready C valid_key W nb \<longleftrightarrow>
     wf_db (nb_database nb) \<and> env_ok (nw_env W) \<and> codec_ok (cw_hop (nw_cores W)) \<and> codec_ok (cw_id (nw_cores W)) \<and>
     nw_cryptde W = C (ndb_this_node (nb_database nb)) \<and>
     usable_wallet (cw_wallet_ops (nw_cores W)) (nb_consuming_wallet_opt nb) \<and>
     (\<forall>k \<in> fset (keys (nb_database nb)). valid_key k)"

text \<open>The service that a Node gives at its own wallet and rates.\<close>

definition service_of ::
  "(public_key \<Rightarrow> wallet \<Rightarrow> rate_pack \<Rightarrow> expected_service) \<Rightarrow> neighborhood_database \<Rightarrow> public_key \<Rightarrow> expected_service" where
  "service_of kind db k = (case node_by_key db k of
      Some n \<Rightarrow> kind k (earning_wallet n) (rate_pack_of n)
    | None \<Rightarrow> NoService)"

definition request_services :: "neighborhood_database \<Rightarrow> public_key list \<Rightarrow> expected_service list" where
  "request_services db p = NoService # map (service_of RoutingService db) (butlast p) @ [service_of ExitService db (last p)]"

definition response_services :: "neighborhood_database \<Rightarrow> public_key \<Rightarrow> public_key list \<Rightarrow> expected_service list" where
  "response_services db e q = service_of ExitService db e # map (service_of RoutingService db) (butlast q) @ [NoService]"

lemma collect_results_map:
  "(\<And>x. x \<in> set xs \<Longrightarrow> f x = Some (Inr (g x))) \<Longrightarrow> collect_results f xs = Some (Inr (map g xs))"
  by (induction xs) auto

lemma expected_services_map:
  assumes "wf_db (nb_database nb)" and "\<And>k. k \<in> set ks \<Longrightarrow> \<exists>n. node_by_key (nb_database nb) k = Some n" and "ks \<noteq> []"
  shows "make_expected_services nb \<lparr>rs_keys = ks, rs_recipient = c\<rparr> = Some (Inr (map (\<lambda>k.
    if k = ndb_this_node (nb_database nb) then NoService
    else if k = hd ks \<or> k = last ks then service_of ExitService (nb_database nb) k
    else service_of RoutingService (nb_database nb) k) ks))"
proof -
  obtain r where r: "root (nb_database nb) = Some r" "nri_public_key (nr_inner r) = ndb_this_node (nb_database nb)"
    using wf_db_root [OF assms(1)] by blast
  show ?thesis
    unfolding make_expected_services_def Let_def route_segment.simps
    by (rule collect_results_map)
      (use assms(2,3) r in \<open>fastforce simp: calculate_expected_service_def service_of_def split: option.split\<close>)
qed

lemma map_request_services:
  assumes "distinct (me # p)" and "p \<noteq> []"
  shows "map (\<lambda>k. if k = me then NoService else if k = hd (me # p) \<or> k = last (me # p) then service_of ExitService db k
      else service_of RoutingService db k) (me # p) = request_services db p"
  using assms by (cases p rule: rev_cases) (auto simp: request_services_def)

lemma map_response_services:
  assumes "distinct (e # q)" and "q \<noteq> []" and "last q = me"
  shows "map (\<lambda>k. if k = me then NoService else if k = hd (e # q) \<or> k = last (e # q) then service_of ExitService db k
      else service_of RoutingService db k) (e # q) = response_services db e q"
  using assms by (cases q rule: rev_cases) (auto simp: response_services_def)

section \<open>The answer\<close>

lemma segment_runs:
  assumes "wf_db db" and "env_ok E" and "node_by_key db s = Some r" and "0 < h"
  obtains (none) "find_best_route_segment E db uep s t h ps d hn = Some None"
    | (found) p where "find_best_route_segment E db uep s t h ps d hn = Some (Some (s # p))" "p \<noteq> []" "distinct (s # p)"
      "\<forall>k \<in> set (s # p). \<exists>n. node_by_key db k = Some n" "\<forall>k. t = Some k \<longrightarrow> last p = k"
proof -
  from segment_run [OF assms(1-3), of uep t h ps d hn]
  obtain res where res: "find_best_route_segment E db uep s t h ps d hn = Some res" by blast
  show thesis
  proof (cases res)
    case None
    with res show thesis by (intro none) simp
  next
    case (Some p')
    note shape = best_segment_shape [OF assms(1-3) res [unfolded Some]]
    have "hd p' = s" "h < length p'" using shape by blast+
    with assms(4) obtain p where p: "p' = s # p" "p \<noteq> []" by (cases p') (simp, force)
    have "\<forall>k \<in> set (tl p'). \<exists>n. node_by_key db k = Some n" "distinct p'" "\<forall>k. t = Some k \<longrightarrow> last p' = k"
      using shape by blast+
    with assms(3) p have "\<forall>k \<in> set (s # p). \<exists>n. node_by_key db k = Some n" "distinct (s # p)"
      "\<forall>k. t = Some k \<longrightarrow> last p = k" by simp_all
    with res Some p show thesis by (intro found [of p]) simp_all
  qed
qed

text \<open>The two searches of a query, and when a query stays unanswered.\<close>

definition over_leg :: "'p neighborhood_world \<Rightarrow> neighborhood \<Rightarrow> route_query_message \<Rightarrow> public_key list option run" where
  "over_leg W nb msg = find_best_route_segment (nw_env W) (nb_database nb) (nb_user_exit_preferences nb)
     (ndb_this_node (nb_database nb)) (rqm_target_key_opt msg) (hops_num (nb_min_hops nb)) (rqm_payload_size msg) Over
     (rqm_hostname_opt msg)"

definition back_leg ::
  "'p neighborhood_world \<Rightarrow> neighborhood \<Rightarrow> route_query_message \<Rightarrow> public_key \<Rightarrow> public_key list option run" where
  "back_leg W nb msg e = find_best_route_segment (nw_env W) (nb_database nb) (nb_user_exit_preferences nb)
     e (Some (ndb_this_node (nb_database nb))) (hops_num (nb_min_hops nb))
     (rqm_payload_size msg * RESPONSE_UNDESIRABILITY_FACTOR) Back (rqm_hostname_opt msg)"

definition legs_found ::
  "'p neighborhood_world \<Rightarrow> neighborhood \<Rightarrow> route_query_message \<Rightarrow> public_key list \<Rightarrow> public_key list \<Rightarrow> bool" where
  "legs_found W nb msg p q \<longleftrightarrow>
     over_leg W nb msg = Some (Some (ndb_this_node (nb_database nb) # p)) \<and>
     back_leg W nb msg (last p) = Some (Some (last p # q)) \<and> p \<noteq> [] \<and> q \<noteq> [] \<and>
     last q = ndb_this_node (nb_database nb) \<and> distinct (ndb_this_node (nb_database nb) # p) \<and> distinct (last p # q) \<and>
     (\<forall>k \<in> set p \<union> set q. \<exists>n. node_by_key (nb_database nb) k = Some n)"

definition unanswerable :: "'p neighborhood_world \<Rightarrow> neighborhood \<Rightarrow> route_query_message \<Rightarrow> bool" where
  "unanswerable W nb msg \<longleftrightarrow> over_leg W nb msg = Some None \<or>
     (\<exists>p. over_leg W nb msg = Some (Some p) \<and> back_leg W nb msg (last p) = Some None) \<or>
     nb_consuming_wallet_opt nb = None \<and> (\<exists>p q. legs_found W nb msg p q \<and> (1 < length p \<or> 1 < length q))"

lemma hops_num_pos [simp]: "0 < hops_num h"
  by (cases h) simp_all

lemma composed:
  assumes net: "cryptde_network C valid_key" and ready: "routing_ready C valid_key W nb"
    and legs: "legs_found W nb msg p q"
  shows "\<exists>res nb'. compose_route_query_response W nb \<lparr>rs_keys = ndb_this_node (nb_database nb) # p, rs_recipient = oc\<rparr>
      \<lparr>rs_keys = last p # q, rs_recipient = bc\<rparr> = Some (res, nb') \<and>
    (case res of
       Inl _ \<Rightarrow> nb' = nb \<and> nb_consuming_wallet_opt nb = None \<and> (1 < length p \<or> 1 < length q)
     | Inr resp \<Rightarrow> nb' = nb\<lparr>nb_next_return_route_id := nb_next_return_route_id nb + 1\<rparr> \<and>
         rqr_expected_services resp = RoundTripServices (request_services (nb_database nb) p)
           (response_services (nb_database nb) (last p) q) (nb_next_return_route_id nb) \<and>
         (\<exists>rec. chain_rec (nb_chain nb) = Some rec \<and>
           round_trip (cw_hop (nw_cores W)) (cw_id (nw_cores W)) (cw_wallet_ops (nw_cores W))
             \<lparr>rs_keys = ndb_this_node (nb_database nb) # p, rs_recipient = oc\<rparr> \<lparr>rs_keys = last p # q, rs_recipient = bc\<rparr>
             (C (ndb_this_node (nb_database nb))) (nb_consuming_wallet_opt nb) (nb_next_return_route_id nb)
             (Some (contract rec)) = Some (Inr (rqr_route resp))))"
proof (cases "nb_consuming_wallet_opt nb = None \<and> (1 < length p \<or> 1 < length q)")
  case True
  then show ?thesis by (auto simp: compose_route_query_response_def)
next
  case False
  let ?db = "nb_database nb" and ?me = "ndb_this_node (nb_database nb)"
  from ready have wf: "wf_db ?db" and crypt: "nw_cryptde W = C ?me"
    and ok: "codec_ok (cw_hop (nw_cores W))" "codec_ok (cw_id (nw_cores W))"
      "usable_wallet (cw_wallet_ops (nw_cores W)) (nb_consuming_wallet_opt nb)"
    and valid: "\<forall>k \<in> fset (keys ?db). valid_key k"
    by (auto simp: routing_ready_def)
  from legs have p: "p \<noteq> []" "q \<noteq> []" "last q = ?me" "distinct (?me # p)" "distinct (last p # q)"
    and known: "\<forall>k \<in> set p \<union> set q. \<exists>n. node_by_key ?db k = Some n"
    by (auto simp: legs_found_def)
  have me: "\<exists>n. node_by_key ?db ?me = Some n" using wf_db_root [OF wf] unfolding root_def by blast
  have all: "valid_key k" if "k \<in> set (?me # p) \<union> set (last p # q)" for k
  proof -
    have "\<exists>n. node_by_key ?db k = Some n" using that known me p(1) by auto
    then show ?thesis using valid by (auto simp: keys_def node_by_key_def fmdomI)
  qed
  have known': "\<And>k. k \<in> set (?me # p) \<Longrightarrow> \<exists>n. node_by_key ?db k = Some n"
    "\<And>k. k \<in> set (last p # q) \<Longrightarrow> \<exists>n. node_by_key ?db k = Some n"
    using known me p(1) by auto
  have s1: "make_expected_services nb \<lparr>rs_keys = ?me # p, rs_recipient = oc\<rparr> = Some (Inr (request_services ?db p))"
    unfolding map_request_services [OF p(4,1), symmetric] by (rule expected_services_map [OF wf known'(1)]) simp_all
  have s2: "make_expected_services nb \<lparr>rs_keys = last p # q, rs_recipient = bc\<rparr> =
      Some (Inr (response_services ?db (last p) q))"
    unfolding map_response_services [OF p(5,2,3), symmetric] by (rule expected_services_map [OF wf known'(2)]) simp_all
  obtain rec where rec: "chain_rec (nb_chain nb) = Some rec" using chain_rec_total by blast
  from cryptde_network.round_trip_run [OF net ok, of "?me # p" "last p # q" ?me oc bc "nb_next_return_route_id nb"
      "Some (contract rec)"] all p(1)
  obtain route where "round_trip (cw_hop (nw_cores W)) (cw_id (nw_cores W)) (cw_wallet_ops (nw_cores W))
      \<lparr>rs_keys = ?me # p, rs_recipient = oc\<rparr> \<lparr>rs_keys = last p # q, rs_recipient = bc\<rparr> (C ?me)
      (nb_consuming_wallet_opt nb) (nb_next_return_route_id nb) (Some (contract rec)) = Some (Inr route)"
    by auto
  then show ?thesis
    using False s1 s2 rec crypt
    by (auto simp: compose_route_query_response_def advance_return_route_id_def make_route_def)
qed

lemma query_answered:
  assumes net: "cryptde_network C valid_key" and ready: "routing_ready C valid_key W nb"
    and mode: "nb_mode nb \<noteq> ZeroHopLight" and return: "rqm_return_component_opt msg = Some bc"
  shows "\<exists>res nb'. handle_route_query_message W msg nb = Some (res, nb') \<and>
    (case res of
       None \<Rightarrow> nb' = nb \<and> unanswerable W nb msg
     | Some resp \<Rightarrow> nb' = nb\<lparr>nb_next_return_route_id := nb_next_return_route_id nb + 1\<rparr> \<and>
         (\<exists>p q rec. legs_found W nb msg p q \<and>
           rqr_expected_services resp = RoundTripServices (request_services (nb_database nb) p)
             (response_services (nb_database nb) (last p) q) (nb_next_return_route_id nb) \<and>
           chain_rec (nb_chain nb) = Some rec \<and>
           round_trip (cw_hop (nw_cores W)) (cw_id (nw_cores W)) (cw_wallet_ops (nw_cores W))
             \<lparr>rs_keys = ndb_this_node (nb_database nb) # p, rs_recipient = rqm_target_component msg\<rparr>
             \<lparr>rs_keys = last p # q, rs_recipient = bc\<rparr>
             (C (ndb_this_node (nb_database nb))) (nb_consuming_wallet_opt nb) (nb_next_return_route_id nb)
             (Some (contract rec)) = Some (Inr (rqr_route resp))))"
proof -
  let ?db = "nb_database nb" and ?me = "ndb_this_node (nb_database nb)"
  from ready have wf: "wf_db ?db" and env: "env_ok (nw_env W)" and crypt: "nw_cryptde W = C ?me"
    by (auto simp: routing_ready_def)
  have key: "cd_public_key (nw_cryptde W) = ?me" using cryptde_network.public_key_of [OF net] crypt by simp
  obtain r where r: "node_by_key ?db ?me = Some r" using wf_db_root [OF wf] unfolding root_def by blast
  consider "over_leg W nb msg = Some None"
    | (found) p where "over_leg W nb msg = Some (Some (?me # p))" "p \<noteq> []" "distinct (?me # p)"
      "\<forall>k \<in> set (?me # p). \<exists>n. node_by_key ?db k = Some n"
    unfolding over_leg_def by (rule segment_runs [OF wf env r hops_num_pos]) blast+
  then show ?thesis
  proof cases
    case 1
    then show ?thesis
      using mode key by (simp add: handle_route_query_message_def make_round_trip_route_def make_route_segment_def
          over_leg_def unanswerable_def)
  next
    case (found p)
    then obtain n where "node_by_key ?db (last p) = Some n" by (meson last_in_set list.set_intros(2))
    then consider "back_leg W nb msg (last p) = Some None"
      | (both) q where "back_leg W nb msg (last p) = Some (Some (last p # q))" "q \<noteq> []" "distinct (last p # q)"
        "\<forall>k \<in> set (last p # q). \<exists>n. node_by_key ?db k = Some n" "last q = ?me"
      unfolding back_leg_def by (rule segment_runs [OF wf env _ hops_num_pos]) blast+
    then show ?thesis
    proof cases
      case 1
      with found(1,2) show ?thesis
        using mode key return by (simp add: handle_route_query_message_def make_round_trip_route_def make_route_segment_def
            over_leg_def back_leg_def unanswerable_def route_segment_new_def)
    next
      case (both q)
      with found have legs: "legs_found W nb msg p q" by (auto simp: legs_found_def)
      from composed [OF net ready this, of "rqm_target_component msg" bc] obtain res nb' where
        c: "compose_route_query_response W nb \<lparr>rs_keys = ?me # p, rs_recipient = rqm_target_component msg\<rparr>
          \<lparr>rs_keys = last p # q, rs_recipient = bc\<rparr> = Some (res, nb')" and
        res: "case res of
           Inl _ \<Rightarrow> nb' = nb \<and> nb_consuming_wallet_opt nb = None \<and> (1 < length p \<or> 1 < length q)
         | Inr resp \<Rightarrow> nb' = nb\<lparr>nb_next_return_route_id := nb_next_return_route_id nb + 1\<rparr> \<and>
             rqr_expected_services resp = RoundTripServices (request_services ?db p)
               (response_services ?db (last p) q) (nb_next_return_route_id nb) \<and>
             (\<exists>rec. chain_rec (nb_chain nb) = Some rec \<and>
               round_trip (cw_hop (nw_cores W)) (cw_id (nw_cores W)) (cw_wallet_ops (nw_cores W))
                 \<lparr>rs_keys = ?me # p, rs_recipient = rqm_target_component msg\<rparr> \<lparr>rs_keys = last p # q, rs_recipient = bc\<rparr>
                 (C ?me) (nb_consuming_wallet_opt nb) (nb_next_return_route_id nb)
                 (Some (contract rec)) = Some (Inr (rqr_route resp)))"
        by blast
      have run: "make_round_trip_route W msg nb = Some (res, nb')"
        using found(1,2) both(1) c key return
        by (simp add: make_round_trip_route_def make_route_segment_def over_leg_def back_leg_def route_segment_new_def)
      show ?thesis
      proof (cases res)
        case (Inl e)
        with run res legs mode show ?thesis by (auto simp: handle_route_query_message_def unanswerable_def)
      next
        case (Inr resp)
        with run mode have "handle_route_query_message W msg nb = Some (Some resp, nb')"
          by (simp add: handle_route_query_message_def)
        with res legs Inr show ?thesis by auto
      qed
    qed
  qed
qed

lemma ready_keys_valid:
  assumes "routing_ready C valid_key W nb" and "node_by_key (nb_database nb) k = Some n"
  shows "valid_key k"
  using assms by (auto simp: routing_ready_def keys_def node_by_key_def fmdomI)

lemma answer_unwinds:
  assumes net: "cryptde_network C valid_key" and ready: "routing_ready C valid_key W nb"
    and legs: "legs_found W nb msg p q"
    and route: "round_trip (cw_hop (nw_cores W)) (cw_id (nw_cores W)) (cw_wallet_ops (nw_cores W))
      \<lparr>rs_keys = ndb_this_node (nb_database nb) # p, rs_recipient = oc\<rparr> \<lparr>rs_keys = last p # q, rs_recipient = bc\<rparr>
      (C (ndb_this_node (nb_database nb))) (nb_consuming_wallet_opt nb) rid c = Some (Inr route)"
  shows "\<exists>hs route'. unwind (cw_hop (nw_cores W)) C (ndb_this_node (nb_database nb) # p @ q) route = Some (map Inr hs, route') \<and>
    map lh_public_key hs = p @ q @ [[]] \<and>
    map lh_component hs = replicate (length p) HopperComponent @ back_components oc (length q) @ [bc] \<and>
    list_all2 (hop_paid (cw_wallet_ops (nw_cores W)) (nb_consuming_wallet_opt nb) c) (ndb_this_node (nb_database nb) # p @ q) hs \<and>
    route_id (cw_id (nw_cores W)) (C (ndb_this_node (nb_database nb))) route' = Some (Inr rid)"
proof -
  let ?me = "ndb_this_node (nb_database nb)"
  from legs have p: "p \<noteq> []" "last q = ?me" "q \<noteq> []"
    and known: "\<forall>k \<in> set p \<union> set q. \<exists>n. node_by_key (nb_database nb) k = Some n"
    by (simp_all add: legs_found_def)
  from known have valid: "\<forall>k \<in> set p \<union> set q. valid_key k" using ready_keys_valid [OF ready] by blast
  have "?me \<in> set q" using p(2,3) last_in_set [of q] by simp
  with valid have me: "valid_key ?me" by blast
  have ok: "codec_ok (cw_hop (nw_cores W))" "codec_ok (cw_id (nw_cores W))"
    "usable_wallet (cw_wallet_ops (nw_cores W)) (nb_consuming_wallet_opt nb)"
    using ready by (simp_all add: routing_ready_def)
  have path: "butlast (?me # p) @ last p # q = ?me # p @ q"
    using p(1) by (metis append_Cons append_Nil append_assoc append_butlast_last_id last_ConsR list.distinct(1))
  have side: "?me # p \<noteq> []" "last p # q \<noteq> []" "last (?me # p) = hd (last p # q)"
    "\<forall>k \<in> set (?me # p) \<union> set (last p # q). valid_key k" using valid me p(1) by auto
  from cryptde_network.round_trip_run [OF net ok side me, of oc bc rid c] obtain route1 hs route' where
    r: "round_trip (cw_hop (nw_cores W)) (cw_id (nw_cores W)) (cw_wallet_ops (nw_cores W))
      \<lparr>rs_keys = ?me # p, rs_recipient = oc\<rparr> \<lparr>rs_keys = last p # q, rs_recipient = bc\<rparr> (C ?me)
      (nb_consuming_wallet_opt nb) rid c = Some (Inr route1)"
    and u: "unwind (cw_hop (nw_cores W)) C (butlast (?me # p) @ last p # q) route1 = Some (map Inr hs, route')"
      "map lh_public_key hs = tl (?me # p) @ tl (last p # q) @ [[]]"
      "map lh_component hs = replicate (length (?me # p) - 1) HopperComponent @ back_components oc (length (last p # q) - 1) @ [bc]"
      "list_all2 (hop_paid (cw_wallet_ops (nw_cores W)) (nb_consuming_wallet_opt nb) c) (butlast (?me # p) @ last p # q) hs"
      "route_id (cw_id (nw_cores W)) (C ?me) route' = Some (Inr rid)"
    by blast
  from r route have "route1 = route" by simp
  with u [unfolded path] show ?thesis
    by (intro exI [of _ hs] exI [of _ route'])
      (simp only: list.sel length_Cons diff_Suc_1 simp_thms)
qed

section \<open>A sample state\<close>

definition sample_world :: "message_type neighborhood_world" where
  "sample_world = \<lparr>nw_env = sample_env, nw_cores = sample_cores_world, nw_cryptde = null_cryptde_of (\<lambda>_ _. []) [0],
     nw_gossip = \<lparr>to_vec = (\<lambda>_. Some [1]), from_slice = (\<lambda>_. None)\<rparr>, nw_gossip_step = Inr,
     nw_gossip_failure = \<lparr>to_vec = (\<lambda>_. Some [2]), from_slice = (\<lambda>_. None)\<rparr>, nw_gossip_failure_step = Inr,
     nw_descriptor_key = Some, nw_database_opens = True, nw_persisted_min_hops = Some SixHops\<rparr>"

definition sample_neighborhood :: "neighborhood_database \<Rightarrow> neighborhood" where
  "sample_neighborhood db = \<lparr>nb_database = db, nb_consuming_wallet_opt = Some (WalletSecretKey [9]), nb_mode = StandardLight,
     nb_min_hops = TwoHops, nb_db_patch_size = 3, nb_next_return_route_id = 7,
     nb_overall_connection_status = \<lparr>ocs_stage = NotConnected, ocs_progress = []\<rparr>, nb_chain = PulseMainnet,
     nb_database_connected = True, nb_db_password_opt = None, nb_user_exit_preferences = user_exit_preferences_new,
     nb_bound = True, nb_last_dead_node_check = 1000, nb_pass_targets = fmempty\<rparr>"

definition sample_query :: route_query_message where
  "sample_query = \<lparr>rqm_target_key_opt = None, rqm_target_component = ProxyClientComponent,
     rqm_return_component_opt = Some ProxyServerComponent, rqm_payload_size = 1000, rqm_hostname_opt = None\<rparr>"

lemma sample_ready: "routing_ready (null_cryptde_of (\<lambda>_ _. [])) (\<lambda>k. k \<noteq> []) sample_world (sample_neighborhood priced_db)"
proof -
  have "ndb_this_node priced_db = [0]" "\<forall>k \<in> fset (keys priced_db). k \<noteq> []"
    by (simp_all add: priced_db_def keys_def)
  then show ?thesis
    using priced_db_wf sample_env_ok sample_hop_codec_ok sample_u32_codec_ok sample_wallet_ops_ok
    by (auto simp: routing_ready_def sample_world_def sample_neighborhood_def sample_cores_world_def usable_wallet_def)
qed

lemma sample_legs:
  "over_leg sample_world (sample_neighborhood priced_db) sample_query = Some (Some [[0], [2], [3]])"
  "back_leg sample_world (sample_neighborhood priced_db) sample_query [3] = Some (Some [[3], [2], [0]])"
  by code_simp+

lemma sample_answered:
  "\<exists>resp nb'. handle_route_query_message sample_world sample_query (sample_neighborhood priced_db) = Some (Some resp, nb')"
proof -
  let ?nb = "sample_neighborhood priced_db"
  have sel: "nb_mode ?nb \<noteq> ZeroHopLight"
    "rqm_return_component_opt sample_query = Some ProxyServerComponent" "nb_consuming_wallet_opt ?nb \<noteq> None"
    by (simp_all add: sample_query_def sample_neighborhood_def)
  have "\<not> unanswerable sample_world ?nb sample_query"
    using sample_legs sel(3) by (auto simp: unanswerable_def)
  with query_answered [OF null.cryptde_network_axioms [of "\<lambda>_ _. []"] sample_ready sel(1,2)]
  show ?thesis by (auto split: option.splits)
qed

definition sample_network :: "public_key \<Rightarrow> hopper" where
  "sample_network k = (sample_hoppers k)\<lparr>hp_digest := create_digest sample_wallet_ops k (replicate 20 0)\<rparr>"

section \<open>Properties\<close>

text \<open>
  C10. A route query never makes a Neighborhood that is ready for routing panic. It stays unanswered only
  if there is no way over, no way back, or no consuming wallet for a leg of several hops, and then
  changes nothing. An answer is made of the two cheapest legs: the route goes over the Nodes of
  the way to the exit Node and home over those of the way back, each Node takes off one hop with its own
  key and finds there the next Node and, with a consuming wallet, a proof of payment that holds for
  it. The services to expect name these Nodes in this order, routing on the way and exit at its
  end, at the wallets and rates of their records, and nothing at the originator. The return route
  id is the one the originator finds at the end of the route; the next answer gets the next id.
\<close>

theorem route_query_answered:
  assumes "cryptde_network C valid_key" and "routing_ready C valid_key W nb"
    and "nb_mode nb \<noteq> ZeroHopLight" and "rqm_return_component_opt msg = Some bc"
  shows "\<exists>res nb'. handle_route_query_message W msg nb = Some (res, nb') \<and>
    (case res of
       None \<Rightarrow> nb' = nb \<and> unanswerable W nb msg
     | Some resp \<Rightarrow> nb' = nb\<lparr>nb_next_return_route_id := nb_next_return_route_id nb + 1\<rparr> \<and>
         (\<exists>p q hs route' rec. legs_found W nb msg p q \<and>
           rqr_expected_services resp = RoundTripServices (request_services (nb_database nb) p)
             (response_services (nb_database nb) (last p) q) (nb_next_return_route_id nb) \<and>
           unwind (cw_hop (nw_cores W)) C (ndb_this_node (nb_database nb) # p @ q) (rqr_route resp) =
             Some (map Inr hs, route') \<and>
           map lh_public_key hs = p @ q @ [[]] \<and>
           map lh_component hs = replicate (length p) HopperComponent @
             back_components (rqm_target_component msg) (length q) @ [bc] \<and>
           chain_rec (nb_chain nb) = Some rec \<and>
           list_all2 (hop_paid (cw_wallet_ops (nw_cores W)) (nb_consuming_wallet_opt nb) (Some (contract rec)))
             (ndb_this_node (nb_database nb) # p @ q) hs \<and>
           route_id (cw_id (nw_cores W)) (C (ndb_this_node (nb_database nb))) route' =
             Some (Inr (nb_next_return_route_id nb))))"
proof -
  let ?me = "ndb_this_node (nb_database nb)"
  from query_answered [OF assms] obtain res nb' where run: "handle_route_query_message W msg nb = Some (res, nb')" and
    res: "case res of
       None \<Rightarrow> nb' = nb \<and> unanswerable W nb msg
     | Some resp \<Rightarrow> nb' = nb\<lparr>nb_next_return_route_id := nb_next_return_route_id nb + 1\<rparr> \<and>
         (\<exists>p q rec. legs_found W nb msg p q \<and>
           rqr_expected_services resp = RoundTripServices (request_services (nb_database nb) p)
             (response_services (nb_database nb) (last p) q) (nb_next_return_route_id nb) \<and>
           chain_rec (nb_chain nb) = Some rec \<and>
           round_trip (cw_hop (nw_cores W)) (cw_id (nw_cores W)) (cw_wallet_ops (nw_cores W))
             \<lparr>rs_keys = ?me # p, rs_recipient = rqm_target_component msg\<rparr> \<lparr>rs_keys = last p # q, rs_recipient = bc\<rparr>
             (C ?me) (nb_consuming_wallet_opt nb) (nb_next_return_route_id nb)
             (Some (contract rec)) = Some (Inr (rqr_route resp)))"
    by blast
  show ?thesis
  proof (cases res)
    case None
    with run res show ?thesis by simp
  next
    case (Some resp)
    with res obtain p q rec where legs: "legs_found W nb msg p q" and rec: "chain_rec (nb_chain nb) = Some rec"
      and services: "rqr_expected_services resp = RoundTripServices (request_services (nb_database nb) p)
             (response_services (nb_database nb) (last p) q) (nb_next_return_route_id nb)"
      and route: "round_trip (cw_hop (nw_cores W)) (cw_id (nw_cores W)) (cw_wallet_ops (nw_cores W))
             \<lparr>rs_keys = ?me # p, rs_recipient = rqm_target_component msg\<rparr> \<lparr>rs_keys = last p # q, rs_recipient = bc\<rparr>
             (C ?me) (nb_consuming_wallet_opt nb) (nb_next_return_route_id nb)
             (Some (contract rec)) = Some (Inr (rqr_route resp))"
      by auto
    from answer_unwinds [OF assms(1,2) legs route] run res services rec legs Some show ?thesis
      by (intro exI [of _ res] exI [of _ nb']) (simp, blast)
  qed
qed

theorem route_query_answered_witness:
  "\<exists>resp nb'. handle_route_query_message sample_world sample_query (sample_neighborhood priced_db) = Some (Some resp, nb') \<and>
    nb_next_return_route_id nb' = 8 \<and>
    rqr_expected_services resp = RoundTripServices
      [NoService, service_of RoutingService priced_db [2], service_of ExitService priced_db [3]]
      [service_of ExitService priced_db [3], service_of RoutingService priced_db [2], NoService] 7"
proof -
  let ?nb = "sample_neighborhood priced_db"
  have sel: "nb_mode ?nb \<noteq> ZeroHopLight"
    "rqm_return_component_opt sample_query = Some ProxyServerComponent" "nb_database ?nb = priced_db"
    "ndb_this_node priced_db = [0]" "nb_next_return_route_id ?nb = 7" "nb_consuming_wallet_opt ?nb \<noteq> None"
    by (simp_all add: sample_query_def sample_neighborhood_def priced_db_def)
  have "\<not> unanswerable sample_world ?nb sample_query"
    using sample_legs sel(6) by (auto simp: unanswerable_def)
  moreover have legs: "p = [[2], [3]] \<and> q = [[2], [0]]" if "legs_found sample_world ?nb sample_query p q" for p q
    using that sample_legs sel by (auto simp: legs_found_def)
  moreover note route_query_answered [OF null.cryptde_network_axioms [of "\<lambda>_ _. []"] sample_ready sel(1,2)]
  ultimately show ?thesis
    by (auto simp: sel request_services_def response_services_def split: option.splits dest!: legs)
qed

text \<open>
  C2. The Hoppers deliver what the Neighborhood promises. A package that the originator sends on the route of an
  answer reaches the ProxyClient of the exit Node, relayed and reported once by every Node that the
  answer says to expect routing from on the way over; the response that the exit Node sends on what is left of the
  route reaches the originator's ProxyServer, relayed and reported once by every Node expected on the
  way back; and the originator reads the return route id of its answer from the rest.
\<close>

theorem queried_route_delivered:
  assumes net: "cryptde_network C valid_key" and ready: "routing_ready C valid_key W nb"
    and world: "cores_world_ok (nw_cores W)" and rec: "chain_rec (nb_chain nb) = Some rec"
    and hps: "hoppers_of (nw_cores W) C (contract rec) hps" "\<forall>k. hp_proxy_client_running (hps k)"
    and wallet: "nb_consuming_wallet_opt nb = Some (WalletSecretKey s)"
      "a = WalletAddress (wo_secret_address (cw_wallet_ops (nw_cores W)) s)" "\<forall>k. a |\<notin>| hp_ban_cache (hps k)"
    and msg: "rqm_target_component msg = ProxyClientComponent" "rqm_return_component_opt msg = Some ProxyServerComponent"
    and query: "nb_mode nb \<noteq> ZeroHopLight" "handle_route_query_message W msg nb = Some (Some resp, nb')"
    and request: "cw_extract (nw_cores W) (ClientRequest vd) = Inr req"
    and response: "decodex (cw_message (nw_cores W)) (hp_alias (hps (ndb_this_node (nb_database nb)))) payload' =
        Some (Inr (ClientResponse vd'))" "cw_extract (nw_cores W) (ClientResponse vd') = Inr resp'"
  shows "\<exists>p q icp data tr r1 data' tr' r2 hop r3.
    rqr_expected_services resp = RoundTripServices (request_services (nb_database nb) p)
      (response_services (nb_database nb) (last p) q) (nb_next_return_route_id nb) \<and>
    incipient_new (nw_cores W) (C (ndb_this_node (nb_database nb))) (rqr_route resp) (ClientRequest vd) (last p) = Inr icp \<and>
    consume (nw_cores W) (C (ndb_this_node (nb_database nb))) icp = Some [ToDispatcher \<lparr>tdm_endpoint = KeyEndpoint (hd p),
      tdm_last_data = False, tdm_sequence_number_opt = None, tdm_data = data\<rparr>] \<and>
    transport (nw_cores W) hps addr (length p) (hd p) data = Some tr \<and>
    reports tr = map (relay_report (nw_cores W) hps a (icp_payload icp)) (butlast p) \<and>
    deliveries tr = [(last p, ToProxyClient \<lparr>ecp_immediate_neighbor = addr, ecp_paying_wallet = Some a,
      ecp_remaining_route = r1, ecp_payload = req, ecp_payload_len = length (icp_payload icp)\<rparr>)] \<and>
    consume (nw_cores W) (C (last p)) \<lparr>icp_route = r1, icp_payload = payload'\<rparr> =
      Some [ToDispatcher \<lparr>tdm_endpoint = KeyEndpoint (hd q), tdm_last_data = False,
        tdm_sequence_number_opt = None, tdm_data = data'\<rparr>] \<and>
    transport (nw_cores W) hps addr' (length q) (hd q) data' = Some tr' \<and>
    reports tr' = map (relay_report (nw_cores W) hps a payload') (butlast q) \<and>
    deliveries tr' = [(ndb_this_node (nb_database nb), ToProxyServer \<lparr>ecp_immediate_neighbor = addr',
      ecp_paying_wallet = Some a, ecp_remaining_route = r2, ecp_payload = resp', ecp_payload_len = length payload'\<rparr>)] \<and>
    shift (cw_hop (nw_cores W)) (C (ndb_this_node (nb_database nb))) r2 = Some (Inr hop, r3) \<and>
    route_id (cw_id (nw_cores W)) (C (ndb_this_node (nb_database nb))) r3 = Some (Inr (nb_next_return_route_id nb))"
proof -
  let ?me = "ndb_this_node (nb_database nb)"
  from query_answered [OF net ready query(1) msg(2)] query(2) obtain p q where legs: "legs_found W nb msg p q"
    and services: "rqr_expected_services resp = RoundTripServices (request_services (nb_database nb) p)
      (response_services (nb_database nb) (last p) q) (nb_next_return_route_id nb)"
    and route: "round_trip (cw_hop (nw_cores W)) (cw_id (nw_cores W)) (cw_wallet_ops (nw_cores W))
      \<lparr>rs_keys = ?me # p, rs_recipient = ProxyClientComponent\<rparr> \<lparr>rs_keys = last p # q, rs_recipient = ProxyServerComponent\<rparr>
      (C ?me) (Some (WalletSecretKey s)) (nb_next_return_route_id nb) (Some (contract rec)) = Some (Inr (rqr_route resp))"
    using rec wallet(1) msg(1) by auto
  from legs have p: "p \<noteq> []" "q \<noteq> []" "distinct (?me # p)" "distinct (last p # q)" "last q = ?me"
    and known: "\<forall>k \<in> set p \<union> set q. \<exists>n. node_by_key (nb_database nb) k = Some n"
    by (simp_all add: legs_found_def)
  from known have valid: "\<forall>k \<in> set p \<union> set q. valid_key k" using ready_keys_valid [OF ready] by blast
  note run = cryptde_network.delivered [OF net world hps(1) wallet(2,3) p valid request hps(2) [rule_format] response,
      of "nb_next_return_route_id nb" addr addr', unfolded route]
  from run services show ?thesis
    apply (elim exE conjE)
    subgoal for route' icp data tr r1 data' tr' r2 hop r3
      by (rule exI [of _ p], rule exI [of _ q], rule exI [of _ icp], rule exI [of _ data], rule exI [of _ tr],
          rule exI [of _ r1], rule exI [of _ data'], rule exI [of _ tr'], rule exI [of _ r2], rule exI [of _ hop],
          rule exI [of _ r3]) (simp del: transport.simps)
    done
qed

theorem queried_route_delivered_witness:
  "\<exists>resp nb' p icp data tr. handle_route_query_message sample_world sample_query (sample_neighborhood priced_db) =
      Some (Some resp, nb') \<and>
    incipient_new sample_cores_world (null_cryptde_of (\<lambda>_ _. []) [0]) (rqr_route resp)
      (ClientRequest \<lparr>vd_version = DataVersion 0 1, vd_bytes = [8]\<rparr>) (last p) = Inr icp \<and>
    consume sample_cores_world (null_cryptde_of (\<lambda>_ _. []) [0]) icp = Some [ToDispatcher \<lparr>tdm_endpoint = KeyEndpoint (hd p),
      tdm_last_data = False, tdm_sequence_number_opt = None, tdm_data = data\<rparr>] \<and>
    transport sample_cores_world sample_network \<lparr>sa_ip = V4 1, sa_port = 2\<rparr> (length p) (hd p) data = Some tr \<and>
    map fst (reports tr) = butlast p \<and> map fst (deliveries tr) = [last p]"
proof -
  let ?W = sample_world and ?nb = "sample_neighborhood priced_db" and ?C = "null_cryptde_of (\<lambda>_ _. [])"
  let ?resp = "\<lparr>vd_version = DataVersion 0 1, vd_bytes = [6]\<rparr>" and ?req = "\<lparr>vd_version = DataVersion 0 1, vd_bytes = [8]\<rparr>"
  obtain rec where rec: "chain_rec (nb_chain ?nb) = Some rec" "contract rec = replicate 20 0"
    by (simp add: sample_neighborhood_def chain_rec_def CHAINS_def numeral_eq_Suc)
  have cores: "nw_cores ?W = sample_cores_world" "nb_database ?nb = priced_db" "ndb_this_node priced_db = [0]"
    by (simp_all add: sample_world_def sample_neighborhood_def priced_db_def)
  have world: "cores_world_ok (nw_cores ?W)"
    by (simp add: cores cores_world_ok_def sample_cores_world_def sample_hop_codec_ok sample_u32_codec_ok
        sample_message_codec_ok sample_lcp_codec_ok sample_wallet_ops_ok)
  have hps: "hoppers_of (nw_cores ?W) ?C (contract rec) sample_network" "\<forall>k. hp_proxy_client_running (sample_network k)"
    by (simp_all add: hoppers_of_def sample_network_def sample_hoppers_def sample_cores_world_def cores rec(2))
  have wallet: "nb_consuming_wallet_opt ?nb = Some (WalletSecretKey [9])" "nb_mode ?nb \<noteq> ZeroHopLight"
    "\<forall>k. WalletAddress (wo_secret_address (cw_wallet_ops (nw_cores ?W)) [9]) |\<notin>| hp_ban_cache (sample_network k)"
    by (simp_all add: sample_neighborhood_def sample_network_def sample_hoppers_def)
  have msg: "rqm_target_component sample_query = ProxyClientComponent"
    "rqm_return_component_opt sample_query = Some ProxyServerComponent" by (simp_all add: sample_query_def)
  obtain resp nb' where query: "handle_route_query_message ?W sample_query ?nb = Some (Some resp, nb')"
    using sample_answered by blast
  from null.decodex_encodex [of "[0, 0]" sample_message_codec "\<lambda>_ _. []" "[3]" "ClientResponse ?resp"]
  obtain payload' where dec: "decodex (cw_message (nw_cores ?W)) (hp_alias (sample_network (ndb_this_node (nb_database ?nb)))) payload' =
      Some (Inr (ClientResponse ?resp))"
    using sample_message_codec_ok by (auto simp: sample_cores_world_def sample_network_def sample_hoppers_def cores)
  have req: "cw_extract (nw_cores ?W) (ClientRequest ?req) = Inr (ClientRequest ?req)"
    "cw_extract (nw_cores ?W) (ClientResponse ?resp) = Inr (ClientResponse ?resp)"
    by (simp_all add: sample_cores_world_def cores)
  from queried_route_delivered [OF null.cryptde_network_axioms [of "\<lambda>_ _. []"] sample_ready world rec(1) hps wallet(1) refl wallet(3)
      msg wallet(2) query req(1) dec req(2), of "\<lparr>sa_ip = V4 1, sa_port = 2\<rparr>" "\<lparr>sa_ip = V4 3, sa_port = 4\<rparr>"]
  show ?thesis
    apply (elim exE conjE)
    subgoal for p q icp data tr r1 data' tr' r2 hop r3
      by (rule exI [of _ resp], rule exI [of _ nb'], rule exI [of _ p], rule exI [of _ icp], rule exI [of _ data],
          rule exI [of _ tr]) (simp del: transport.simps add: query cores relay_report_def comp_def)
    done
qed

end
