(* ===== verification/Acceptor_Safety.thy ===== *)
theory Acceptor_Safety
  imports Gossip_Acceptor
begin

text \<open>
  Why Gossip cannot hurt the database: no handler panics on the Gossip that reaches it, every
  handler keeps the database well-formed, and what a record says of a Node changes only to a newer
  version of the same Node. The lemmas go from the shared helpers of the handlers to
  the handlers one by one; the properties are at the end.
\<close>

section \<open>How records may change\<close>

definition record_evolves :: "node_record \<Rightarrow> node_record \<Rightarrow> bool" where
  "record_evolves r r' \<longleftrightarrow> public_key r' = public_key r \<and> rate_pack_of r' = rate_pack_of r \<and>
     (\<forall>na. nrm_node_addr_opt (nr_metadata r) = Some na \<longrightarrow> nrm_node_addr_opt (nr_metadata r') = Some na) \<and>
     (nr_inner r' = nr_inner r \<or> version r < version r')"

definition root_evolves :: "node_record \<Rightarrow> node_record \<Rightarrow> bool" where
  "root_evolves r r' \<longleftrightarrow>
     nr_inner r' = (nr_inner r)\<lparr>nri_neighbors := nri_neighbors (nr_inner r'), nri_version := nri_version (nr_inner r')\<rparr> \<and>
     nri_neighbors (nr_inner r) |\<subseteq>| nri_neighbors (nr_inner r') \<and>
     nrm_node_addr_opt (nr_metadata r') = nrm_node_addr_opt (nr_metadata r)"

definition db_evolves :: "neighborhood_database \<Rightarrow> neighborhood_database \<Rightarrow> bool" where
  "db_evolves db db' \<longleftrightarrow> ndb_this_node db' = ndb_this_node db \<and>
     (\<forall>k r. k \<noteq> ndb_this_node db \<and> node_by_key db k = Some r \<longrightarrow>
        (\<exists>r'. node_by_key db' k = Some r' \<and> record_evolves r r')) \<and>
     (\<forall>r. root db = Some r \<longrightarrow> (\<exists>r'. root db' = Some r' \<and> root_evolves r r'))"

lemma record_evolves_refl [simp]: "record_evolves r r"
  by (simp add: record_evolves_def)

lemma record_evolves_trans: "record_evolves r r' \<Longrightarrow> record_evolves r' r'' \<Longrightarrow> record_evolves r r''"
  by (auto simp: record_evolves_def)

lemma root_evolves_refl [simp]: "root_evolves r r"
  by (simp add: root_evolves_def)

lemma root_evolves_trans:
  assumes "root_evolves r r'" and "root_evolves r' r''"
  shows "root_evolves r r''"
proof -
  have "nr_inner r'' = (nr_inner r)\<lparr>nri_neighbors := nri_neighbors (nr_inner r''), nri_version := nri_version (nr_inner r'')\<rparr>"
    using assms unfolding root_evolves_def
    by (cases "nr_inner r"; cases "nr_inner r'"; cases "nr_inner r''") auto
  then show ?thesis using assms unfolding root_evolves_def by auto
qed

lemma db_evolves_refl [simp]: "db_evolves db db"
  by (simp add: db_evolves_def)

lemma db_evolves_trans:
  assumes "db_evolves db db'" and "db_evolves db' db''"
  shows "db_evolves db db''"
  unfolding db_evolves_def
proof (intro conjI allI impI)
  show "ndb_this_node db'' = ndb_this_node db" using assms by (simp add: db_evolves_def)
next
  fix k r assume *: "k \<noteq> ndb_this_node db \<and> node_by_key db k = Some r"
  with assms(1) obtain r' where r': "node_by_key db' k = Some r'" "record_evolves r r'"
    unfolding db_evolves_def by blast
  from * assms(1) have "k \<noteq> ndb_this_node db'" by (simp add: db_evolves_def)
  with r'(1) assms(2) obtain r'' where "node_by_key db'' k = Some r''" "record_evolves r' r''"
    unfolding db_evolves_def by blast
  with r'(2) show "\<exists>r'. node_by_key db'' k = Some r' \<and> record_evolves r r'"
    by (blast intro: record_evolves_trans)
next
  fix r assume "root db = Some r"
  with assms(1) obtain r' where r': "root db' = Some r'" "root_evolves r r'"
    unfolding db_evolves_def by blast
  with assms(2) obtain r'' where "root db'' = Some r''" "root_evolves r' r''"
    unfolding db_evolves_def by blast
  with r'(2) show "\<exists>r'. root db'' = Some r' \<and> root_evolves r r'"
    by (blast intro: root_evolves_trans)
qed

section \<open>The changes the handlers make\<close>

lemma db_evolves_add_arbitrary_node:
  assumes "wf_db db" and "node_by_key db (nri_public_key (nr_inner r)) = None"
  shows "db_evolves db (add_arbitrary_node r db)"
proof -
  from assms(1) obtain q where q: "node_by_key db (ndb_this_node db) = Some q" by (rule wf_db_root)
  show ?thesis
    unfolding db_evolves_def root_def using assms(2) q
    by (intro conjI allI impI) (simp_all, metis option.distinct(1) record_evolves_refl, metis option.distinct(1))
qed

lemma db_evolves_put_node:
  assumes "k \<noteq> ndb_this_node db" and "node_by_key db k = Some r" and "record_evolves r r'"
  shows "db_evolves db (put_node k r' db)"
  using assms unfolding db_evolves_def root_def by simp

lemma db_evolves_put_root:
  assumes "root db = Some r" and "root_evolves r r'"
  shows "db_evolves db (put_node (ndb_this_node db) r' db)"
  using assms unfolding db_evolves_def root_def by simp

lemma root_new_version_run:
  assumes wf: "wf_db db" and E: "env_ok E" and r: "root db = Some r"
  obtains r' db' where "root_new_version E db = Some db'" "wf_db db'" "db_evolves db db'"
    "db' = put_node (ndb_this_node db) r' db" "root db' = Some r'"
    "nr_inner r' = (nr_inner r)\<lparr>nri_version := nri_version (nr_inner r) + 1\<rparr>"
    "nr_metadata r' = nr_metadata r"
proof -
  obtain r' where r': "regenerate_signed_gossip E (increment_version r) = Some r'"
    "nr_inner r' = nr_inner (increment_version r)" "nr_metadata r' = nr_metadata (increment_version r)"
    using E by (rule env_ok_regenerate)
  have "root_new_version E db = Some (put_node (ndb_this_node db) r' db)"
    unfolding root_new_version_def root_mut_def r bind.bind_lunit r'(1) by (rule refl)
  moreover have "wf_db (put_node (ndb_this_node db) r' db)"
    by (rule wf_db_root_unchanged_neighbors [OF wf r]) (simp_all add: same_place_def r')
  moreover have "db_evolves db (put_node (ndb_this_node db) r' db)"
    by (rule db_evolves_put_root [OF r]) (simp add: root_evolves_def r')
  ultimately show thesis
    by (rule that [where r' = r']) (simp_all add: r' root_def)
qed

lemma new_half_neighbor:
  assumes wf: "wf_db db" and E: "env_ok E" and r: "root db = Some r"
    and n: "node_by_key db k = Some n" "has_node_addr n" "k \<noteq> ndb_this_node db"
    and new: "k |\<notin>| nri_neighbors (nr_inner r)"
  obtains db1 db2 r2 where "add_half_neighbor E k db = (Inr True, db1)" "root_new_version E db1 = Some db2"
    "wf_db db2" "db_evolves db db2" "root db2 = Some r2" "ndb_this_node db2 = ndb_this_node db"
    "nri_neighbors (nr_inner r2) = finsert k (nri_neighbors (nr_inner r))"
    "\<And>k'. k' \<noteq> ndb_this_node db \<Longrightarrow> node_by_key db2 k' = node_by_key db k'"
proof -
  let ?r1 = "touch E (put_neighbors (finsert k (nri_neighbors (nr_inner r))) r)"
  let ?db1 = "put_node (ndb_this_node db) ?r1 db"
  have key: "nri_public_key (nr_inner r) = ndb_this_node db"
    using wf_db_key [OF wf] r by (simp add: root_def)
  have run: "add_half_neighbor E k db = (Inr True, ?db1)"
    using n new key by (intro add_half_neighbor_ok [OF r]) simp_all
  have wf1: "wf_db ?db1"
    using wf_db_add_half_neighbor [OF wf n(1,2), of E] unfolding run by simp
  have ev1: "db_evolves db ?db1"
    by (rule db_evolves_put_root [OF r]) (auto simp: root_evolves_def)
  have r1: "root ?db1 = Some ?r1" by (simp add: root_def)
  obtain r2 db2 where db2: "root_new_version E ?db1 = Some db2" "wf_db db2" "db_evolves ?db1 db2"
    "db2 = put_node (ndb_this_node ?db1) r2 ?db1" "root db2 = Some r2"
    "nr_inner r2 = (nr_inner ?r1)\<lparr>nri_version := nri_version (nr_inner ?r1) + 1\<rparr>"
    "nr_metadata r2 = nr_metadata ?r1"
    by (rule root_new_version_run [OF wf1 E r1])
  have "db_evolves db db2" using ev1 db2(3) by (rule db_evolves_trans)
  then show thesis
    using run db2 by (intro that [of ?db1 db2 r2]) simp_all
qed

text \<open>A record that \<open>update\<close> accepts, with a newer version.\<close>

lemma record_evolves_update:
  assumes "update_node_record E agr r = (Inr u, r')" and "version r < nri_version (agr_inner agr)"
  shows "record_evolves r r'"
  using update_node_record_ok [OF assms(1)] assms(2) by (auto simp: record_evolves_def)

lemma update_step:
  assumes wf: "wf_db db" and k: "k \<noteq> ndb_this_node db" "node_by_key db k = Some r"
    and up: "update_node_record E agr r = (Inr u, r')" and v: "version r < nri_version (agr_inner agr)"
  shows "wf_db (put_node k r' db)" "db_evolves db (put_node k r' db)"
  using wf_db_replace [OF wf k(2) same_place_update [OF up] k(1)]
    db_evolves_put_node [OF k record_evolves_update [OF up v]] by simp_all

lemma add_node_step:
  assumes wf: "wf_db db" and k: "node_by_key db (nri_public_key (nr_inner r)) = None"
    and ports: "\<And>na. nrm_node_addr_opt (nr_metadata r) = Some na \<Longrightarrow> na_ports na \<noteq> []"
  shows "add_node r db = (Inr (nri_public_key (nr_inner r)), add_arbitrary_node r db)"
    "wf_db (add_arbitrary_node r db)" "db_evolves db (add_arbitrary_node r db)"
  using add_node_new [of db r] wf_db_add_arbitrary_node [OF wf k] db_evolves_add_arbitrary_node [OF wf k] k ports
  by auto

section \<open>Degrees and orders\<close>

definition degree :: "node_env \<Rightarrow> neighborhood_database \<Rightarrow> public_key \<Rightarrow> nat" where
  "degree E db k = the (gossip_target_degree E db k)"

lemma gossip_target_degree_Some: "env_ok E \<Longrightarrow> gossip_target_degree E db k = Some (degree E db k)"
  using gossip_target_degree_run [of E db k] by (metis degree_def option.sel)

lemma filter_run_Some:
  assumes "\<And>x. x \<in> set xs \<Longrightarrow> p x = Some (q x)"
  shows "filter_run p xs = Some (filter q xs)"
  using assms by (induction xs) auto

lemma skip_while_run_Some:
  assumes "\<And>x. x \<in> set xs \<Longrightarrow> p x = Some (q x)"
  shows "skip_while_run p xs = Some (dropWhile q xs)"
  using assms by (induction xs) auto

lemma insort_key_graph: "insort_key fst (f x, x) (map (\<lambda>y. (f y, y)) xs) = map (\<lambda>y. (f y, y)) (insort_key f x xs)"
  by (induction xs) auto

lemma sort_by_run_Some:
  assumes "\<And>x. x \<in> set xs \<Longrightarrow> key x = Some (f x)"
  shows "sort_by_run key xs = Some (sort_key f xs)"
proof -
  have "those (map key xs) = Some (map f xs)"
    using assms by (induction xs) auto
  moreover have "zip (map f xs) xs = map (\<lambda>y. (f y, y)) xs"
    by (induction xs) auto
  moreover have "sort_key fst (map (\<lambda>y. (f y, y)) xs) = map (\<lambda>y. (f y, y)) (sort_key f xs)"
    by (induction xs) (auto simp: insort_key_graph)
  ultimately show ?thesis by (simp add: sort_by_run_def comp_def)
qed

lemma first_Some_in: "first xs = Some x \<Longrightarrow> x \<in> set xs"
  by (auto simp: first_def split: list.splits)

lemma first_Cons: "first xs = Some x \<Longrightarrow> \<exists>zs. xs = x # zs"
  by (simp add: first_def split: list.splits)

lemma first_None: "first xs = None \<longleftrightarrow> xs = []"
  by (simp add: first_def split: list.splits)

lemma sort_key_Nil: "sort_key f xs = [] \<longleftrightarrow> xs = []"
  by (metis set_empty set_sort)

lemma keys_ordered_by_degree_excluding_run:
  assumes "env_ok E"
  shows "keys_ordered_by_degree_excluding E db ks excluding =
    Some (sort_key (degree E db) (filter (\<lambda>k. k |\<notin>| excluding) (env_iter E ks)))"
  unfolding keys_ordered_by_degree_excluding_def
  by (rule sort_by_run_Some) (rule gossip_target_degree_Some [OF assms])

lemma first_least:
  assumes "first (sort_key f xs) = Some x" and "y \<in> set xs"
  shows "x \<in> set xs" "f x \<le> f y"
proof -
  from assms(1) obtain ys where ys: "sort_key f xs = x # ys"
    by (auto simp: first_def split: list.splits)
  then show "x \<in> set xs" by (metis list.set_intros(1) set_sort)
  have "sorted (map f (x # ys))" using sorted_sort_key [of f xs] ys by simp
  moreover have "y \<in> set (x # ys)" using assms(2) ys by (metis set_sort)
  ultimately show "f x \<le> f y" by auto
qed

lemma find_least_connected_neighbor_excluding_run:
  assumes E: "env_ok E"
  obtains k_opt where "find_least_connected_neighbor_excluding E ks db agr = Some k_opt"
    "\<And>k. k_opt = Some k \<Longrightarrow> k |\<in>| ks \<and> k |\<notin>| node_and_neighbor_keys agr \<and>
       (\<forall>k'. k' |\<in>| ks \<and> k' |\<notin>| node_and_neighbor_keys agr \<longrightarrow> degree E db k \<le> degree E db k')"
    "k_opt = None \<Longrightarrow> ks |\<subseteq>| node_and_neighbor_keys agr"
proof -
  define xs where "xs = filter (\<lambda>k. k |\<notin>| node_and_neighbor_keys agr) (env_iter E ks)"
  have xs: "k \<in> set xs \<longleftrightarrow> k |\<in>| ks \<and> k |\<notin>| node_and_neighbor_keys agr" for k
    using E by (auto simp: xs_def)
  have run: "find_least_connected_neighbor_excluding E ks db agr = Some (first (sort_key (degree E db) xs))"
    unfolding find_least_connected_neighbor_excluding_def keys_ordered_by_degree_excluding_run [OF E] xs_def
    by simp
  show thesis
  proof (rule that [OF run])
    fix k assume k: "first (sort_key (degree E db) xs) = Some k"
    then have "k \<in> set xs" using first_Some_in by fastforce
    with first_least(2) [OF k] show "k |\<in>| ks \<and> k |\<notin>| node_and_neighbor_keys agr \<and>
       (\<forall>k'. k' |\<in>| ks \<and> k' |\<notin>| node_and_neighbor_keys agr \<longrightarrow> degree E db k \<le> degree E db k')"
      by (simp add: xs)
  next
    assume "first (sort_key (degree E db) xs) = None"
    then have "xs = []" by (simp only: first_None sort_key_Nil)
    then show "ks |\<subseteq>| node_and_neighbor_keys agr" using xs by auto
  qed
qed

text \<open>The two searches of the debut handler.\<close>

lemma node_accepts_connections_Some:
  "node_by_key db k = Some n \<Longrightarrow> node_accepts_connections db k = Some (accepts_connections n)"
  by (simp add: node_accepts_connections_def)

lemma full_neighbor_known:
  assumes "k |\<in>| full_neighbor_keys r db"
  obtains n where "node_by_key db k = Some n"
  using assms by (auto simp: in_full_neighbor_keys)

lemma find_more_appropriate_neighbor_run:
  assumes E: "env_ok E" and r: "root db = Some r"
  obtains k_opt where "find_more_appropriate_neighbor E db agr = Some k_opt"
    "\<And>k. k_opt = Some k \<Longrightarrow> k |\<in>| full_neighbor_keys r db \<and> k |\<notin>| node_and_neighbor_keys agr \<and>
       (\<exists>n. node_by_key db k = Some n \<and> accepts_connections n) \<and>
       2 < degree E db k \<and> degree E db k < degree E db (public_key r)"
proof -
  define acc where "acc = (\<lambda>k. accepts_connections (the (node_by_key db k)))"
  define ks where "ks = sort_key (degree E db) (filter (\<lambda>k. k |\<notin>| node_and_neighbor_keys agr)
    (env_iter E (full_neighbor_keys r db)))"
  define qs where "qs = dropWhile (\<lambda>k. degree E db k \<le> 2) (filter acc ks)"
  define res where "res = (case first qs of None \<Rightarrow> None
      | Some k \<Rightarrow> if degree E db k \<ge> degree E db (public_key r) then None else Some k)"
  have ks: "k |\<in>| full_neighbor_keys r db \<and> k |\<notin>| node_and_neighbor_keys agr" if "k \<in> set ks" for k
    using that E by (auto simp: ks_def)
  have f: "filter_run (node_accepts_connections db) ks = Some (filter acc ks)"
  proof (rule filter_run_Some)
    fix k assume "k \<in> set ks"
    with ks obtain n where "node_by_key db k = Some n" by (meson full_neighbor_known)
    then show "node_accepts_connections db k = Some (acc k)"
      by (simp add: node_accepts_connections_def acc_def)
  qed
  have s: "skip_while_run (\<lambda>k. do { d \<leftarrow> gossip_target_degree E db k; ret (d \<le> 2) }) (filter acc ks) = Some qs"
    unfolding qs_def by (rule skip_while_run_Some) (simp add: gossip_target_degree_Some [OF E])
  have run: "find_more_appropriate_neighbor E db agr = Some res"
    unfolding find_more_appropriate_neighbor_def root_full_neighbors_ordered_by_degree_excluding_def r
      bind.bind_lunit keys_ordered_by_degree_excluding_run [OF E] ks_def [symmetric] f s
    by (simp add: res_def gossip_target_degree_Some [OF E] split: option.split)
  have "k |\<in>| full_neighbor_keys r db \<and> k |\<notin>| node_and_neighbor_keys agr \<and>
       (\<exists>n. node_by_key db k = Some n \<and> accepts_connections n) \<and>
       2 < degree E db k \<and> degree E db k < degree E db (public_key r)" if "res = Some k" for k
  proof -
    from that have k: "first qs = Some k" "degree E db k < degree E db (public_key r)"
      by (auto simp: res_def split: option.splits if_splits)
    from first_Cons [OF k(1)] obtain zs where "qs = k # zs" by blast
    then have "filter acc ks = takeWhile (\<lambda>k. degree E db k \<le> 2) (filter acc ks) @ k # zs \<and> \<not> degree E db k \<le> 2"
      unfolding qs_def dropWhile_eq_Cons_conv .
    then have fs: "filter acc ks = takeWhile (\<lambda>k. degree E db k \<le> 2) (filter acc ks) @ k # zs"
      and d: "\<not> degree E db k \<le> 2" by blast+
    have "k \<in> set (filter acc ks)" by (subst fs) simp
    then have "k \<in> set ks" "acc k" by (simp_all only: set_filter mem_Collect_eq)
    moreover from this(1) ks obtain n where "node_by_key db k = Some n" by (meson full_neighbor_known)
    ultimately show ?thesis using ks [of k] k(2) d by (simp add: acc_def)
  qed
  with run show thesis by (rule that)
qed

section \<open>The debut handler\<close>

lemma make_pass_gossip_run:
  "node_by_key db k = Some n \<Longrightarrow> make_pass_gossip db k = Some \<lparr>node_records = [gossip_entry n True]\<rparr>"
  using builder_node_run [of db k n builder_new True]
  by (simp add: make_pass_gossip_def builder_new_def builder_build_def)

lemma root_builder_node:
  assumes "wf_db db" and "root db = Some r"
  shows "builder_node db (public_key r) True builder_new =
    Some \<lparr>gb_gossip = \<lparr>node_records = [gossip_entry r True]\<rparr>, gb_keys_so_far = {|ndb_this_node db|}\<rparr>"
proof -
  have key: "public_key r = ndb_this_node db" and n: "node_by_key db (public_key r) = Some r"
    using wf_db_key [OF assms(1)] assms(2) by (simp_all add: root_def)
  show ?thesis
    using builder_node_run [OF n, of builder_new True] key by (simp add: builder_new_def)
qed

lemma make_introduction_run:
  assumes wf: "wf_db db" and E: "env_ok E" and r: "root db = Some r"
  obtains (no_one) "make_introduction E db agr src = Some None"
    | (introduction) lcn n na where "lcn |\<in>| full_neighbor_keys r db" "lcn |\<notin>| node_and_neighbor_keys agr"
        "node_by_key db lcn = Some n" "accepts_connections n"
        "make_introduction E db agr src = Some (Some (\<lparr>node_records = [gossip_entry r True, gossip_entry n True]\<rparr>,
           nri_public_key (agr_inner agr), na))"
proof -
  let ?fs = "env_iter E (full_neighbor_keys r db)"
  define acc where "acc = (\<lambda>k. accepts_connections (the (node_by_key db k)))"
  have "filter_run (node_accepts_connections db) ?fs = Some (filter acc ?fs)"
  proof (rule filter_run_Some)
    fix k assume "k \<in> set ?fs"
    with E obtain n where "node_by_key db k = Some n" by (auto simp: in_full_neighbor_keys)
    then show "node_accepts_connections db k = Some (acc k)"
      by (simp add: node_accepts_connections_def acc_def)
  qed
  then have find: "find_least_connected_full_neighbor_excluding E db agr =
      find_least_connected_neighbor_excluding E (fset_of_list (filter acc ?fs)) db agr"
    by (simp add: find_least_connected_full_neighbor_excluding_def r)
  obtain k_opt where k_opt: "find_least_connected_full_neighbor_excluding E db agr = Some k_opt"
    "\<And>k. k_opt = Some k \<Longrightarrow> k |\<in>| fset_of_list (filter acc ?fs) \<and> k |\<notin>| node_and_neighbor_keys agr"
    unfolding find by (rule find_least_connected_neighbor_excluding_run [OF E]) blast
  show thesis
  proof (cases k_opt)
    case None
    then show thesis using k_opt(1) by (intro no_one) (simp add: make_introduction_def)
  next
    case (Some lcn)
    with k_opt(2) [of lcn] E have lcn: "lcn |\<in>| full_neighbor_keys r db" "acc lcn" "lcn |\<notin>| node_and_neighbor_keys agr"
      by (simp_all add: fset_of_list_elem)
    then obtain n where n: "node_by_key db lcn = Some n" by (auto simp: in_full_neighbor_keys)
    from lcn(1) have "lcn |\<in>| nri_neighbors (nr_inner r)" by (simp add: in_full_neighbor_keys)
    then have "lcn \<noteq> ndb_this_node db" using wf_db_neighbor [OF wf r] by blast
    then have "builder_node db lcn True
        \<lparr>gb_gossip = \<lparr>node_records = [gossip_entry r True]\<rparr>, gb_keys_so_far = {|ndb_this_node db|}\<rparr> =
      Some \<lparr>gb_gossip = \<lparr>node_records = [gossip_entry r True, gossip_entry n True]\<rparr>,
        gb_keys_so_far = {|public_key n, ndb_this_node db|}\<rparr>"
      using builder_node_run [OF n] by simp
    then have "make_introduction E db agr src = Some (Some (\<lparr>node_records = [gossip_entry r True, gossip_entry n True]\<rparr>,
           nri_public_key (agr_inner agr), (case agr_node_addr_opt agr of
                Some na \<Rightarrow> node_addr_clone na | None \<Rightarrow> node_addr_of_socket_addr src)))"
      unfolding make_introduction_def k_opt(1) bind.bind_lunit Some option.case n Let_def r
        root_builder_node [OF wf r] by (simp add: builder_build_def)
    with lcn n show thesis by (intro introduction) (simp_all add: acc_def)
  qed
qed

lemma create_debut_gossip_response_run:
  assumes wf: "wf_db db" and E: "env_ok E" and k: "k \<noteq> ndb_this_node db"
  obtains g where "create_debut_gossip_response E db k = Some g"
proof -
  from wf obtain r where r: "root db = Some r" "nri_public_key (nr_inner r) = ndb_this_node db"
    by (rule wf_db_root)
  obtain rr where rr: "add_half_neighbor_key k (clear_half_neighbors (node_record_clone r)) = (Inr (), rr)"
    using k r(2) by (simp add: add_half_neighbor_key_def)
  from E obtain g where "env_to_vec E (nr_inner rr) = Some g" by (auto simp: env_ok_def)
  moreover from E obtain s where "env_sign E g = Some s" by (auto simp: env_ok_def)
  ultimately show thesis
    using that r(1) rr by (simp add: create_debut_gossip_response_def gnr_of_inner_def)
qed

lemma try_accept_debut_run:
  assumes wf: "wf_db db" and E: "env_ok E" and r: "root db = Some r"
    and new: "node_by_key db (nri_public_key (agr_inner agr)) = None"
    and na: "agr_node_addr_opt agr = Some na" "na_ports na \<noteq> []"
  obtains (full) "try_accept_debut E db agr src uep = Some (Inl (), db)" "MAX_DEGREE \<le> degree E db (public_key r)"
    | (accepted) res db' r' where "try_accept_debut E db agr src uep = Some (Inr res, db')"
        "wf_db db'" "db_evolves db db'" "degree E db (public_key r) < MAX_DEGREE" "root db' = Some r'"
        "nri_neighbors (nr_inner r') = finsert (nri_public_key (agr_inner agr)) (nri_neighbors (nr_inner r))"
        "\<And>reason. res \<noteq> Ban reason"
proof (cases "MAX_DEGREE \<le> degree E db (public_key r)")
  case True
  then show thesis
    by (intro full) (simp_all add: try_accept_debut_def r gossip_target_degree_Some [OF E])
next
  case False
  let ?k = "nri_public_key (agr_inner agr)"
  define n where "n = apply_exit_preferences uep (node_record_of_agr_ref E agr)"
  have n: "nr_inner n = agr_inner agr" "nrm_node_addr_opt (nr_metadata n) = Some (node_addr_clone na)"
    using na by (simp_all add: n_def)
  have add: "add_node n db = (Inr ?k, add_arbitrary_node n db)" "wf_db (add_arbitrary_node n db)"
    "db_evolves db (add_arbitrary_node n db)"
    using add_node_step [OF wf, of n] new na(2) n by simp_all
  let ?db1 = "add_arbitrary_node n db"
  have other: "?k \<noteq> ndb_this_node db" using new r by (auto simp: root_def)
  have r1: "root ?db1 = Some r" using r other n by (simp add: root_def)
  have new1: "?k |\<notin>| nri_neighbors (nr_inner r)"
    using wf_db_neighbor [OF wf r, of ?k] new by (metis option.distinct(1))
  have known: "node_by_key ?db1 ?k = Some n" "has_node_addr n" "?k \<noteq> ndb_this_node ?db1"
    using other by (simp_all add: n has_node_addr_def)
  obtain db1' db2 r2 where db2: "add_half_neighbor E ?k ?db1 = (Inr True, db1')" "root_new_version E db1' = Some db2"
    "wf_db db2" "db_evolves ?db1 db2" "root db2 = Some r2" "ndb_this_node db2 = ndb_this_node ?db1"
    "nri_neighbors (nr_inner r2) = finsert ?k (nri_neighbors (nr_inner r))"
    by (rule new_half_neighbor [OF add(2) E r1 known new1])
  have ev: "db_evolves db db2" using add(3) db2(4) by (rule db_evolves_trans)
  have run: "try_accept_debut E db agr src uep =
      (if should_not_make_another_introduction agr then ret (Inr Accepted, db2)
       else do {
         introduction_opt \<leftarrow> make_introduction E db2 agr src;
         (case introduction_opt of
            Some (introduction, target_key, target_node_addr) \<Rightarrow>
              ret (Inr (Reply introduction target_key target_node_addr), db2)
          | None \<Rightarrow> do {
              debut_gossip \<leftarrow> create_debut_gossip_response E db2 ?k;
              na \<leftarrow> agr_node_addr_opt agr;
              ret (Inr (Reply debut_gossip ?k (node_addr_clone na)), db2) }) })"
    using False unfolding try_accept_debut_def r bind.bind_lunit gossip_target_degree_Some [OF E] Let_def
      n_def [symmetric] add(1) db2(1) by (simp add: db2(1,2))
  have "?k \<noteq> ndb_this_node db2" using other by (simp add: db2(6))
  then obtain g where g: "create_debut_gossip_response E db2 ?k = Some g"
    by (rule create_debut_gossip_response_run [OF db2(3) E])
  have "\<exists>res. try_accept_debut E db agr src uep = Some (Inr res, db2) \<and> (\<forall>reason. res \<noteq> Ban reason)"
    unfolding run by (rule make_introduction_run [OF db2(3) E db2(5), of agr src]) (simp_all add: g na)
  with ev db2 False show thesis by (metis accepted not_le)
qed

lemma debut_qualifies_Matched:
  assumes "debut_qualifies db agrs src = Matched"
  obtains agr where "agrs = [agr]" "node_by_key db (nri_public_key (agr_inner agr)) = None"
    "\<forall>na. agr_node_addr_opt agr = Some na \<longrightarrow> na_ports na \<noteq> [] \<and> na_ip_addr na = sa_ip src"
proof -
  from assms obtain agr where "agrs = [agr]" by (auto simp: debut_qualifies_def split: list.splits)
  with assms that [of agr] show thesis
    by (simp add: debut_qualifies_def Let_def split: if_splits option.splits)
qed

lemma debut_handle_run:
  assumes wf: "wf_db db" and E: "env_ok E" and r: "root db = Some r"
    and q: "debut_qualifies db agrs src = Matched"
  obtains res db' where "debut_handle E db agrs src md = Some (res, db')" "wf_db db'" "db_evolves db db'"
    "db' = db \<or> degree E db (public_key r) < MAX_DEGREE"
proof -
  from q obtain agr where agr: "agrs = [agr]" "node_by_key db (nri_public_key (agr_inner agr)) = None"
    "\<forall>na. agr_node_addr_opt agr = Some na \<longrightarrow> na_ports na \<noteq> [] \<and> na_ip_addr na = sa_ip src"
    by (rule debut_qualifies_Matched)
  define src_agr where "src_agr = (case agr_node_addr_opt agr of
      None \<Rightarrow> agr\<lparr>agr_node_addr_opt := Some (node_addr_of_socket_addr src)\<rparr> | Some _ \<Rightarrow> agr)"
  obtain na where na: "agr_node_addr_opt src_agr = Some na" "na_ports na \<noteq> []"
    using agr(3) by (cases "agr_node_addr_opt agr") (auto simp: src_agr_def)
  have inner: "agr_inner src_agr = agr_inner agr" by (simp add: src_agr_def split: option.split)
  obtain p where p: "find_more_appropriate_neighbor E db src_agr = Some p"
    "\<And>k. p = Some k \<Longrightarrow> k |\<in>| full_neighbor_keys r db"
    by (rule find_more_appropriate_neighbor_run [OF E r, of src_agr]) blast
  show thesis
  proof (cases p)
    case (Some k)
    with p(2) have "k |\<in>| nri_neighbors (nr_inner r)" by (simp add: in_full_neighbor_keys)
    then obtain n where n: "node_by_key db k = Some n" "has_node_addr n"
      using wf_db_neighbor [OF wf r] by blast
    then obtain a where "node_addr_opt n = Some a" by (auto simp: has_node_addr_def node_addr_opt_def)
    then have "debut_handle E db agrs src md =
        Some (Reply \<lparr>node_records = [gossip_entry n True]\<rparr> (nri_public_key (agr_inner src_agr)) (node_addr_clone na), db)"
      using p(1) Some na(1) n make_pass_gossip_run [OF n(1)]
      by (simp add: debut_handle_def agr(1) src_agr_def [symmetric] Let_def)
    from that [OF this wf db_evolves_refl disjI1 [OF refl]] show thesis .
  next
    case None
    have start: "debut_handle E db agrs src md = do {
        (result, database') \<leftarrow> try_accept_debut E db src_agr src (nmd_user_exit_preferences_opt md);
        (case result of
           Inr r \<Rightarrow> ret (r, database')
         | Inl _ \<Rightarrow> do {
             lcn_key_opt \<leftarrow> find_least_connected_half_neighbor_excluding E database' src_agr;
             (case lcn_key_opt of
                None \<Rightarrow> ret (Failed NoSuitableNeighbors (nri_public_key (agr_inner src_agr)) (node_addr_clone na), database')
              | Some lcn_key \<Rightarrow> do {
                  _ \<leftarrow> node_by_key database' lcn_key;
                  gossip \<leftarrow> make_pass_gossip database' lcn_key;
                  ret (Reply gossip (nri_public_key (agr_inner src_agr)) (node_addr_clone na), database') }) }) }"
      using p(1) None na(1) by (simp add: debut_handle_def agr(1) src_agr_def [symmetric] Let_def)
    have new: "node_by_key db (nri_public_key (agr_inner src_agr)) = None" using agr(2) inner by simp
    show thesis
    proof (cases rule: try_accept_debut_run [OF wf E r new na, of src "nmd_user_exit_preferences_opt md"])
      case (2 res db' r')
      then show thesis using start by (intro that [of res db']) simp_all
    next
      case 1
      obtain l where l: "find_least_connected_half_neighbor_excluding E db src_agr = Some l"
        "\<And>k. l = Some k \<Longrightarrow> k |\<in>| nri_neighbors (nr_inner r)"
        unfolding find_least_connected_half_neighbor_excluding_def r bind.bind_lunit half_neighbor_keys_def
        by (rule find_least_connected_neighbor_excluding_run [OF E]) blast
      have "\<exists>res. debut_handle E db agrs src md = Some (res, db)"
      proof (cases l)
        case None
        then show ?thesis using start 1 l(1) by simp
      next
        case (Some k)
        with l(2) obtain n where n: "node_by_key db k = Some n" using wf_db_neighbor [OF wf r] by blast
        show ?thesis using start 1 l(1) Some n make_pass_gossip_run [OF n] by simp
      qed
      then show thesis using wf that by auto
    qed
  qed
qed

section \<open>The pass handler\<close>

text \<open>Clock readings never go back, so every remembered pass is in the past.\<close>

definition targets_past :: "node_env \<Rightarrow> pass_targets \<Rightarrow> bool" where
  "targets_past E targets \<longleftrightarrow> (\<forall>ip t. fmlookup targets ip = Some t \<longrightarrow> t \<le> env_system_time E)"

lemma targets_past_upd: "targets_past E targets \<Longrightarrow> targets_past E (fmupd ip (env_system_time E) targets)"
  by (simp add: targets_past_def)

lemma pass_reply_run:
  assumes "wf_db db" and "root db = Some r"
  shows "pass_reply db agr na = Some (Reply \<lparr>node_records = [gossip_entry r True]\<rparr> (nri_public_key (agr_inner agr)) na)"
  unfolding pass_reply_def assms(2) bind.bind_lunit root_builder_node [OF assms]
  by (simp add: builder_build_def)

lemma pass_qualifies_Matched:
  assumes "pass_qualifies agrs src = Matched"
  obtains agr na where "agrs = [agr]" "agr_node_addr_opt agr = Some na" "na_ports na \<noteq> []" "na_ip_addr na \<noteq> sa_ip src"
proof -
  from assms obtain agr where "agrs = [agr]" by (auto simp: pass_qualifies_def split: list.splits)
  with assms that show thesis by (simp add: pass_qualifies_def split: if_splits option.splits)
qed

lemma pass_handle_run:
  assumes wf: "wf_db db" and r: "root db = Some r" and t: "targets_past E targets"
    and q: "pass_qualifies agrs src = Matched"
  obtains res cpms targets' where "pass_handle E db agrs src md targets = Some (res, cpms, targets')"
    "targets_past E targets'"
proof -
  from q obtain agr na where agr: "agrs = [agr]" "agr_node_addr_opt agr = Some na"
    by (rule pass_qualifies_Matched)
  have upd: "targets_past E (fmupd ip (env_system_time E) targets)" for ip
    using t by (rule targets_past_upd)
  note run = pass_handle_def agr Let_def pass_reply_run [OF wf r]
  show thesis
  proof (cases "fmlookup targets (na_ip_addr na)")
    case None
    then show thesis
      using t upd that by (cases "na_ip_addr na \<in> set (nmd_connection_progress_peers md)") (simp_all add: run)
  next
    case (Some time)
    then have "\<not> env_system_time E < time" using t unfolding targets_past_def by (simp add: not_less)
    with Some show thesis
      using upd that by (cases "env_system_time E - time \<le> PASS_GOSSIP_EXPIRED_TIME") (simp_all add: run)
  qed
qed

section \<open>The introduction handler\<close>

lemma identify_players_run:
  assumes "length agrs = 2"
  obtains (no) q where "identify_players agrs src = Some (Inl q)" "q \<noteq> Matched"
    | (players) introducer introducee na na' where
        "identify_players agrs src = Some (Inr (introducer, introducee))"
        "agr_node_addr_opt introducer = Some na" "agr_node_addr_opt introducee = Some na'"
        "na_ip_addr na = sa_ip src" "set agrs = {introducer, introducee}"
proof -
  from assms obtain a b where ab: "agrs = [a, b]" by (auto simp: length_Suc_conv numeral_2_eq_2)
  show thesis
  proof (cases "agr_node_addr_opt a")
    case None
    then show thesis by (intro no [of Unmatched]) (simp_all add: ab identify_players_def order_is_introducee_introducer_def)
  next
    case a: (Some na)
    show thesis
    proof (cases "agr_node_addr_opt b")
      case None
      with a show thesis
        by (intro no [of Unmatched]) (simp_all add: ab identify_players_def order_is_introducee_introducer_def)
    next
      case b: (Some na')
      note defs = ab a b identify_players_def order_is_introducee_introducer_def
      consider "na_ip_addr na = sa_ip src" | "na_ip_addr na \<noteq> sa_ip src" "na_ip_addr na' = sa_ip src"
        | "na_ip_addr na \<noteq> sa_ip src" "na_ip_addr na' \<noteq> sa_ip src" by blast
      then show thesis
      proof cases
        case 1
        then show thesis by (intro players [of a b na na']) (simp_all add: defs)
      next
        case 2
        then show thesis by (intro players [of b a na' na]) (auto simp add: defs)
      next
        case 3
        then show thesis
          by (intro no [of "Malformed (NeitherClaimsSource (nri_public_key (agr_inner a)) (nri_public_key (agr_inner b)))"])
            (simp_all add: defs)
      qed
    qed
  qed
qed

lemma verify_introducer_run:
  assumes "agr_node_addr_opt agr = Some na"
  obtains q where "verify_introducer agr r = Some q" "q \<noteq> Some Unmatched" "q \<noteq> Some Matched"
    "q = None \<longrightarrow> nri_public_key (agr_inner agr) \<noteq> public_key r \<and> na_ports na \<noteq> [] \<and>
       map_option na_ip_addr (node_addr_opt r) \<noteq> Some (na_ip_addr na)"
proof -
  have "\<exists>q. verify_introducer agr r = Some q \<and> q \<noteq> Some Unmatched \<and> q \<noteq> Some Matched \<and>
      (q = None \<longrightarrow> nri_public_key (agr_inner agr) \<noteq> public_key r \<and> na_ports na \<noteq> [] \<and>
       map_option na_ip_addr (node_addr_opt r) \<noteq> Some (na_ip_addr na))"
    using assms by (auto simp: verify_introducer_def Let_def split: option.split)
  with that show thesis by blast
qed

lemma verify_introducee_None:
  assumes "verify_introducee db introducer introducee src = None"
  obtains na where "agr_node_addr_opt introducee = Some na" "na_ports na \<noteq> []" "na_ip_addr na \<noteq> sa_ip src"
    "node_by_key db (nri_public_key (agr_inner introducee)) = None"
  using assms that by (simp add: verify_introducee_def Let_def split: option.splits if_splits)

lemma verify_introducee_not_Matched: "verify_introducee db introducer introducee src \<noteq> Some Matched"
  by (simp add: verify_introducee_def Let_def split: option.split)

lemma introduction_qualifies_run:
  assumes r: "root db = Some r"
  obtains (unmatched) q where "introduction_qualifies db agrs src = Some q" "q \<noteq> Matched"
    | (matched) introducer introducee na na' where "introduction_qualifies db agrs src = Some Matched"
        "identify_players agrs src = Some (Inr (introducer, introducee))"
        "agr_node_addr_opt introducer = Some na" "na_ports na \<noteq> []"
        "nri_public_key (agr_inner introducer) \<noteq> public_key r"
        "agr_node_addr_opt introducee = Some na'" "na_ports na' \<noteq> []"
        "node_by_key db (nri_public_key (agr_inner introducee)) = None"
proof (cases "length agrs = 2")
  case False
  then show thesis by (intro unmatched [of Unmatched]) (simp_all add: introduction_qualifies_def verify_size_def)
next
  case True
  then have size: "verify_size agrs = None" by (simp add: verify_size_def)
  show thesis
  proof (cases rule: identify_players_run [OF True, of src])
    case (1 q)
    then show thesis by (intro unmatched [of q]) (simp_all add: introduction_qualifies_def size)
  next
    case (2 introducer introducee na na')
    obtain q where q: "verify_introducer introducer r = Some q" "q \<noteq> Some Unmatched" "q \<noteq> Some Matched"
      "q = None \<longrightarrow> nri_public_key (agr_inner introducer) \<noteq> public_key r \<and> na_ports na \<noteq> [] \<and>
       map_option na_ip_addr (node_addr_opt r) \<noteq> Some (na_ip_addr na)"
      by (rule verify_introducer_run [OF 2(2)])
    have run: "introduction_qualifies db agrs src = Some (case q of Some x \<Rightarrow> x
        | None \<Rightarrow> (case verify_introducee db introducer introducee src of Some x \<Rightarrow> x | None \<Rightarrow> Matched))"
      by (simp add: introduction_qualifies_def size 2(1) r q(1) split: option.split)
    show thesis
    proof (cases q)
      case (Some x)
      then show thesis using q(3) run by (intro unmatched [of x]) simp_all
    next
      case None
      note ok = q(4) [rule_format, OF None]
      show thesis
      proof (cases "verify_introducee db introducer introducee src")
        case (Some x)
        then show thesis
          using run None verify_introducee_not_Matched [of db introducer introducee src]
          by (intro unmatched [of x]) simp_all
      next
        case v: None
        then obtain na2 where "agr_node_addr_opt introducee = Some na2" "na_ports na2 \<noteq> []"
          "node_by_key db (nri_public_key (agr_inner introducee)) = None"
          by (rule verify_introducee_None)
        with run None v 2 ok show thesis by (intro matched [of introducer introducee na na2]) simp_all
      qed
    qed
  qed
qed

lemma add_half_neighbor_again:
  assumes "root db = Some r" and "node_by_key db k \<noteq> None" and "k |\<in>| nri_neighbors (nr_inner r)"
  shows "add_half_neighbor E k db = (Inr False, db)"
  using assms by (simp add: add_half_neighbor_def Let_def in_keys root_def db_has_half_neighbor_def)

definition become_neighbor ::
  "node_env \<Rightarrow> public_key \<Rightarrow> neighborhood_database \<Rightarrow> ((update_error + bool) \<times> neighborhood_database) run" where
  "become_neighbor E k database1 = (case add_half_neighbor E k database1 of
      (Inl _, _) \<Rightarrow> panic
    | (Inr added, database2) \<Rightarrow>
        if added then do { database3 \<leftarrow> root_new_version E database2; ret (Inr True, database3) }
        else ret (Inr True, database2))"

lemma become_neighbor_run:
  assumes wf: "wf_db db" and E: "env_ok E" and n: "node_by_key db k = Some n" "has_node_addr n" "k \<noteq> ndb_this_node db"
  obtains db' where "become_neighbor E k db = Some (Inr True, db')" "wf_db db'" "db_evolves db db'"
proof -
  from wf obtain r where r: "root db = Some r" by (rule wf_db_root)
  show thesis
  proof (cases "k |\<in>| nri_neighbors (nr_inner r)")
    case True
    have "add_half_neighbor E k db = (Inr False, db)"
      using n(1) by (intro add_half_neighbor_again [OF r _ True]) simp
    then have "become_neighbor E k db = Some (Inr True, db)" by (simp add: become_neighbor_def)
    from that [OF this wf db_evolves_refl] show thesis .
  next
    case False
    obtain db1 db2 where "add_half_neighbor E k db = (Inr True, db1)" "root_new_version E db1 = Some db2"
      "wf_db db2" "db_evolves db db2"
      by (rule new_half_neighbor [OF wf E r n False])
    then show thesis by (intro that [of db2]) (simp_all add: become_neighbor_def)
  qed
qed

lemma introduction_update_database_eq:
  "introduction_update_database E database introducer uep_opt =
     (let introducer_key = nri_public_key (agr_inner introducer)
      in (case node_by_key database introducer_key of
          Some existing_introducer \<Rightarrow>
            if version existing_introducer < nri_version (agr_inner introducer)
            then (case update_node_record E introducer existing_introducer of
                (Inl e, _) \<Rightarrow> ret (Inl e, database)
              | (Inr _, updated) \<Rightarrow> become_neighbor E introducer_key (put_node introducer_key updated database))
            else ret (Inr False, database)
        | None \<Rightarrow>
            (case add_node (apply_exit_preferences uep_opt (node_record_of_agr E introducer)) database of
               (Inl _, _) \<Rightarrow> panic
             | (Inr _, database1) \<Rightarrow> become_neighbor E introducer_key database1)))"
  unfolding introduction_update_database_def become_neighbor_def Let_def by (rule refl)

lemma introduction_update_database_run:
  assumes wf: "wf_db db" and E: "env_ok E" and k: "nri_public_key (agr_inner agr) \<noteq> ndb_this_node db"
    and na: "agr_node_addr_opt agr = Some na" "na_ports na \<noteq> []"
  obtains res db' where "introduction_update_database E db agr uep = Some (res, db')" "wf_db db'" "db_evolves db db'"
proof -
  let ?k = "nri_public_key (agr_inner agr)"
  show thesis
  proof (cases "node_by_key db ?k")
    case None
    define n where "n = apply_exit_preferences uep (node_record_of_agr E agr)"
    have n: "nr_inner n = agr_inner agr" "nrm_node_addr_opt (nr_metadata n) = Some na"
      using na by (simp_all add: n_def)
    have add: "add_node n db = (Inr ?k, add_arbitrary_node n db)" "wf_db (add_arbitrary_node n db)"
      "db_evolves db (add_arbitrary_node n db)"
      using add_node_step [OF wf, of n] None na(2) n by simp_all
    have known: "node_by_key (add_arbitrary_node n db) ?k = Some n" "has_node_addr n"
      "?k \<noteq> ndb_this_node (add_arbitrary_node n db)"
      using k by (simp_all add: n has_node_addr_def)
    obtain db' where db': "become_neighbor E ?k (add_arbitrary_node n db) = Some (Inr True, db')"
      "wf_db db'" "db_evolves (add_arbitrary_node n db) db'"
      by (rule become_neighbor_run [OF add(2) E known])
    have "introduction_update_database E db agr uep = Some (Inr True, db')"
      unfolding introduction_update_database_eq Let_def None option.case n_def [symmetric] add(1) by (simp add: db'(1))
    from that [OF this db'(2) db_evolves_trans [OF add(3) db'(3)]] show thesis .
  next
    case (Some r)
    show thesis
    proof (cases "version r < nri_version (agr_inner agr)")
      case False
      then have "introduction_update_database E db agr uep = Some (Inr False, db)"
        by (simp add: introduction_update_database_eq Let_def Some)
      from that [OF this wf db_evolves_refl] show thesis .
    next
      case v: True
      obtain res u where up: "update_node_record E agr r = (res, u)" by fastforce
      show thesis
      proof (cases res)
        case (Inl e)
        then have "introduction_update_database E db agr uep = Some (Inl e, db)"
          using v up by (simp add: introduction_update_database_eq Let_def Some)
        from that [OF this wf db_evolves_refl] show thesis .
      next
        case (Inr x)
        with up have up': "update_node_record E agr r = (Inr x, u)" by simp
        note step = update_step [OF wf k Some up' v]
        have "has_node_addr u"
          using update_node_record_ok(5) [OF up'] na(1) by (simp add: has_node_addr_def split: option.split)
        then obtain db' where db': "become_neighbor E ?k (put_node ?k u db) = Some (Inr True, db')"
          "wf_db db'" "db_evolves (put_node ?k u db) db'"
          using become_neighbor_run [OF step(1) E, of ?k u] k by auto
        have "introduction_update_database E db agr uep = Some (Inr True, db')"
          using v up' db'(1) by (simp add: introduction_update_database_eq Let_def Some)
        from that [OF this db'(2) db_evolves_trans [OF step(2) db'(3)]] show thesis .
      qed
    qed
  qed
qed

lemma introduction_handle_run:
  assumes wf: "wf_db db" and E: "env_ok E" and q: "introduction_qualifies db agrs src = Some Matched"
  obtains res cpms db' where "introduction_handle E db agrs src md = Some (res, cpms, db')" "wf_db db'"
    "db_evolves db db'"
proof -
  from wf obtain r where r: "root db = Some r" "nri_public_key (nr_inner r) = ndb_this_node db"
    by (rule wf_db_root)
  obtain introducer introducee na na' where p: "identify_players agrs src = Some (Inr (introducer, introducee))"
    "agr_node_addr_opt introducer = Some na" "na_ports na \<noteq> []"
    "nri_public_key (agr_inner introducer) \<noteq> public_key r"
    "agr_node_addr_opt introducee = Some na'" "na_ports na' \<noteq> []"
    using q by (cases rule: introduction_qualifies_run [OF r(1), of agrs src]) auto
  have k: "nri_public_key (agr_inner introducer) \<noteq> ndb_this_node db" using p(4) r(2) by simp
  show thesis
  proof (cases "MAX_DEGREE \<le> fcard (full_neighbor_keys r db)")
    case True
    then have "introduction_handle E db agrs src md = Some (Ignored, [], db)"
      by (simp add: introduction_handle_def r(1))
    from that [OF this wf db_evolves_refl] show thesis .
  next
    case False
    obtain res db' where db': "introduction_update_database E db introducer (nmd_user_exit_preferences_opt md) = Some (res, db')"
      "wf_db db'" "db_evolves db db'"
      by (rule introduction_update_database_run [OF wf E k p(2,3)])
    from db'(2) obtain r' where r': "root db' = Some r'" by (rule wf_db_root)
    have triple: "make_debut_triple db' introducee = Some (Inr (\<lparr>node_records = [gossip_entry r' True]\<rparr>,
        nri_public_key (agr_inner introducee), node_addr_clone na'))"
      unfolding make_debut_triple_def p(5) option.case r' bind.bind_lunit root_builder_node [OF db'(2) r']
      using p(6) by (simp add: builder_build_def)
    have "\<exists>res' cpms. introduction_handle E db agrs src md = Some (res', cpms, db')"
      using False p db'(1) triple by (cases res) (simp_all add: introduction_handle_def r(1))
    with db' show thesis using that by blast
  qed
qed

section \<open>The standard-Gossip handler\<close>

lemma find_run_Some:
  assumes "\<And>x. x \<in> set xs \<Longrightarrow> p x = Some (q x)"
  shows "find_run p xs = Some (find q xs)"
  using assms by (induction xs) auto

lemma duplicate_ips_run:
  assumes "\<forall>agr\<in>set agrs. agr_node_addr_opt agr \<noteq> None"
  shows "\<exists>dups. duplicate_ips agrs addr_set dup_set = Some dups"
  using assms by (induction agrs addr_set dup_set rule: duplicate_ips.induct) (auto simp: ip_of_def)

lemma standard_qualifies_run:
  assumes wf: "wf_db db" and r: "root db = Some r"
  obtains q where "standard_qualifies db agrs src = Some q" "q \<noteq> Unmatched"
    "q = Matched \<longrightarrow> (\<forall>agr\<in>set agrs. nri_public_key (agr_inner agr) \<noteq> ndb_this_node db)"
proof -
  let ?next = "filter (\<lambda>agr. agr_node_addr_opt agr \<noteq> None) agrs"
  have key: "public_key r = ndb_this_node db" using wf_db_key [OF wf] r by (simp add: root_def)
  have sound: "accepts_connections r \<Longrightarrow> has_node_addr r"
    using wf_db_root [OF wf] r by (metis option.inject root_sound_def)
  have "\<exists>x. (if accepts_connections r
      then find_run (\<lambda>agr. do { ip \<leftarrow> ip_of agr; a \<leftarrow> node_addr_opt r; ret (ip = na_ip_addr a) }) ?next
      else ret None) = Some x"
  proof (cases "accepts_connections r")
    case True
    with sound obtain a where a: "node_addr_opt r = Some a" by (auto simp: has_node_addr_def node_addr_opt_def)
    have "find_run (\<lambda>agr. do { ip \<leftarrow> ip_of agr; a \<leftarrow> node_addr_opt r; ret (ip = na_ip_addr a) }) ?next =
        Some (find (\<lambda>agr. na_ip_addr (the (agr_node_addr_opt agr)) = na_ip_addr a) ?next)"
      by (rule find_run_Some) (auto simp: ip_of_def a)
    with True show ?thesis by auto
  qed simp
  then obtain x where x: "(if accepts_connections r
      then find_run (\<lambda>agr. do { ip \<leftarrow> ip_of agr; a \<leftarrow> node_addr_opt r; ret (ip = na_ip_addr a) }) ?next
      else ret None) = Some x" by blast
  obtain dups where dups: "duplicate_ips ?next {||} {||} = Some dups"
    using duplicate_ips_run [of ?next] by auto
  have run: "standard_qualifies db agrs src = (case x of
      Some impostor \<Rightarrow> ret (Malformed (ClaimsRootIp (nri_public_key (agr_inner impostor))))
    | None \<Rightarrow> if (\<exists>agr\<in>set agrs. nri_public_key (agr_inner agr) = public_key r) then ret (Malformed ClaimsRootKey)
        else ret (if dups = {||} then Matched else Malformed DuplicateIp))"
    unfolding standard_qualifies_def Let_def r bind.bind_lunit x dups by (rule refl)
  have "\<exists>q. standard_qualifies db agrs src = Some q \<and> q \<noteq> Unmatched \<and>
      (q = Matched \<longrightarrow> (\<forall>agr\<in>set agrs. nri_public_key (agr_inner agr) \<noteq> ndb_this_node db))"
    unfolding run key by (cases x) auto
  with that show thesis by blast
qed

lemma non_introductory_ports:
  "non_introductory src agr \<Longrightarrow> agr_node_addr_opt agr = Some na \<Longrightarrow> na_ports na \<noteq> []"
  by (auto simp: non_introductory_def)

lemma add_new_nodes_run:
  assumes "wf_db db" and "distinct (map (\<lambda>agr. nri_public_key (agr_inner agr)) agrs)"
    and "\<forall>agr\<in>set agrs. node_by_key db (nri_public_key (agr_inner agr)) = None \<and> non_introductory src agr"
  shows "\<exists>db'. iter_each (\<lambda>agr db. (case add_node (apply_exit_preferences uep (node_record_of_agr_ref E agr)) db of
               (Inl _, _) \<Rightarrow> panic | (Inr _, db') \<Rightarrow> ret db')) agrs db = Some db' \<and>
    wf_db db' \<and> db_evolves db db'"
  using assms
proof (induction agrs arbitrary: db)
  case Nil
  then show ?case by simp
next
  case (Cons agr agrs)
  define n where "n = apply_exit_preferences uep (node_record_of_agr_ref E agr)"
  have n: "nr_inner n = agr_inner agr"
    "nrm_node_addr_opt (nr_metadata n) = map_option node_addr_clone (agr_node_addr_opt agr)"
    by (simp_all add: n_def)
  have ports: "na_ports na \<noteq> []" if "nrm_node_addr_opt (nr_metadata n) = Some na" for na
    using that Cons.prems(3) non_introductory_ports [of src agr] by (auto simp: n)
  have add: "add_node n db = (Inr (nri_public_key (nr_inner n)), add_arbitrary_node n db)"
    "wf_db (add_arbitrary_node n db)" "db_evolves db (add_arbitrary_node n db)"
    using add_node_step [OF Cons.prems(1) _ ports] Cons.prems(3) n(1) by simp_all
  have "\<forall>agr'\<in>set agrs. node_by_key (add_arbitrary_node n db) (nri_public_key (agr_inner agr')) = None \<and>
      non_introductory src agr'"
    using Cons.prems(2,3) n(1) by (auto simp: image_iff)
  with Cons.IH [OF add(2)] Cons.prems(2) obtain db' where
    db': "iter_each (\<lambda>agr db. (case add_node (apply_exit_preferences uep (node_record_of_agr_ref E agr)) db of
               (Inl _, _) \<Rightarrow> panic | (Inr _, db') \<Rightarrow> ret db')) agrs (add_arbitrary_node n db) = Some db'"
    "wf_db db'" "db_evolves (add_arbitrary_node n db) db'" by auto
  from db_evolves_trans [OF add(3) db'(3)] db'(1,2) show ?case
    by (simp add: n_def [symmetric] add(1))
qed

lemma identify_and_add_run:
  assumes wf: "wf_db db" and "distinct (map (\<lambda>agr. nri_public_key (agr_inner agr)) agrs)"
  obtains b db' where "identify_and_add_non_introductory_new_nodes E db agrs src uep = Some (b, db')"
    "wf_db db'" "db_evolves db db'"
proof -
  let ?xs = "filter (non_introductory src) (filter (\<lambda>agr. nri_public_key (agr_inner agr) |\<notin>| keys db) agrs)"
  have "distinct (map (\<lambda>agr. nri_public_key (agr_inner agr)) ?xs)"
    using assms(2) by (simp add: distinct_map_filter)
  moreover have "\<forall>agr\<in>set ?xs. node_by_key db (nri_public_key (agr_inner agr)) = None \<and> non_introductory src agr"
    by (simp add: in_keys)
  ultimately obtain db' where "iter_each (\<lambda>agr db. (case add_node (apply_exit_preferences uep (node_record_of_agr_ref E agr)) db of
               (Inl _, _) \<Rightarrow> panic | (Inr _, db') \<Rightarrow> ret db')) ?xs db = Some db'" "wf_db db'" "db_evolves db db'"
    using add_new_nodes_run [OF wf, of ?xs src uep E] by blast
  then show thesis
    by (intro that) (simp_all add: identify_and_add_non_introductory_new_nodes_def Let_def)
qed

lemma identify_and_update_run:
  assumes "wf_db db" and "\<forall>agr\<in>set agrs. nri_public_key (agr_inner agr) \<noteq> ndb_this_node db"
  shows "\<exists>b' db'. identify_and_update_obsolete_nodes E db agrs b = Some (b', db') \<and> wf_db db' \<and> db_evolves db db'"
  using assms
proof (induction agrs arbitrary: db b)
  case Nil
  then show ?case by simp
next
  case (Cons agr agrs)
  let ?k = "nri_public_key (agr_inner agr)"
  show ?case
  proof (cases "\<exists>r. node_by_key db ?k = Some r \<and> version r < nri_version (agr_inner agr)")
    case False
    then have "identify_and_update_obsolete_nodes E db (agr # agrs) b = identify_and_update_obsolete_nodes E db agrs b"
      by (cases "node_by_key db ?k") simp_all
    with Cons show ?thesis by simp
  next
    case True
    then obtain r where r: "node_by_key db ?k = Some r" "version r < nri_version (agr_inner agr)" by blast
    have "\<exists>c db1. update_database_record E db agr = Some (c, db1) \<and> wf_db db1 \<and> db_evolves db db1"
    proof (cases "update_node_record E agr r")
      case (Pair res u)
      then show ?thesis
        using Cons.prems r update_step [OF Cons.prems(1) _ r(1) _ r(2)]
        by (cases res) (auto simp: update_database_record_def)
    qed
    then obtain c db1 where db1: "update_database_record E db agr = Some (c, db1)" "wf_db db1" "db_evolves db db1"
      by blast
    have "\<forall>agr\<in>set agrs. nri_public_key (agr_inner agr) \<noteq> ndb_this_node db1"
      using Cons.prems(2) db1(3) by (simp add: db_evolves_def)
    with Cons.IH [OF db1(2), of "c \<or> b"] obtain b' db' where
      "identify_and_update_obsolete_nodes E db1 agrs (c \<or> b) = Some (b', db')" "wf_db db'" "db_evolves db1 db'"
      by blast
    then show ?thesis using r db1 by (auto intro: db_evolves_trans)
  qed
qed

lemma node_by_ip_known:
  assumes "wf_db db" and "node_by_ip db ip = Some n"
  shows "node_by_key db (nri_public_key (nr_inner n)) = Some n" "has_node_addr n"
proof -
  from assms(2) obtain k where k: "fmlookup (ndb_by_ip_addr db) ip = Some k" "node_by_key db k = Some n"
    by (auto simp: node_by_ip_def split: option.splits)
  with wf_db_key [OF assms(1) k(2)] show "node_by_key db (nri_public_key (nr_inner n)) = Some n" by simp
  from wf_db_ip [OF assms(1) k(1)] k(2) show "has_node_addr n" by (metis has_node_addr_def option.distinct(1) option.inject)
qed

lemma add_src_node_run:
  assumes wf: "wf_db db" and E: "env_ok E"
  obtains b db' where "add_src_node_as_half_neighbor E db src = Some (b, db')" "wf_db db'" "db_evolves db db'"
proof (cases "node_by_ip db (sa_ip src)")
  case None
  then have "add_src_node_as_half_neighbor E db src = Some (False, db)" by (simp add: add_src_node_as_half_neighbor_def)
  from that [OF this wf db_evolves_refl] show thesis .
next
  case (Some n)
  let ?k = "nri_public_key (nr_inner n)"
  note n = node_by_ip_known [OF wf Some]
  from wf obtain r where r: "root db = Some r" "nri_public_key (nr_inner r) = ndb_this_node db" by (rule wf_db_root)
  show thesis
  proof (cases "MAX_DEGREE \<le> fcard (full_neighbor_keys r db)")
    case True
    then have "add_src_node_as_half_neighbor E db src = Some (False, db)"
      by (simp add: add_src_node_as_half_neighbor_def Some r(1))
    from that [OF this wf db_evolves_refl] show thesis .
  next
    case room: False
    show thesis
    proof (cases "?k = ndb_this_node db \<or> ?k |\<in>| nri_neighbors (nr_inner r)")
      case True
      then have "snd (add_half_neighbor E ?k db) = db" "fst (add_half_neighbor E ?k db) \<noteq> Inr True"
        using add_half_neighbor_other [OF r(1), of ?k E] r(2) by auto
      then have "add_src_node_as_half_neighbor E db src = Some (False, db)"
        using room by (cases "add_half_neighbor E ?k db"; cases "fst (add_half_neighbor E ?k db)")
          (auto simp: add_src_node_as_half_neighbor_def Some r(1))
      from that [OF this wf db_evolves_refl] show thesis .
    next
      case False
      then have other: "?k \<noteq> ndb_this_node db" and new: "?k |\<notin>| nri_neighbors (nr_inner r)" by simp_all
      obtain db1 db2 where "add_half_neighbor E ?k db = (Inr True, db1)" "root_new_version E db1 = Some db2"
        "wf_db db2" "db_evolves db db2"
        by (rule new_half_neighbor [OF wf E r(1) n other new])
      then show thesis using room
        by (intro that [of True db2]) (simp_all add: add_src_node_as_half_neighbor_def Some r(1))
    qed
  qed
qed

lemma check_full_neighbor_run:
  assumes "wf_db db"
  obtains b where "check_full_neighbor db ip = Some b"
proof -
  from assms obtain r where "root db = Some r" by (rule wf_db_root)
  then have "\<exists>b. check_full_neighbor db ip = Some b"
    by (cases "node_by_ip db ip") (auto simp: check_full_neighbor_def)
  with that show thesis by blast
qed

lemma standard_handle_run:
  assumes wf: "wf_db db" and E: "env_ok E"
    and d: "distinct (map (\<lambda>agr. nri_public_key (agr_inner agr)) agrs)"
    and q: "standard_qualifies db agrs src = Some Matched"
  obtains res cpms db' where "standard_handle E db agrs src md = Some (res, cpms, db')" "wf_db db'" "db_evolves db db'"
proof -
  from wf obtain r where r: "root db = Some r" by (rule wf_db_root)
  define fs where "fs = filter_agrs_by_patch agrs (compute_patch agrs r (nmd_db_patch_size md))"
  have keys: "\<forall>agr\<in>set agrs. nri_public_key (agr_inner agr) \<noteq> ndb_this_node db"
    by (rule standard_qualifies_run [OF wf r, of agrs src]) (use q in simp)
  have dfs: "distinct (map (\<lambda>agr. nri_public_key (agr_inner agr)) fs)"
    using d by (simp add: fs_def filter_agrs_by_patch_def distinct_map_filter)
  obtain i where i: "check_full_neighbor db (sa_ip src) = Some i" using wf by (rule check_full_neighbor_run)
  obtain a db1 where db1: "identify_and_add_non_introductory_new_nodes E db fs src (nmd_user_exit_preferences_opt md) = Some (a, db1)"
    "wf_db db1" "db_evolves db db1" using wf dfs by (rule identify_and_add_run)
  have "\<forall>agr\<in>set fs. nri_public_key (agr_inner agr) \<noteq> ndb_this_node db1"
    using keys db1(3) by (simp add: fs_def filter_agrs_by_patch_def db_evolves_def)
  with identify_and_update_run [OF db1(2)] obtain u db2 where
    db2: "identify_and_update_obsolete_nodes E db1 fs False = Some (u, db2)" "wf_db db2" "db_evolves db1 db2"
    by blast
  obtain s db3 where db3: "add_src_node_as_half_neighbor E db2 src = Some (s, db3)" "wf_db db3" "db_evolves db2 db3"
    using db2(2) E by (rule add_src_node_run)
  obtain f where f: "check_full_neighbor db3 (sa_ip src) = Some f" using db3(2) by (rule check_full_neighbor_run)
  have "\<exists>res cpms. standard_handle E db agrs src md = Some (res, cpms, db3)"
    unfolding standard_handle_def i r bind.bind_lunit Let_def fs_def [symmetric] by (simp add: db1 db2 db3 f)
  then show thesis
    using that db3(2) db_evolves_trans [OF db_evolves_trans [OF db1(3) db2(3)] db3(3)] by blast
qed

section \<open>The acceptor\<close>

text \<open>Whichever handler is found, it is not the one that rejects unless the Gossip is malformed.\<close>

lemma find_handler_run:
  assumes wf: "wf_db db" and r: "root db = Some r"
  obtains q h where "find_handler gossip_handlers db agrs src = Some (q, h)" "q \<noteq> Unmatched"
    "q = Matched \<longrightarrow> handler_qualifies h db agrs src = Some Matched \<and> h \<noteq> RejectHandler"
proof -
  obtain i where i: "introduction_qualifies db agrs src = Some i"
    by (rule introduction_qualifies_run [OF r, of agrs src])
  obtain s where s: "standard_qualifies db agrs src = Some s" "s \<noteq> Unmatched"
    by (rule standard_qualifies_run [OF wf r, of agrs src])
  have "\<exists>q h. find_handler gossip_handlers db agrs src = Some (q, h) \<and> q \<noteq> Unmatched \<and>
      (q = Matched \<longrightarrow> handler_qualifies h db agrs src = Some Matched \<and> h \<noteq> RejectHandler)"
    using s(2) by (simp add: gossip_handlers_def i s(1))
  with that show thesis by blast
qed

lemma acceptor_handle_run:
  assumes wf: "wf_db db" and E: "env_ok E" and t: "targets_past E targets"
    and d: "distinct (map (\<lambda>agr. nri_public_key (agr_inner agr)) agrs)"
  shows "\<exists>res cpms targets' db'. acceptor_handle E db agrs src md targets = Some (res, cpms, targets', db') \<and>
    wf_db db' \<and> db_evolves db db' \<and> targets_past E targets'"
proof -
  from wf obtain r where r: "root db = Some r" by (rule wf_db_root)
  obtain q h where h: "find_handler gossip_handlers db agrs src = Some (q, h)" "q \<noteq> Unmatched"
    "q = Matched \<longrightarrow> handler_qualifies h db agrs src = Some Matched \<and> h \<noteq> RejectHandler"
    using wf r by (rule find_handler_run)
  show ?thesis
  proof (cases q)
    case Unmatched
    with h(2) show ?thesis by simp
  next
    case (Malformed reason)
    then show ?thesis using h(1) wf t by (simp add: acceptor_handle_def)
  next
    case Matched
    then have run: "acceptor_handle E db agrs src md targets = handler_handle h E db agrs src md targets"
      using h(1) by (simp add: acceptor_handle_def)
    from Matched h(3) have q: "handler_qualifies h db agrs src = Some Matched" "h \<noteq> RejectHandler" by simp_all
    show ?thesis
    proof (cases h)
      case DebutHandler
      with q have "debut_qualifies db agrs src = Matched" by simp
      then obtain res db' where "debut_handle E db agrs src md = Some (res, db')" "wf_db db'" "db_evolves db db'"
        by (rule debut_handle_run [OF wf E r])
      then show ?thesis using DebutHandler t by (simp add: run)
    next
      case PassHandler
      with q have "pass_qualifies agrs src = Matched" by simp
      then obtain res cpms targets' where "pass_handle E db agrs src md targets = Some (res, cpms, targets')"
        "targets_past E targets'" by (rule pass_handle_run [OF wf r t])
      then show ?thesis using PassHandler wf by (simp add: run)
    next
      case IntroductionHandler
      with q have "introduction_qualifies db agrs src = Some Matched" by simp
      then obtain res cpms db' where "introduction_handle E db agrs src md = Some (res, cpms, db')" "wf_db db'"
        "db_evolves db db'" by (rule introduction_handle_run [OF wf E])
      then show ?thesis using IntroductionHandler t by (simp add: run)
    next
      case StandardGossipHandler
      with q have "standard_qualifies db agrs src = Some Matched" by simp
      then obtain res cpms db' where "standard_handle E db agrs src md = Some (res, cpms, db')" "wf_db db'"
        "db_evolves db db'" by (rule standard_handle_run [OF wf E d])
      then show ?thesis using StandardGossipHandler t by (simp add: run)
    next
      case RejectHandler
      with q show ?thesis by simp
    qed
  qed
qed

section \<open>Gossip that changes nothing\<close>

lemma keys_add_arbitrary_node: "keys (add_arbitrary_node r db) = finsert (nri_public_key (nr_inner r)) (keys db)"
  by simp

lemma add_all_fcard:
  "iter_each (\<lambda>agr db. (case add_node (f agr) db of (Inl _, _) \<Rightarrow> panic | (Inr _, db') \<Rightarrow> ret db')) agrs db = Some db' \<Longrightarrow>
   fcard (keys db') = fcard (keys db) + length agrs"
proof (induction agrs arbitrary: db)
  case Nil
  then show ?case by simp
next
  case (Cons agr agrs)
  show ?case
  proof (cases rule: add_node_cases [of "f agr" db])
    case (fail e)
    with Cons.prems show ?thesis by simp
  next
    case ok
    then have "fcard (keys (add_arbitrary_node (f agr) db)) = Suc (fcard (keys db))"
      by (simp add: in_keys fcard_finsert_disjoint)
    moreover have "fcard (keys db') = fcard (keys (add_arbitrary_node (f agr) db)) + length agrs"
      using Cons.prems ok by (intro Cons.IH) simp
    ultimately show ?thesis by simp
  qed
qed

lemma identify_and_add_unchanged:
  assumes "identify_and_add_non_introductory_new_nodes E db agrs src uep = Some (False, db')"
  shows "db' = db"
proof -
  let ?xs = "filter (non_introductory src) (filter (\<lambda>agr. nri_public_key (agr_inner agr) |\<notin>| keys db) agrs)"
  from assms have it: "iter_each (\<lambda>agr db. (case add_node (apply_exit_preferences uep (node_record_of_agr_ref E agr)) db of
               (Inl _, _) \<Rightarrow> panic | (Inr _, db') \<Rightarrow> ret db')) ?xs db = Some db'" and c: "fcard (keys db') = fcard (keys db)"
    by (auto simp: identify_and_add_non_introductory_new_nodes_def Let_def split: bind_splits)
  from add_all_fcard [OF it] c have "?xs = []" by simp
  with it show ?thesis by simp
qed

lemma update_database_record_unchanged:
  "update_database_record E db agr = Some (False, db') \<Longrightarrow> db' = db"
  by (auto simp: update_database_record_def split: bind_splits prod.splits sum.splits)

lemma identify_and_update_flag:
  "identify_and_update_obsolete_nodes E db agrs b = Some (False, db') \<Longrightarrow> \<not> b \<and> db' = db"
proof (induction agrs arbitrary: db b)
  case Nil
  then show ?case by simp
next
  case (Cons agr agrs)
  show ?case
  proof (cases "\<exists>r. node_by_key db (nri_public_key (agr_inner agr)) = Some r \<and> version r < nri_version (agr_inner agr)")
    case False
    then have "identify_and_update_obsolete_nodes E db (agr # agrs) b = identify_and_update_obsolete_nodes E db agrs b"
      by (cases "node_by_key db (nri_public_key (agr_inner agr))") simp_all
    with Cons.prems have "identify_and_update_obsolete_nodes E db agrs b = Some (False, db')" by simp
    then show ?thesis by (rule Cons.IH)
  next
    case True
    with Cons.prems obtain c db1 where step: "update_database_record E db agr = Some (c, db1)"
      "identify_and_update_obsolete_nodes E db1 agrs (c \<or> b) = Some (False, db')"
      by (auto split: bind_splits)
    from Cons.IH [OF step(2)] have "\<not> c" "\<not> b" "db' = db1" by simp_all
    with step(1) update_database_record_unchanged show ?thesis by simp
  qed
qed

lemma add_half_neighbor_not_added: "fst (add_half_neighbor E k db) \<noteq> Inr True \<Longrightarrow> snd (add_half_neighbor E k db) = db"
  by (auto simp: add_half_neighbor_def add_half_neighbor_key_def Let_def split: option.splits if_splits)

lemma add_src_unchanged:
  assumes "add_src_node_as_half_neighbor E db src = Some (False, db')"
  shows "db' = db"
proof (cases "node_by_ip db (sa_ip src)")
  case None
  with assms show ?thesis by (simp add: add_src_node_as_half_neighbor_def)
next
  case (Some n)
  obtain res db1 where h: "add_half_neighbor E (public_key n) db = (res, db1)" by fastforce
  with add_half_neighbor_not_added [of E "public_key n" db] have "res \<noteq> Inr True \<Longrightarrow> db1 = db" by simp
  with assms h show ?thesis
    by (auto simp: add_src_node_as_half_neighbor_def Some split: bind_splits if_splits sum.splits bool.splits)
qed

lemma standard_ignored_unchanged:
  assumes "standard_handle E db agrs src md = Some (Ignored, cpms, db')"
  shows "db' = db \<and> cpms = []"
proof -
  from assms obtain fs a db1 u db2 s where
    s1: "identify_and_add_non_introductory_new_nodes E db fs src (nmd_user_exit_preferences_opt md) = Some (a, db1)"
    and s2: "identify_and_update_obsolete_nodes E db1 fs False = Some (u, db2)"
    and s3: "add_src_node_as_half_neighbor E db2 src = Some (s, db')"
    and f: "\<not> (s \<or> u \<or> a)" "cpms = []"
    by (auto simp: standard_handle_def Let_def split: bind_splits if_splits)
  from f(1) have no: "a = False" "u = False" "s = False" by simp_all
  have "db1 = db" using s1 unfolding no by (rule identify_and_add_unchanged)
  moreover have "db2 = db1" using identify_and_update_flag [OF s2 [unfolded no]] by (rule conjunct2)
  moreover have "db' = db2" using s3 unfolding no by (rule add_src_unchanged)
  ultimately show ?thesis using f(2) by simp
qed

lemma try_accept_debut_not_refused:
  "try_accept_debut E db agr src uep \<noteq> Some (Inr (Ban reason), db')"
  "try_accept_debut E db agr src uep \<noteq> Some (Inr Ignored, db')"
  by (auto simp: try_accept_debut_def Let_def split: bind_splits if_splits prod.splits sum.splits
        option.splits bool.splits)

lemma debut_handle_not_refused [simp]:
  "debut_handle E db agrs src md \<noteq> Some (Ban reason, db')"
  "debut_handle E db agrs src md \<noteq> Some (Ignored, db')"
  by (auto simp: debut_handle_def Let_def try_accept_debut_not_refused
      split: list.splits bind_splits option.splits sum.splits)

lemma pass_handle_not_banned [simp]: "pass_handle E db agrs src md targets \<noteq> Some (Ban reason, x)"
  by (auto simp: pass_handle_def pass_reply_def Let_def split: list.splits bind_splits option.splits if_splits)

lemma introduction_update_error_unchanged:
  "introduction_update_database E db agr uep = Some (Inl e, db') \<Longrightarrow> db' = db"
  by (auto simp: introduction_update_database_def Let_def split: option.splits if_splits prod.splits sum.splits bind_splits)

lemma introduction_handle_refused:
  assumes "introduction_handle E db agrs src md = Some (res, cpms, db')" and "res = Ignored \<or> (\<exists>reason. res = Ban reason)"
  shows "db' = db \<and> cpms = []"
  using assms introduction_update_error_unchanged
  by (auto simp: introduction_handle_def split: bind_splits if_splits sum.splits)

lemma standard_handle_not_banned [simp]: "standard_handle E db agrs src md \<noteq> Some (Ban reason, x)"
  by (auto simp: standard_handle_def Let_def split: bind_splits if_splits)

lemma handler_handle_refused:
  assumes "handler_handle h E db agrs src md targets = Some (res, cpms, targets', db')"
    and "res = Ignored \<or> (\<exists>reason. res = Ban reason)"
  shows "db' = db" "(\<exists>reason. res = Ban reason) \<Longrightarrow> cpms = [] \<and> targets' = targets"
proof -
  have "db' = db \<and> ((\<exists>reason. res = Ban reason) \<longrightarrow> cpms = [] \<and> targets' = targets)"
  proof (cases h)
    case DebutHandler
    with assms show ?thesis by (auto split: bind_splits)
  next
    case PassHandler
    with assms show ?thesis by (auto split: bind_splits)
  next
    case IntroductionHandler
    with assms(1) obtain d where "introduction_handle E db agrs src md = Some (res, cpms, d)" "d = db'" "targets' = targets"
      by (auto split: bind_splits)
    with introduction_handle_refused assms(2) show ?thesis by blast
  next
    case StandardGossipHandler
    with assms(1) obtain d where "standard_handle E db agrs src md = Some (res, cpms, d)" "d = db'" "targets' = targets"
      by (auto split: bind_splits)
    with assms(2) standard_ignored_unchanged show ?thesis by (metis standard_handle_not_banned)
  next
    case RejectHandler
    with assms show ?thesis by simp
  qed
  then show "db' = db" "(\<exists>reason. res = Ban reason) \<Longrightarrow> cpms = [] \<and> targets' = targets" by simp_all
qed

section \<open>The patch\<close>

definition gossip_neighbors ::
  "node_record \<Rightarrow> (public_key, accessible_gossip_record) fmap \<Rightarrow> public_key \<Rightarrow> public_key fset option" where
  "gossip_neighbors r agrs k = (if k = public_key r then Some (nri_neighbors (nr_inner r))
     else map_option (\<lambda>agr. nri_neighbors (agr_inner agr)) (fmlookup agrs k))"

text \<open>The keys at most \<open>n\<close> hops from the root, over the root's record and the records of the Gossip.\<close>

inductive within_hops :: "node_record \<Rightarrow> (public_key, accessible_gossip_record) fmap \<Rightarrow> nat \<Rightarrow> public_key \<Rightarrow> bool"
  for r agrs where
  within_root: "within_hops r agrs n (public_key r)"
| within_step: "within_hops r agrs n k \<Longrightarrow> gossip_neighbors r agrs k = Some ns \<Longrightarrow> k' |\<in>| ns \<Longrightarrow> within_hops r agrs (Suc n) k'"

lemma within_hops_mono: "within_hops r agrs n k \<Longrightarrow> n \<le> m \<Longrightarrow> within_hops r agrs m k"
proof (induction arbitrary: m rule: within_hops.induct)
  case (within_root n)
  show ?case by (rule within_hops.within_root)
next
  case (within_step n k ns k')
  from within_step.prems obtain m' where m': "m = Suc m'" "n \<le> m'" by (cases m) auto
  from within_step.IH [OF m'(2)] within_step.hyps(2,3) show ?case
    unfolding m'(1) by (rule within_hops.within_step)
qed

lemma compute_patch_recursive_Suc:
  "compute_patch_recursive (Suc m) r agrs k patch = (case gossip_neighbors r agrs k of
      None \<Rightarrow> finsert k patch |-| {|k|}
    | Some ns \<Rightarrow> fold (\<lambda>nb patch. if nb |\<in>| patch then patch else compute_patch_recursive m r agrs nb patch)
        (sorted_list_of_fset ns) (finsert k patch))"
  by (simp add: gossip_neighbors_def Let_def)

lemma patch_sound:
  assumes "within_hops r agrs d k" and "m + d \<le> N" and "\<forall>x. x |\<in>| patch \<longrightarrow> within_hops r agrs N x"
  shows "\<forall>x. x |\<in>| compute_patch_recursive m r agrs k patch \<longrightarrow> within_hops r agrs N x"
  using assms
proof (induction m arbitrary: d k patch)
  case 0
  then have "within_hops r agrs N k" by (auto intro: within_hops_mono)
  with 0 show ?case by auto
next
  case (Suc m)
  have k: "within_hops r agrs N k" using Suc.prems(1,2) by (auto intro: within_hops_mono)
  show ?case
  proof (cases "gossip_neighbors r agrs k")
    case None
    with Suc.prems(3) k show ?thesis unfolding compute_patch_recursive_Suc by auto
  next
    case (Some ns)
    have nb: "within_hops r agrs (Suc d) x" if "x \<in> set (sorted_list_of_fset ns)" for x
      using that by (intro within_step [OF Suc.prems(1) Some]) simp
    have "\<forall>x. x |\<in>| fold (\<lambda>nb patch. if nb |\<in>| patch then patch else compute_patch_recursive m r agrs nb patch)
        xs p \<longrightarrow> within_hops r agrs N x"
      if "set xs \<subseteq> set (sorted_list_of_fset ns)" "\<forall>x. x |\<in>| p \<longrightarrow> within_hops r agrs N x" for xs p
      using that
    proof (induction xs arbitrary: p)
      case (Cons y ys)
      have "\<forall>x. x |\<in>| compute_patch_recursive m r agrs y p \<longrightarrow> within_hops r agrs N x"
        using Cons.prems Suc.prems(2) nb by (intro Suc.IH [of "Suc d"]) auto
      with Cons show ?case by simp
    qed simp
    from this [of "sorted_list_of_fset ns" "finsert k patch"] Suc.prems(3) k show ?thesis
      unfolding compute_patch_recursive_Suc Some by auto
  qed
qed

text \<open>Once a Node with a record is in the patch it stays there.\<close>

lemma patch_keeps:
  assumes "x |\<in>| patch" and "gossip_neighbors r agrs x \<noteq> None"
  shows "x |\<in>| compute_patch_recursive m r agrs k patch"
  using assms(1)
proof (induction m arbitrary: k patch)
  case 0
  then show ?case by simp
next
  case (Suc m)
  have "x |\<in>| fold (\<lambda>nb patch. if nb |\<in>| patch then patch else compute_patch_recursive m r agrs nb patch) xs p"
    if "x |\<in>| p" for xs p
    using that Suc.IH by (induction xs arbitrary: p) auto
  with Suc.prems assms(2) show ?case
    unfolding compute_patch_recursive_Suc by (cases "gossip_neighbors r agrs k") auto
qed

lemma patch_self:
  assumes "gossip_neighbors r agrs k \<noteq> None"
  shows "k |\<in>| compute_patch_recursive m r agrs k patch"
proof (cases m)
  case (Suc m')
  have "k |\<in>| fold (\<lambda>nb patch. if nb |\<in>| patch then patch else compute_patch_recursive m' r agrs nb patch) xs p"
    if "k |\<in>| p" for xs p
    using that patch_keeps [OF _ assms] by (induction xs arbitrary: p) auto
  with assms show ?thesis unfolding Suc compute_patch_recursive_Suc by auto
qed simp

lemma patch_neighbors:
  assumes "gossip_neighbors r agrs k = Some ns" and "x |\<in>| ns" and "gossip_neighbors r agrs x \<noteq> None"
  shows "x |\<in>| compute_patch_recursive (Suc m) r agrs k patch"
proof -
  have "x |\<in>| fold (\<lambda>nb patch. if nb |\<in>| patch then patch else compute_patch_recursive m r agrs nb patch) xs p"
    if "x \<in> set xs \<or> x |\<in>| p" for xs p
    using that
  proof (induction xs arbitrary: p)
    case (Cons y ys)
    let ?p = "if y |\<in>| p then p else compute_patch_recursive m r agrs y p"
    have "x \<in> set ys \<or> x |\<in>| ?p"
      using Cons.prems patch_self [OF assms(3)] patch_keeps [OF _ assms(3)] by auto
    from Cons.IH [OF this] show ?case by simp
  qed simp
  then show ?thesis using assms(1,2) unfolding compute_patch_recursive_Suc by simp
qed

section \<open>Properties\<close>

definition sample_agr :: "nat \<Rightarrow> node_addr option \<Rightarrow> nat list \<Rightarrow> u32 \<Rightarrow> accessible_gossip_record" where
  "sample_agr i na_opt ns v = \<lparr>agr_signed_gossip = [of_nat i, ucast v], agr_signature = [of_nat i],
     agr_node_addr_opt = na_opt,
     agr_inner = (sample_inner [of_nat i] (map (\<lambda>j. [of_nat j]) ns))\<lparr>nri_version := v\<rparr>\<rparr>"

definition sample_source :: "nat \<Rightarrow> socket_addr" where
  "sample_source i = \<lparr>sa_ip = V4 (of_nat i), sa_port = 5000\<rparr>"

definition sample_metadata :: neighborhood_metadata where
  "sample_metadata = \<lparr>nmd_connection_progress_peers = [], nmd_db_patch_size = 3,
     nmd_user_exit_preferences_opt = Some user_exit_preferences_new\<rparr>"

lemma targets_past_empty [simp]: "targets_past E fmempty"
  by (simp add: targets_past_def)

text \<open>
  C5. No Gossip whose records have different keys makes the acceptor panic, whoever sends it. Afterwards the
  database is well-formed again; every record that was there is still there, for the same key, with
  the same rate pack, with the address it had, and either unchanged in content or at a higher
  version; and of the local Node's own record only the neighbors, which can only grow, and the version
  have changed.
\<close>

theorem acceptor_handle_safe:
  assumes "wf_db db" and "env_ok E" and "targets_past E targets"
    and "distinct (map (\<lambda>agr. nri_public_key (agr_inner agr)) agrs)"
  shows "\<exists>res cpms targets' db'. acceptor_handle E db agrs src md targets = Some (res, cpms, targets', db') \<and>
    wf_db db' \<and> targets_past E targets' \<and> ndb_this_node db' = ndb_this_node db \<and>
    (\<forall>k r. k \<noteq> ndb_this_node db \<and> node_by_key db k = Some r \<longrightarrow>
       (\<exists>r'. node_by_key db' k = Some r' \<and> public_key r' = public_key r \<and> rate_pack_of r' = rate_pack_of r \<and>
          (\<forall>na. nrm_node_addr_opt (nr_metadata r) = Some na \<longrightarrow> nrm_node_addr_opt (nr_metadata r') = Some na) \<and>
          (nr_inner r' = nr_inner r \<or> version r < version r'))) \<and>
    (\<forall>r. root db = Some r \<longrightarrow> (\<exists>r' ns v. root db' = Some r' \<and>
       nr_inner r' = (nr_inner r)\<lparr>nri_neighbors := ns, nri_version := v\<rparr> \<and>
       nri_neighbors (nr_inner r) |\<subseteq>| ns \<and>
       nrm_node_addr_opt (nr_metadata r') = nrm_node_addr_opt (nr_metadata r)))"
proof -
  from acceptor_handle_run [OF assms] obtain res cpms targets' db' where
    run: "acceptor_handle E db agrs src md targets = Some (res, cpms, targets', db')" "wf_db db'"
    "db_evolves db db'" "targets_past E targets'" by blast
  have records: "\<forall>k r. k \<noteq> ndb_this_node db \<and> node_by_key db k = Some r \<longrightarrow>
       (\<exists>r'. node_by_key db' k = Some r' \<and> public_key r' = public_key r \<and> rate_pack_of r' = rate_pack_of r \<and>
          (\<forall>na. nrm_node_addr_opt (nr_metadata r) = Some na \<longrightarrow> nrm_node_addr_opt (nr_metadata r') = Some na) \<and>
          (nr_inner r' = nr_inner r \<or> version r < version r'))"
    using run(3) unfolding db_evolves_def record_evolves_def by blast
  have root: "\<forall>r. root db = Some r \<longrightarrow> (\<exists>r' ns v. root db' = Some r' \<and>
       nr_inner r' = (nr_inner r)\<lparr>nri_neighbors := ns, nri_version := v\<rparr> \<and>
       nri_neighbors (nr_inner r) |\<subseteq>| ns \<and>
       nrm_node_addr_opt (nr_metadata r') = nrm_node_addr_opt (nr_metadata r))"
    using run(3) unfolding db_evolves_def root_evolves_def by metis
  have "ndb_this_node db' = ndb_this_node db" using run(3) by (simp add: db_evolves_def)
  with run(1,2,4) records root show ?thesis by blast
qed

theorem acceptor_handle_safe_witness:
  "(\<exists>res cpms targets' db'. acceptor_handle sample_env sample_db
      [sample_agr 1 (Some (sample_addr 11)) [0, 3, 4] 2, sample_agr 4 None [1] 1]
      (sample_source 11) sample_metadata fmempty = Some (res, cpms, targets', db') \<and> wf_db db') \<and>
   map_option (\<lambda>(res, cpms, targets', db'). (res, sorted_list_of_fset (keys db')))
     (acceptor_handle sample_env sample_db
      [sample_agr 1 (Some (sample_addr 11)) [0, 3, 4] 2, sample_agr 4 None [1] 1]
      (sample_source 11) sample_metadata fmempty) = Some (Accepted, [[0], [1], [2], [3], [4]])"
proof
  have "distinct (map (\<lambda>agr. nri_public_key (agr_inner agr))
      [sample_agr 1 (Some (sample_addr 11)) [0, 3, 4] 2, sample_agr 4 None [1] 1])"
    by (simp add: sample_agr_def sample_inner_def)
  from acceptor_handle_safe [OF sample_db_wf sample_env_ok targets_past_empty this, of "sample_source 11" sample_metadata]
  show "\<exists>res cpms targets' db'. acceptor_handle sample_env sample_db
      [sample_agr 1 (Some (sample_addr 11)) [0, 3, 4] 2, sample_agr 4 None [1] 1]
      (sample_source 11) sample_metadata fmempty = Some (res, cpms, targets', db') \<and> wf_db db'"
    by blast
  show "map_option (\<lambda>(res, cpms, targets', db'). (res, sorted_list_of_fset (keys db')))
     (acceptor_handle sample_env sample_db
      [sample_agr 1 (Some (sample_addr 11)) [0, 3, 4] 2, sample_agr 4 None [1] 1]
      (sample_source 11) sample_metadata fmempty) = Some (Accepted, [[0], [1], [2], [3], [4]])"
    by code_simp
qed

text \<open>
  C21. Gossip that is ignored or that would get its sender banned leaves the database exactly as it
  was, and Gossip that would get its sender banned also sends no message and leaves no trace in the
  memory of passes.
\<close>

theorem refused_gossip_changes_nothing:
  assumes "acceptor_handle E db agrs src md targets = Some (res, cpms, targets', db')"
    and "res = Ignored \<or> (\<exists>reason. res = Ban reason)"
  shows "db' = db \<and> ((\<exists>reason. res = Ban reason) \<longrightarrow> cpms = [] \<and> targets' = targets)"
proof -
  from assms(1) obtain q h where h: "find_handler gossip_handlers db agrs src = Some (q, h)"
    "(case q of
        Matched \<Rightarrow> handler_handle h E db agrs src md targets
      | Unmatched \<Rightarrow> panic
      | Malformed reason \<Rightarrow> ret (Ban reason, [], targets, db)) = Some (res, cpms, targets', db')"
    by (auto simp: acceptor_handle_def split: bind_splits)
  show ?thesis
  proof (cases q)
    case Matched
    with h(2) have "handler_handle h E db agrs src md targets = Some (res, cpms, targets', db')" by simp
    from handler_handle_refused [OF this assms(2)] show ?thesis by blast
  qed (use h(2) in simp_all)
qed

theorem refused_gossip_changes_nothing_witness:
  "\<exists>db' cpms targets'. acceptor_handle sample_env sample_db [sample_agr 4 None [] 0] (sample_source 14) sample_metadata fmempty =
     Some (Ban (DebutWithoutNodeAddr [4]), cpms, targets', db') \<and> db' = sample_db \<and> cpms = []"
proof -
  have "map_option fst (acceptor_handle sample_env sample_db [sample_agr 4 None [] 0] (sample_source 14) sample_metadata fmempty) =
      Some (Ban (DebutWithoutNodeAddr [4]))"
    by code_simp
  then obtain cpms targets' db' where run: "acceptor_handle sample_env sample_db [sample_agr 4 None [] 0]
      (sample_source 14) sample_metadata fmempty = Some (Ban (DebutWithoutNodeAddr [4]), cpms, targets', db')"
    by auto
  from refused_gossip_changes_nothing [OF this] run show ?thesis by auto
qed

text \<open>
  C22. A pass to a target that is not already a peer and was not passed to in the last minute is
  answered with the local Node's debut to the target and remembered; a second pass to the same target
  within a minute is ignored and reported as a loop. So a circle of passes stops.
\<close>

theorem pass_loop_stops:
  assumes "wf_db db" and "root db = Some r" and "agr_node_addr_opt agr = Some na"
    and "na_ip_addr na \<notin> set (nmd_connection_progress_peers md)"
    and "fmlookup targets (na_ip_addr na) = None"
    and "env_system_time E \<le> env_system_time E'" and "env_system_time E' \<le> env_system_time E + 60000000000"
  shows "\<exists>targets'. pass_handle E db [agr] src md targets =
      Some (Reply \<lparr>node_records = [gossip_entry r True]\<rparr> (nri_public_key (agr_inner agr)) (node_addr_clone na),
        [\<lparr>cpm_peer_addr = sa_ip src, cpm_event = PassGossipReceived (na_ip_addr na)\<rparr>], targets') \<and>
    (\<exists>targets''. pass_handle E' db' [agr] src' md' targets' =
      Some (Ignored, [\<lparr>cpm_peer_addr = sa_ip src', cpm_event = PassLoopFoundEvent\<rparr>], targets''))"
  using assms by (simp add: pass_handle_def pass_reply_run [OF assms(1,2)] PASS_GOSSIP_EXPIRED_TIME_def Let_def)

theorem pass_loop_stops_witness:
  "\<exists>targets' targets''. pass_handle sample_env sample_db [sample_agr 4 (Some (sample_addr 14)) [] 0] (sample_source 11)
       sample_metadata fmempty =
      Some (Reply \<lparr>node_records = [gossip_entry (sample_record 0 (Some (sample_addr 10)) [1, 2] 900) True]\<rparr> [4] (sample_addr 14),
        [\<lparr>cpm_peer_addr = V4 11, cpm_event = PassGossipReceived (V4 14)\<rparr>], targets') \<and>
    pass_handle (sample_env\<lparr>env_system_time := 1030000000000\<rparr>) sample_db [sample_agr 4 (Some (sample_addr 14)) [] 0]
      (sample_source 12) sample_metadata targets' =
      Some (Ignored, [\<lparr>cpm_peer_addr = V4 12, cpm_event = PassLoopFoundEvent\<rparr>], targets'')"
proof -
  have r: "root sample_db = Some (sample_record 0 (Some (sample_addr 10)) [1, 2] 900)" by code_simp
  have c: "node_addr_clone (sample_addr 14) = sample_addr 14" by code_simp
  have a: "agr_node_addr_opt (sample_agr 4 (Some (sample_addr 14)) [] 0) = Some (sample_addr 14)"
    "nri_public_key (agr_inner (sample_agr 4 (Some (sample_addr 14)) [] 0)) = [4]"
    "na_ip_addr (sample_addr 14) = V4 14" "sa_ip (sample_source 11) = V4 11" "sa_ip (sample_source 12) = V4 12"
    by (simp_all add: sample_agr_def sample_inner_def sample_addr_def sample_source_def)
  show ?thesis
    using pass_loop_stops [OF sample_db_wf r a(1), where md = sample_metadata and targets = fmempty and
        E = sample_env and E' = "sample_env\<lparr>env_system_time := 1030000000000\<rparr>" and src = "sample_source 11" and
        src' = "sample_source 12" and db' = sample_db and md' = sample_metadata]
    by (simp add: a c sample_metadata_def sample_env_def)
qed



text \<open>
  The patch is not complete: it is built depth first with a hop budget and never revisits a
  Node, so a Node within the patch size can be missing when a longer path reached one of its
  predecessors first. Here Node 4 is three hops away (0 - 2 - 3 - 4), but the walk through Node 1
  reaches Node 3 with no hops left.
\<close>

theorem compute_patch_incomplete:
  "within_hops (sample_record 0 None [1, 2] 900)
     (agrs_by_key [sample_agr 1 None [2] 1, sample_agr 2 None [3] 1, sample_agr 3 None [4] 1, sample_agr 4 None [3] 1])
     (unat (3 :: u8)) [4] \<and>
   [4] |\<notin>| compute_patch
     [sample_agr 1 None [2] 1, sample_agr 2 None [3] 1, sample_agr 3 None [4] 1, sample_agr 4 None [3] 1]
     (sample_record 0 None [1, 2] 900) 3"
proof
  let ?r = "sample_record 0 None [1, 2] 900"
  let ?agrs = "agrs_by_key [sample_agr 1 None [2] 1, sample_agr 2 None [3] 1, sample_agr 3 None [4] 1, sample_agr 4 None [3] 1]"
  have "gossip_neighbors ?r ?agrs [0] = Some {|[1], [2]|}" "gossip_neighbors ?r ?agrs [2] = Some {|[3]|}"
    "gossip_neighbors ?r ?agrs [3] = Some {|[4]|}" "public_key ?r = [0]"
    by code_simp+
  then have "within_hops ?r ?agrs (Suc (Suc (Suc 0))) [4]"
    using within_root [of ?r ?agrs 0]
    by (intro within_step [of _ _ _ "[3]" "{|[4]|}"] within_step [of _ _ _ "[2]" "{|[3]|}"]
        within_step [of _ _ _ "[0]" "{|[1], [2]|}"]) simp_all
  moreover have "unat (3 :: u8) = Suc (Suc (Suc 0))" by code_simp
  ultimately show "within_hops ?r ?agrs (unat (3 :: u8)) [4]" by (simp only:)
  show "[4] |\<notin>| compute_patch
     [sample_agr 1 None [2] 1, sample_agr 2 None [3] 1, sample_agr 3 None [4] 1, sample_agr 4 None [3] 1] ?r 3"
    by code_simp
qed


text \<open>
  An address that an existing record gains through \<open>update\<close> is not entered in the index of
  addresses. Node 3, known without an address, introduces Node 4: Node 3 becomes a half neighbor of
  the local Node and its record now has its address, but it is still not found by that address.
\<close>

theorem introduced_address_not_indexed:
  "map_option (\<lambda>(res, cpms, targets, db'). (map_option node_addr_opt (node_by_key db' [3]),
       db_has_half_neighbor db' [0] [3], node_by_ip db' (V4 13) = None))
     (acceptor_handle sample_env sample_db
       [sample_agr 3 (Some (sample_addr 13)) [1] 1, sample_agr 4 (Some (sample_addr 14)) [] 1]
       (sample_source 13) sample_metadata fmempty) =
   Some (Some (Some (sample_addr 13)), True, True)"
  by code_simp

end
