(* ===== verification/Actor_Gossip.thy ===== *)
theory Actor_Gossip
  imports Actor_Routes Acceptor_Safety
begin

text \<open>
  What Gossip does to the Neighborhood actor: the acceptor, the producer, the search for a route and
  the sending of Gossip together. The state that all of them rely on is kept, and no Gossip that decodes and is
  signed by distinct keys makes the actor panic.
\<close>

section \<open>Only keys from the Gossip are added\<close>

abbreviation agr_key :: "accessible_gossip_record \<Rightarrow> public_key" where
  "agr_key agr \<equiv> nri_public_key (agr_inner agr)"

definition adds_only :: "public_key set \<Rightarrow> neighborhood_database \<Rightarrow> neighborhood_database \<Rightarrow> bool" where
  "adds_only K db db' \<longleftrightarrow> fset (keys db') \<subseteq> fset (keys db) \<union> K"

lemma adds_only_refl [simp, intro]: "adds_only K db db"
  by (simp add: adds_only_def)

lemma adds_only_trans: "adds_only K db db' \<Longrightarrow> adds_only K db' db'' \<Longrightarrow> adds_only K db db''"
  by (auto simp: adds_only_def)

lemma adds_only_put: "node_by_key db k = Some r \<Longrightarrow> adds_only K db (put_node k r' db)"
  by (auto simp: adds_only_def keys_def put_node_def node_by_key_def intro: fmdomI)

lemma adds_only_root_mut: "root_mut f db = Some db' \<Longrightarrow> adds_only K db db'"
  by (auto simp: root_mut_def root_def split: bind_splits intro: adds_only_put)

lemma adds_only_add_half_neighbor: "adds_only K db (snd (add_half_neighbor E k db))"
  by (auto simp: add_half_neighbor_def Let_def intro!: adds_only_put
      split: option.split sum.split prod.split node_record_error.split)

lemma adds_only_add_node: "nri_public_key (nr_inner r) \<in> K \<Longrightarrow> adds_only K db (snd (add_node r db))"
  by (auto simp: add_node_def adds_only_def add_arbitrary_node_def Let_def keys_def put_node_def
      split: option.split sum.split)

lemma adds_only_cases:
  "add_half_neighbor E k db = (res, db') \<Longrightarrow> adds_only K db db'"
  "add_node r db = (res', db'') \<Longrightarrow> nri_public_key (nr_inner r) \<in> K \<Longrightarrow> adds_only K db db''"
  "root_new_version E db = Some db3 \<Longrightarrow> adds_only K db db3"
  using adds_only_add_half_neighbor [of K db E k] adds_only_add_node [of r K db] adds_only_root_mut
  by (simp, simp, simp add: root_new_version_def)

lemma node_record_of_agr_key [simp]:
  "nri_public_key (nr_inner (node_record_of_agr E agr)) = agr_key agr"
  "nri_public_key (nr_inner (node_record_of_agr_ref E agr)) = agr_key agr"
  by (simp_all add: node_record_of_agr_def node_record_of_agr_ref_def agr_clone_def)

lemma try_accept_debut_adds:
  assumes "try_accept_debut E db agr src uep = Some (res, db')" and "agr_key agr \<in> K"
  shows "adds_only K db db'"
proof -
  from assms(1) consider "db' = db" | res1 k db1 res2 db2 where
    "add_node (apply_exit_preferences uep (node_record_of_agr_ref E agr)) db = (res1, db1)"
    "add_half_neighbor E k db1 = (res2, db2)" "root_new_version E db2 = Some db'"
    by (auto simp: try_accept_debut_def Let_def split: bind_splits if_splits prod.splits sum.splits bool.splits option.splits)
  then show ?thesis
  proof cases
    case 2
    from adds_only_cases(2) [OF 2(1), of K] assms(2) have "adds_only K db db1" by simp
    with adds_only_cases(1) [OF 2(2)] adds_only_cases(3) [OF 2(3)] show ?thesis by (blast intro: adds_only_trans)
  qed simp
qed

lemma debut_handle_adds:
  assumes "debut_handle E db agrs src md = Some (res, db')" and "agr_key ` set agrs \<subseteq> K"
  shows "adds_only K db db'"
proof (cases agrs)
  case Nil
  with assms(1) show ?thesis by (simp add: debut_handle_def)
next
  case (Cons agr rest)
  let ?src = "case agr_node_addr_opt agr of None \<Rightarrow> agr\<lparr>agr_node_addr_opt := Some (node_addr_of_socket_addr src)\<rparr> | Some _ \<Rightarrow> agr"
  have key: "agr_key ?src \<in> K" using assms(2) Cons by (auto split: option.split)
  from assms(1) Cons consider "db' = db" | r1 where
    "try_accept_debut E db ?src src (nmd_user_exit_preferences_opt md) = Some (r1, db')"
    by (auto simp: debut_handle_def Let_def split: bind_splits option.splits sum.splits prod.splits)
  then show ?thesis using try_accept_debut_adds [OF _ key] by cases auto
qed

lemma introduction_update_adds:
  assumes "introduction_update_database E db agr uep = Some (res, db')" and "agr_key agr \<in> K"
  shows "adds_only K db db'"
proof -
  have join: "adds_only K db1 db2" if "(case add_half_neighbor E (agr_key agr) db1 of
              (Inl _, _) \<Rightarrow> panic
            | (Inr added, database2) \<Rightarrow>
                if added then do { database3 \<leftarrow> root_new_version E database2; ret (Inr True :: update_error + bool, database3) }
                else ret (Inr True, database2)) = Some (r1, db2)" for db1 db2 r1
    using that by (auto split: prod.splits sum.splits if_splits bind_splits
        dest!: adds_only_cases(1) [of _ _ _ _ _ K] adds_only_cases(3) [of _ _ _ K] intro: adds_only_trans)
  show ?thesis
  proof (cases "node_by_key db (agr_key agr)")
    case None
    obtain res1 db1 where 1: "add_node (apply_exit_preferences uep (node_record_of_agr E agr)) db = (res1, db1)"
      by fastforce
    with None assms(1) have 2: "adds_only K db1 db'"
      by (cases res1) (simp_all add: introduction_update_database_def Let_def join)
    from adds_only_cases(2) [OF 1, of K] assms(2) have "adds_only K db db1" by simp
    with 2 show ?thesis by (rule adds_only_trans [rotated])
  next
    case (Some n)
    obtain res1 n' where 1: "update_node_record E agr n = (res1, n')" by fastforce
    show ?thesis
    proof (cases "version n < nri_version (agr_inner agr) \<and> \<not> Sum_Type.isl res1")
      case True
      with Some 1 assms(1) have "adds_only K (put_node (agr_key agr) n' db) db'"
        by (cases res1) (simp_all add: introduction_update_database_def Let_def join)
      with adds_only_put [OF Some] show ?thesis by (rule adds_only_trans)
    next
      case False
      with Some 1 assms(1) show ?thesis
        by (cases res1) (auto simp: introduction_update_database_def Let_def split: if_splits)
    qed
  qed
qed

lemma introduction_handle_adds:
  assumes "introduction_handle E db agrs src md = Some (res, cpms, db')" and "agr_key ` set agrs \<subseteq> K"
  shows "adds_only K db db'"
proof -
  have players: "agr_key a \<in> K" if "identify_players agrs src = Some (Inr (a, b))" for a b
    using that assms(2) by (auto simp: identify_players_def split: bind_splits sum.splits list.splits if_splits)
  from assms(1) consider "db' = db" | a b r1 where "identify_players agrs src = Some (Inr (a, b))"
    "introduction_update_database E db a (nmd_user_exit_preferences_opt md) = Some (r1, db')"
    by (auto simp: introduction_handle_def split: bind_splits if_splits sum.splits prod.splits)
  then show ?thesis by cases (auto intro: introduction_update_adds players)
qed

lemma add_new_nodes_adds:
  assumes "iter_each (\<lambda>agr db. (case add_node (apply_exit_preferences uep (node_record_of_agr_ref E agr)) db of
               (Inl _, _) \<Rightarrow> panic
             | (Inr _, db') \<Rightarrow> ret db')) agrs db = Some db'" and "agr_key ` set agrs \<subseteq> K"
  shows "adds_only K db db'"
  using assms
proof (induction agrs arbitrary: db)
  case Nil
  then show ?case by simp
next
  case (Cons agr agrs)
  from Cons.prems(1) obtain res db1 where 1: "add_node (apply_exit_preferences uep (node_record_of_agr_ref E agr)) db = (Inr res, db1)"
    and 2: "iter_each (\<lambda>agr db. (case add_node (apply_exit_preferences uep (node_record_of_agr_ref E agr)) db of
               (Inl _, _) \<Rightarrow> panic
             | (Inr _, db') \<Rightarrow> ret db')) agrs db1 = Some db'"
    by (auto split: bind_splits prod.splits sum.splits)
  from adds_only_cases(2) [OF 1, of K] Cons.prems(2) have "adds_only K db db1" by simp
  with Cons.IH [OF 2] Cons.prems(2) show ?case by (auto intro: adds_only_trans)
qed

lemma update_obsolete_adds:
  "identify_and_update_obsolete_nodes E db agrs b = Some (res, db') \<Longrightarrow> adds_only K db db'"
proof (induction agrs arbitrary: db b)
  case Nil
  then show ?case by simp
next
  case (Cons agr agrs)
  have upd: "adds_only K db db1" if "update_database_record E db agr = Some (u, db1)" for u db1
    using that by (auto simp: update_database_record_def split: bind_splits prod.splits sum.splits intro: adds_only_put)
  from Cons.prems show ?case
    by (auto split: option.splits if_splits bind_splits dest!: Cons.IH upd intro: adds_only_trans)
qed

lemma standard_handle_adds:
  assumes "standard_handle E db agrs src md = Some (res, cpms, db')" and "agr_key ` set agrs \<subseteq> K"
  shows "adds_only K db db'"
proof -
  let ?agrs = "\<lambda>r. filter_agrs_by_patch agrs (compute_patch agrs r (nmd_db_patch_size md))"
  from assms(1) obtain r a db1 u db2 s where
    1: "identify_and_add_non_introductory_new_nodes E db (?agrs r) src (nmd_user_exit_preferences_opt md) = Some (a, db1)"
    and 2: "identify_and_update_obsolete_nodes E db1 (?agrs r) False = Some (u, db2)"
    and 3: "add_src_node_as_half_neighbor E db2 src = Some (s, db')"
    by (auto simp: standard_handle_def Let_def split: bind_splits if_splits)
  have "adds_only K db db1"
    using 1 unfolding identify_and_add_non_introductory_new_nodes_def Let_def
    by (clarsimp split: bind_splits, elim add_new_nodes_adds) (use assms(2) in \<open>auto simp: filter_agrs_by_patch_def\<close>)
  moreover note update_obsolete_adds [OF 2, of K]
  moreover have "adds_only K db2 db'"
    using 3 by (auto simp: add_src_node_as_half_neighbor_def split: option.splits bind_splits if_splits prod.splits sum.splits bool.splits
        dest!: adds_only_cases(1) [of _ _ _ _ _ K] adds_only_cases(3) [of _ _ _ K] intro: adds_only_trans)
  ultimately show ?thesis by (blast intro: adds_only_trans)
qed

lemma acceptor_handle_adds:
  assumes "acceptor_handle E db agrs src md targets = Some (res, cpms, targets', db')"
  shows "adds_only (agr_key ` set agrs) db db'"
proof -
  from assms obtain q h where "find_handler gossip_handlers db agrs src = Some (q, h)"
    and h: "db' = db \<or> handler_handle h E db agrs src md targets = Some (res, cpms, targets', db')"
    by (auto simp: acceptor_handle_def split: bind_splits qualification.splits)
  from h show ?thesis
    by (cases h) (auto split: bind_splits intro: debut_handle_adds introduction_handle_adds standard_handle_adds)
qed

section \<open>The state that the handlers rely on\<close>

text \<open>
  What the actor relies on from outside: CBOR and the keys' text form work, the encryption is that of its own
  key, and a signature that verifies is by a key that can be encrypted for.
\<close>

definition world_ok ::
  "(public_key \<Rightarrow> cryptde) \<Rightarrow> (public_key \<Rightarrow> bool) \<Rightarrow> public_key \<Rightarrow> 'p neighborhood_world \<Rightarrow> bool" where
  "world_ok C valid_key me W \<longleftrightarrow> cryptde_network C valid_key \<and> env_ok (nw_env W) \<and> cores_world_ok (nw_cores W) \<and>
     nw_cryptde W = C me \<and> (\<forall>g. to_vec (nw_gossip W) g \<noteq> None) \<and> (\<forall>f. to_vec (nw_gossip_failure W) f \<noteq> None) \<and>
     (\<forall>b s k. env_verify_signature (nw_env W) b s k \<longrightarrow> valid_key k) \<and>
     (\<forall>k. valid_key k \<longrightarrow> nw_descriptor_key W k \<noteq> None)"

definition state_ok :: "(public_key \<Rightarrow> bool) \<Rightarrow> public_key \<Rightarrow> 'p neighborhood_world \<Rightarrow> neighborhood \<Rightarrow> bool" where
  "state_ok valid_key me W nb \<longleftrightarrow> wf_db (nb_database nb) \<and> ndb_this_node (nb_database nb) = me \<and>
     (\<forall>k \<in> fset (keys (nb_database nb)). valid_key k) \<and>
     usable_wallet (cw_wallet_ops (nw_cores W)) (nb_consuming_wallet_opt nb) \<and>
     targets_past (nw_env W) (nb_pass_targets nb)"

text \<open>Bound to the other actors, and connected to the database if it has a password for it.\<close>

definition started :: "neighborhood \<Rightarrow> bool" where
  "started nb \<longleftrightarrow> nb_bound nb \<and> (nb_db_password_opt nb = None \<or> nb_database_connected nb)"

text \<open>Handling that returns, keeps the state and stays started.\<close>

definition handles ::
  "(public_key \<Rightarrow> bool) \<Rightarrow> public_key \<Rightarrow> 'p neighborhood_world \<Rightarrow> handled \<Rightarrow> bool" where
  "handles valid_key me W out \<longleftrightarrow> (\<exists>outs nb'. out = Some (outs, nb') \<and> state_ok valid_key me W nb' \<and> started nb')"

lemma state_ok_cong:
  assumes "state_ok valid_key me W nb" and "nb_database nb' = nb_database nb"
    and "nb_consuming_wallet_opt nb' = nb_consuming_wallet_opt nb" and "nb_pass_targets nb' = nb_pass_targets nb"
  shows "state_ok valid_key me W nb'"
  using assms by (simp add: state_ok_def)

lemma state_ok_shrink:
  assumes "state_ok valid_key me W nb" and "wf_db db" and "ndb_this_node db = me"
    and "\<And>k n. node_by_key db k = Some n \<Longrightarrow> \<exists>n'. node_by_key (nb_database nb) k = Some n'"
    and "nb_database nb' = db"
    and "nb_consuming_wallet_opt nb' = nb_consuming_wallet_opt nb" and "nb_pass_targets nb' = nb_pass_targets nb"
  shows "state_ok valid_key me W nb'"
proof -
  have "valid_key k" if "k |\<in>| keys db" for k
  proof -
    from that obtain n where "node_by_key db k = Some n" by (auto simp: keys_def node_by_key_def fmlookup_dom_iff)
    from assms(4) [OF this] show ?thesis
      using assms(1) by (auto simp: state_ok_def keys_def node_by_key_def fmdomI)
  qed
  with assms show ?thesis by (auto simp: state_ok_def)
qed

lemma state_ready:
  assumes "world_ok C valid_key me W" and "state_ok valid_key me W nb"
  shows "routing_ready C valid_key W nb"
  using assms by (auto simp: routing_ready_def world_ok_def state_ok_def cores_world_ok_def)

lemma world_okD:
  assumes "world_ok C valid_key me W"
  shows "cryptde_network C valid_key" "env_ok (nw_env W)" "nw_cryptde W = C me"
    "codec_ok (cw_hop (nw_cores W))" "codec_ok (cw_message (nw_cores W))" "\<exists>b. to_vec (nw_gossip W) g = Some b"
    "\<exists>b. to_vec (nw_gossip_failure W) f = Some b"
    "env_verify_signature (nw_env W) b s k \<Longrightarrow> valid_key k" "valid_key k \<Longrightarrow> \<exists>k'. nw_descriptor_key W k = Some k'"
    "codec_ok (cw_id (nw_cores W))"
  using assms by (auto simp: world_ok_def cores_world_ok_def)

lemma state_okD:
  assumes "state_ok valid_key me W nb"
  shows "wf_db (nb_database nb)" "ndb_this_node (nb_database nb) = me" "targets_past (nw_env W) (nb_pass_targets nb)"
    "node_by_key (nb_database nb) k = Some n \<Longrightarrow> valid_key k"
  using assms by (auto simp: state_ok_def keys_def node_by_key_def fmdomI)

lemma state_ok_me:
  assumes "state_ok valid_key me W nb"
  shows "valid_key me"
  using wf_db_root [OF state_okD(1) [OF assms]] state_okD(2,4) [OF assms] by metis

section \<open>Sending Gossip\<close>

lemma send_started: "started nb \<Longrightarrow> send nb out = Some [out]"
  by (simp add: send_def started_def)

lemma migrations_run:
  "\<exists>M. gossip_migrations W = Some M" "\<exists>M. gossip_failure_migrations W = Some M"
  by (simp_all add: gossip_migrations_def gossip_failure_migrations_def add_step_def validate_step_def migrations_new_def
      GOSSIP_CURRENT_VERSION_def GOSSIP_FAILURE_CURRENT_VERSION_def FUTURE_VERSION_def less_data_version_iff)

lemma gossip_message_run:
  assumes "world_ok C valid_key me W"
  shows "\<exists>m. gossip_message W g = Some m"
proof -
  obtain M b where "gossip_migrations W = Some M" "to_vec (nw_gossip W) g = Some b"
    using migrations_run(1) world_okD(6) [OF assms] by blast
  then show ?thesis by (simp add: gossip_message_def versioned_data_new_def)
qed

lemma send_no_lookup_run: "started nb \<Longrightarrow> \<exists>outs. send_no_lookup_package W nb m k na = Some outs"
  by (auto simp: send_no_lookup_package_def send_started split: sum.split)

lemma handle_gossip_reply_run:
  assumes "world_ok C valid_key me W" and "started nb"
  shows "\<exists>outs. handle_gossip_reply W nb g k na = Some outs"
  using gossip_message_run [OF assms(1), of g] send_no_lookup_run [OF assms(2)] by (auto simp: handle_gossip_reply_def)

lemma handle_gossip_failed_run:
  assumes "world_ok C valid_key me W" and "started nb"
  shows "\<exists>outs. handle_gossip_failed W nb f k na = Some outs"
proof -
  obtain M b where "gossip_failure_migrations W = Some M" "to_vec (nw_gossip_failure W) f = Some b"
    using migrations_run(2) world_okD(7) [OF assms(1)] by blast
  then show ?thesis using send_no_lookup_run [OF assms(2)]
    by (auto simp: handle_gossip_failed_def versioned_data_new_def)
qed

lemma gossip_to_neighbor_run:
  assumes "world_ok C valid_key me W" and "started nb" and "valid_key me" and "valid_key k"
  shows "\<exists>outs. gossip_to_neighbor W nb k g = Some outs"
proof -
  note W = world_okD [OF assms(1)]
  have key: "cd_public_key (nw_cryptde W) = me" using cryptde_network.public_key_of [OF W(1)] W(3) by simp
  obtain route where route: "create_single_hop_route W k = Some route"
    using cryptde_network.neighbor_route_run [OF W(1,4) assms(3,4),
        of "cw_id (nw_cores W)" "cw_wallet_ops (nw_cores W)" NeighborhoodComponent None] key W(3)
    by (auto simp: create_single_hop_route_def route_segment_new_def)
  obtain m where m: "gossip_message W g = Some m" using gossip_message_run [OF assms(1)] by blast
  from cryptde_network.decodex_encodex [OF W(1) assms(4) W(5), of me m] obtain c where
    "encodex (cw_message (nw_cores W)) (C me) k m = Inr c" by blast
  with route m W(3) show ?thesis
    by (simp add: gossip_to_neighbor_def incipient_new_def send_started [OF assms(2)])
qed

lemma gossip_to_each_run:
  assumes "world_ok C valid_key me W" and "state_ok valid_key me W nb" and "started nb" and "\<forall>k \<in> set ks. valid_key k"
  shows "handles valid_key me W (gossip_to_each W ks nb)"
  using assms(2-4)
proof (induction ks arbitrary: nb)
  case Nil
  then show ?case by (simp add: handles_def)
next
  case (Cons k ks)
  note W = world_okD [OF assms(1)]
  from produce_run [OF state_okD(1) [OF Cons.prems(1)] W(2), of k "nb_last_dead_node_check nb"] obtain g c db where
    p: "produce (nw_env W) k (nb_last_dead_node_check nb) (nb_database nb) = Some (g, c, db)" "wf_db db"
    "ndb_this_node db = ndb_this_node (nb_database nb)"
    "\<And>k n. node_by_key db k = Some n \<Longrightarrow> node_by_key (nb_database nb) k = Some n" by blast
  let ?nb = "nb\<lparr>nb_database := db, nb_last_dead_node_check := c\<rparr>"
  have ok: "state_ok valid_key me W ?nb"
    by (rule state_ok_shrink [OF Cons.prems(1) p(2)]) (use p(3,4) state_okD(2) [OF Cons.prems(1)] in auto)
  have st: "started ?nb" using Cons.prems(2) by (simp add: started_def)
  have "handles valid_key me W (gossip_to_each W ks ?nb)" using Cons.IH [OF ok st] Cons.prems(3) by simp
  then obtain outs nb' where rest: "gossip_to_each W ks ?nb = Some (outs, nb')" "state_ok valid_key me W nb'" "started nb'"
    unfolding handles_def by blast
  have "\<exists>o1. (case g of Some gossip \<Rightarrow> gossip_to_neighbor W ?nb k gossip | None \<Rightarrow> ret []) = Some o1"
    using gossip_to_neighbor_run [OF assms(1) st state_ok_me [OF Cons.prems(1)]] Cons.prems(3) by (auto split: option.split)
  with p(1) rest show ?case by (auto simp: handles_def Let_def)
qed

lemma gossip_to_neighbors_run:
  assumes "world_ok C valid_key me W" and "state_ok valid_key me W nb" and "started nb"
  shows "handles valid_key me W (gossip_to_neighbors W nb)"
proof -
  note W = world_okD [OF assms(1)] and S = state_okD [OF assms(2)]
  obtain r where r: "root (nb_database nb) = Some r" "node_by_key (nb_database nb) me = Some r" "root_sound (nb_database nb) r"
    using wf_db_root [OF S(1)] S(2) by metis
  obtain r' where r': "regenerate_signed_gossip (nw_env W) r = Some r'" "nr_inner r' = nr_inner r" "nr_metadata r' = nr_metadata r"
    by (rule env_ok_regenerate [OF W(2)])
  let ?db = "put_node me r' (nb_database nb)"
  have db: "root_mut (regenerate_signed_gossip (nw_env W)) (nb_database nb) = Some ?db"
    using r(1) r'(1) S(2) by (simp add: root_mut_def)
  have wf: "wf_db ?db"
    by (rule wf_db_root_mut [OF S(1) db]) (auto simp: same_place_def dest: regenerate_signed_gossip_frame)
  have d: "ndb_this_node ?db = me" "root ?db = Some r'" using S(2) by (simp_all add: put_node_def root_def node_by_key_def)
  have ok: "state_ok valid_key me W (nb\<lparr>nb_database := ?db\<rparr>)"
    by (rule state_ok_shrink [OF assms(2) wf d(1)]) (use r(2) in \<open>auto simp: put_node_def node_by_key_def split: if_splits\<close>)
  have "\<forall>k \<in> set (env_iter (nw_env W) (half_neighbor_keys r')). valid_key k"
  proof
    fix k assume "k \<in> set (env_iter (nw_env W) (half_neighbor_keys r'))"
    then have "has_half_neighbor r k" using env_ok_iter(1) [OF W(2)] r'(2) by simp
    with r(3) show "valid_key k" unfolding root_sound_def using S(4) by blast
  qed
  from gossip_to_each_run [OF assms(1) ok _ this] assms(3) show ?thesis
    by (simp add: gossip_to_neighbors_def db d(2) started_def)
qed

section \<open>The search for a route\<close>

lemma zero_hop_run:
  assumes "world_ok C valid_key me W" and "valid_key me"
  shows "\<exists>resp. zero_hop_route_response W nb = Some (resp, nb\<lparr>nb_next_return_route_id := nb_next_return_route_id nb + 1\<rparr>)"
proof -
  note W = world_okD [OF assms(1)]
  have key: "cd_public_key (nw_cryptde W) = me" using cryptde_network.public_key_of [OF W(1)] W(3) by simp
  have "usable_wallet (cw_wallet_ops (nw_cores W)) None" by (simp add: usable_wallet_def)
  from cryptde_network.round_trip_run [OF W(1,4,10) this, of "[me, me]" "[me, me]" me ProxyClientComponent ProxyServerComponent
      "nb_next_return_route_id nb" None] assms(2) obtain route where
    "round_trip (cw_hop (nw_cores W)) (cw_id (nw_cores W)) (cw_wallet_ops (nw_cores W))
      \<lparr>rs_keys = [me, me], rs_recipient = ProxyClientComponent\<rparr> \<lparr>rs_keys = [me, me], rs_recipient = ProxyServerComponent\<rparr>
      (C me) None (nb_next_return_route_id nb) None = Some (Inr route)" by auto
  then show ?thesis
    using key by (simp add: zero_hop_route_response_def advance_return_route_id_def make_route_def route_segment_new_def
        W(3) Let_def)
qed

lemma route_query_run:
  assumes "world_ok C valid_key me W" and "state_ok valid_key me W nb" and "rqm_return_component_opt msg \<noteq> None"
  shows "\<exists>res c. handle_route_query_message W msg nb = Some (res, nb\<lparr>nb_next_return_route_id := c\<rparr>)"
proof (cases "nb_mode nb = ZeroHopLight")
  case True
  then show ?thesis
    using zero_hop_run [OF assms(1) state_ok_me [OF assms(2)], of nb] by (auto simp: handle_route_query_message_def)
next
  case False
  from assms(3) obtain bc where "rqm_return_component_opt msg = Some bc" by blast
  from query_answered [OF world_okD(1) [OF assms(1)] state_ready [OF assms(1,2)] False this] obtain res nb' where
    run: "handle_route_query_message W msg nb = Some (res, nb')"
    and "nb' = nb \<or> nb' = nb\<lparr>nb_next_return_route_id := nb_next_return_route_id nb + 1\<rparr>"
    by (auto split: option.splits)
  then have "\<exists>c. nb' = nb\<lparr>nb_next_return_route_id := c\<rparr>"
    by (metis neighborhood.surjective neighborhood.update_convs(6))
  with run show ?thesis by blast
qed

lemma started_cong [simp]:
  "started (nb\<lparr>nb_next_return_route_id := c\<rparr>) = started nb"
  "started (nb\<lparr>nb_database := db\<rparr>) = started nb"
  "started (nb\<lparr>nb_overall_connection_status := ocs\<rparr>) = started nb"
  "started (nb\<lparr>nb_pass_targets := ts\<rparr>) = started nb"
  "started (nb\<lparr>nb_user_exit_preferences := uep\<rparr>) = started nb"
  "started (nb\<lparr>nb_min_hops := h\<rparr>) = started nb"
  "started (nb\<lparr>nb_db_patch_size := n\<rparr>) = started nb"
  "started (nb\<lparr>nb_consuming_wallet_opt := w\<rparr>) = started nb"
  by (simp_all add: started_def)

lemma state_ok_frame [simp]:
  "state_ok valid_key me W (nb\<lparr>nb_next_return_route_id := c\<rparr>) = state_ok valid_key me W nb"
  "state_ok valid_key me W (nb\<lparr>nb_overall_connection_status := ocs\<rparr>) = state_ok valid_key me W nb"
  "state_ok valid_key me W (nb\<lparr>nb_user_exit_preferences := uep\<rparr>) = state_ok valid_key me W nb"
  "state_ok valid_key me W (nb\<lparr>nb_min_hops := h\<rparr>) = state_ok valid_key me W nb"
  "state_ok valid_key me W (nb\<lparr>nb_db_patch_size := n\<rparr>) = state_ok valid_key me W nb"
  "state_ok valid_key me W (nb\<lparr>nb_db_password_opt := pw\<rparr>) = state_ok valid_key me W nb"
  "state_ok valid_key me W (nb\<lparr>nb_bound := b\<rparr>) = state_ok valid_key me W nb"
  "state_ok valid_key me W (nb\<lparr>nb_database_connected := b\<rparr>) = state_ok valid_key me W nb"
  by (simp_all add: state_ok_def)

lemma handles_ret [simp]: "handles valid_key me W (Some (outs, nb)) \<longleftrightarrow> state_ok valid_key me W nb \<and> started nb"
  by (simp add: handles_def)

lemma handlesE:
  assumes "handles valid_key me W h"
  obtains outs nb where "h = Some (outs, nb)" "state_ok valid_key me W nb" "started nb"
  using assms by (auto simp: handles_def)

lemma update_stage_run:
  assumes "started nb"
  shows "\<exists>outs ocs. update_stage_of stage nb = Some (outs, nb\<lparr>nb_overall_connection_status := ocs\<rparr>)"
  using assms by (auto simp: update_stage_of_def started_def split: prod.split)

lemma search_run:
  assumes "world_ok C valid_key me W" and "state_ok valid_key me W nb" and "started nb"
  shows "handles valid_key me W (search_for_a_new_route W nb)"
proof -
  obtain res c where q: "handle_route_query_message W
      \<lparr>rqm_target_key_opt = None, rqm_target_component = ProxyClientComponent,
        rqm_return_component_opt = Some ProxyServerComponent, rqm_payload_size = 10000, rqm_hostname_opt = None\<rparr> nb =
      Some (res, nb\<lparr>nb_next_return_route_id := c\<rparr>)"
    using route_query_run [OF assms(1,2)] by (metis option.discI route_query_message.select_convs(3))
  let ?nb = "nb\<lparr>nb_next_return_route_id := c\<rparr>"
  have st: "started ?nb" using assms(3) by simp
  from update_stage_run [OF st] obtain outs ocs where
    "update_stage_of RouteFound ?nb = Some (outs, ?nb\<lparr>nb_overall_connection_status := ocs\<rparr>)" by blast
  with st q assms(2) show ?thesis
    by (cases res) (simp_all add: search_for_a_new_route_def send_started)
qed

lemma check_connectedness_run:
  assumes "world_ok C valid_key me W" and "state_ok valid_key me W nb" and "started nb"
  shows "handles valid_key me W (check_connectedness W nb)"
  using search_run [OF assms] assms(2,3) by (simp add: check_connectedness_def)

section \<open>Incoming Gossip\<close>

lemma refresh_run:
  assumes "world_ok C valid_key me W" and "state_ok valid_key me W nb"
  shows "\<exists>uep. refresh_db_countries W nb = Some (nb\<lparr>nb_user_exit_preferences := uep\<rparr>)"
proof -
  obtain r where "node_by_key (nb_database nb) (ndb_this_node (nb_database nb)) = Some r"
    using wf_db_root [OF state_okD(1) [OF assms(2)]] by blast
  from exits_run [OF state_okD(1) [OF assms(2)] world_okD(2) [OF assms(1)] this, of "nb_user_exit_preferences nb"
      "hops_num (nb_min_hops nb)"] obtain exits where
    "find_exit_locations (nw_env W) (nb_database nb) (nb_user_exit_preferences nb) (ndb_this_node (nb_database nb))
       (hops_num (nb_min_hops nb)) = Some exits" by blast
  then show ?thesis by (auto simp: refresh_db_countries_def init_db_countries_def)
qed

lemma those_map_run: "(\<And>x. x \<in> set xs \<Longrightarrow> \<exists>y. f x = Some y) \<Longrightarrow> \<exists>ys. those (map f xs) = Some ys"
proof (induction xs)
  case (Cons x xs)
  obtain y ys where "f x = Some y" "those (map f xs) = Some ys" using Cons by fastforce
  then show ?case by simp
qed simp

lemma descriptors_run:
  assumes "world_ok C valid_key me W" and "state_ok valid_key me W nb"
    and "\<forall>k \<in> set ks. \<exists>n. node_by_key (nb_database nb) k = Some n"
  shows "\<exists>nds. to_node_descriptors W nb ks = Some nds"
proof -
  have "\<exists>nd. (do { r \<leftarrow> node_by_key (nb_database nb) k; node_descriptor_of_record W (nb_chain nb) r }) = Some nd"
    if "k \<in> set ks" for k
  proof -
    from that assms(3) obtain n where n: "node_by_key (nb_database nb) k = Some n" by blast
    have "nri_public_key (nr_inner n) = k" by (rule wf_db_key [OF state_okD(1) [OF assms(2)] n])
    moreover obtain k' where "nw_descriptor_key W k = Some k'"
      using world_okD(9) [OF assms(1) state_okD(4) [OF assms(2) n]] by blast
    ultimately show ?thesis using n by (simp add: node_descriptor_of_record_def)
  qed
  then show ?thesis unfolding to_node_descriptors_def by (rule those_map_run)
qed

lemma full_neighbors_known:
  assumes "wf_db db" and "root db = Some r" and "k |\<in>| full_neighbor_keys r db"
  shows "\<exists>n. node_by_key db k = Some n"
  using assms wf_db_neighbor [OF assms(1,2)] by (auto simp: full_neighbor_keys_def)

lemma curate_run:
  assumes "world_ok C valid_key me W" and "state_ok valid_key me W nb" and "started nb"
    and "neighbor_keys nb = Some after"
  shows "\<exists>outs. curate_past_neighbors W nb before after = Some outs"
proof -
  from assms(4) obtain r where r: "root (nb_database nb) = Some r" "after = full_neighbor_keys r (nb_database nb)"
    by (auto simp: neighbor_keys_def split: bind_splits)
  have "\<forall>k \<in> set (env_iter (nw_env W) after). \<exists>n. node_by_key (nb_database nb) k = Some n"
    using full_neighbors_known [OF state_okD(1) [OF assms(2)] r(1)] env_ok_iter(1) [OF world_okD(2) [OF assms(1)]] r(2) by auto
  from descriptors_run [OF assms(1,2) this] assms(3) show ?thesis
    by (auto simp: curate_past_neighbors_def started_def split: option.split)
qed

lemma accepted_state:
  assumes "world_ok C valid_key me W" and "state_ok valid_key me W nb"
    and "distinct (map agr_key agrs)" and "\<forall>agr \<in> set agrs. \<not> signature_invalid W agr"
  shows "\<exists>res cpms targets db. acceptor_handle (nw_env W) (nb_database nb) agrs src md (nb_pass_targets nb) =
      Some (res, cpms, targets, db) \<and> state_ok valid_key me W (nb\<lparr>nb_database := db, nb_pass_targets := targets\<rparr>)"
proof -
  note S = state_okD [OF assms(2)]
  from acceptor_handle_run [OF S(1) world_okD(2) [OF assms(1)] S(3) assms(3)] obtain res cpms targets db where
    run: "acceptor_handle (nw_env W) (nb_database nb) agrs src md (nb_pass_targets nb) = Some (res, cpms, targets, db)"
    "wf_db db" "db_evolves (nb_database nb) db" "targets_past (nw_env W) targets" by blast
  have agrs: "\<forall>agr \<in> set agrs. valid_key (agr_key agr)"
    using assms(4) world_okD(8) [OF assms(1)] unfolding signature_invalid_def by blast
  have "fset (keys db) \<subseteq> fset (keys (nb_database nb)) \<union> agr_key ` set agrs"
    using acceptor_handle_adds [OF run(1)] by (simp add: adds_only_def)
  with agrs assms(2) have "\<forall>k \<in> fset (keys db). valid_key k" unfolding state_ok_def by blast
  with run assms(2) show ?thesis
    by (auto simp: state_ok_def db_evolves_def intro!: exI [of _ res] exI [of _ cpms])
qed

lemma handle_agrs_run:
  assumes "world_ok C valid_key me W" and "state_ok valid_key me W nb" and "started nb"
    and "distinct (map agr_key agrs)" and "\<forall>agr \<in> set agrs. \<not> signature_invalid W agr"
  shows "handles valid_key me W (handle_agrs W agrs src nb)"
proof -
  let ?md = "\<lparr>nmd_connection_progress_peers = get_peer_addrs (nb_overall_connection_status nb),
        nmd_db_patch_size = nb_db_patch_size nb, nmd_user_exit_preferences_opt = Some (nb_user_exit_preferences nb)\<rparr>"
  from accepted_state [OF assms(1,2,4,5)] obtain res cpms targets db where
    run: "acceptor_handle (nw_env W) (nb_database nb) agrs src ?md (nb_pass_targets nb) = Some (res, cpms, targets, db)"
    and ok: "state_ok valid_key me W (nb\<lparr>nb_database := db, nb_pass_targets := targets\<rparr>)" by blast
  let ?nb = "nb\<lparr>nb_database := db, nb_pass_targets := targets\<rparr>"
  have st: "started ?nb" using assms(3) by simp
  obtain uep where uep: "refresh_db_countries W ?nb = Some (?nb\<lparr>nb_user_exit_preferences := uep\<rparr>)"
    using refresh_run [OF assms(1) ok] by blast
  have ok': "state_ok valid_key me W (?nb\<lparr>nb_user_exit_preferences := uep\<rparr>)" using ok by simp
  have st': "started (?nb\<lparr>nb_user_exit_preferences := uep\<rparr>)" using st by simp
  show ?thesis
  proof (cases res)
    case Accepted
    from gossip_to_neighbors_run [OF assms(1) ok' st'] run uep Accepted show ?thesis
      by (auto simp: handle_agrs_def Let_def elim!: handlesE)
  next
    case (Reply g k na)
    from handle_gossip_reply_run [OF assms(1) st] obtain o1 where "handle_gossip_reply W ?nb g k na = Some o1" by blast
    moreover from handle_gossip_reply_run [OF assms(1) st'] obtain o2 where
      "handle_gossip_reply W (?nb\<lparr>nb_user_exit_preferences := uep\<rparr>) g k na = Some o2" by blast
    ultimately show ?thesis using run uep Reply ok ok' st st' by (simp add: handle_agrs_def Let_def)
  next
    case (Failed f k na)
    from handle_gossip_failed_run [OF assms(1) st] obtain o1 where "handle_gossip_failed W ?nb f k na = Some o1" by blast
    then show ?thesis using run Failed ok st by (simp add: handle_agrs_def Let_def)
  next
    case Ignored
    then show ?thesis using run ok st by (simp add: handle_agrs_def Let_def)
  next
    case (Ban reason)
    then show ?thesis using run ok st by (simp add: handle_agrs_def Let_def)
  qed
qed

lemma neighbor_keys_run:
  assumes "state_ok valid_key me W nb"
  shows "\<exists>ks. neighbor_keys nb = Some ks"
proof -
  obtain r where "root (nb_database nb) = Some r" using wf_db_root [OF state_okD(1) [OF assms]] by blast
  then show ?thesis by (simp add: neighbor_keys_def)
qed

lemma handle_gossip_agrs_run:
  assumes "world_ok C valid_key me W" and "state_ok valid_key me W nb" and "started nb"
    and "distinct (map agr_key agrs)" and "\<forall>agr \<in> set agrs. \<not> signature_invalid W agr"
  shows "handles valid_key me W (handle_gossip_agrs W agrs src nb)"
proof -
  obtain before where before: "neighbor_keys nb = Some before" using neighbor_keys_run [OF assms(2)] by blast
  from handle_agrs_run [OF assms] obtain o1 nb1 where
    1: "handle_agrs W agrs src nb = Some (o1, nb1)" "state_ok valid_key me W nb1" "started nb1" by (rule handlesE)
  obtain ks where ks: "neighbor_keys nb1 = Some ks" using neighbor_keys_run [OF 1(2)] by blast
  obtain o2 where 2: "curate_past_neighbors W nb1 before ks = Some o2"
    using curate_run [OF assms(1) 1(2,3) ks] by blast
  from check_connectedness_run [OF assms(1) 1(2,3)] obtain o3 nb2 where
    "check_connectedness W nb1 = Some (o3, nb2)" "state_ok valid_key me W nb2" "started nb2" by (rule handlesE)
  with before 1 ks 2 show ?thesis by (simp add: handle_gossip_agrs_def handle_database_changes_def)
qed

text \<open>The records of a Gossip that decode, in order.\<close>

definition decoded :: "'p neighborhood_world \<Rightarrow> gossip_0v1 \<Rightarrow> accessible_gossip_record list" where
  "decoded W g = List.map_filter (\<lambda>gnr. case agr_of_gnr (nw_env W) gnr of Inr agr \<Rightarrow> Some agr | Inl _ \<Rightarrow> None) (node_records g)"

definition authentic :: "'p neighborhood_world \<Rightarrow> gossip_0v1 \<Rightarrow> bool" where
  "authentic W g \<longleftrightarrow> (\<forall>gnr \<in> set (node_records g). \<exists>agr. agr_of_gnr (nw_env W) gnr = Inr agr \<and> \<not> signature_invalid W agr)"

lemma decoded_length:
  "length (List.map_filter (\<lambda>x. case f x of Inr y \<Rightarrow> Some y | Inl _ \<Rightarrow> None) xs) < length xs \<longleftrightarrow>
     (\<exists>x \<in> set xs. \<exists>e. f x = Inl e)"
proof (induction xs)
  case (Cons x xs)
  have "length (List.map_filter (\<lambda>x. case f x of Inr y \<Rightarrow> Some y | Inl _ \<Rightarrow> None) xs) \<le> length xs"
    by (induction xs) (auto simp: map_filter_simps split: sum.split)
  with Cons show ?case by (cases "f x") (auto simp: map_filter_simps)
qed (simp add: map_filter_simps)

lemma decoded_set: "agr \<in> set (decoded W g) \<longleftrightarrow> (\<exists>gnr \<in> set (node_records g). agr_of_gnr (nw_env W) gnr = Inr agr)"
  by (force simp: decoded_def List.map_filter_def split: sum.splits)

lemma handle_gossip_authentic:
  "handle_gossip W g src nb = (if authentic W g then handle_gossip_agrs W (decoded W g) src nb else Some ([], nb))"
proof (cases "\<exists>gnr \<in> set (node_records g). \<exists>e. agr_of_gnr (nw_env W) gnr = Inl e")
  case True
  then obtain gnr where "gnr \<in> set (node_records g)" "agr_of_gnr (nw_env W) gnr = Inl ()" by auto
  then have "\<not> authentic W g" by (auto simp: authentic_def intro!: bexI [of _ gnr])
  with True show ?thesis by (simp add: handle_gossip_def Let_def decoded_length)
next
  case False
  have inr: "\<exists>agr. agr_of_gnr (nw_env W) gnr = Inr agr" if "gnr \<in> set (node_records g)" for gnr
    using False that by (cases "agr_of_gnr (nw_env W) gnr") auto
  have "authentic W g \<longleftrightarrow> \<not> (\<exists>agr \<in> set (decoded W g). signature_invalid W agr)"
  proof
    assume auth: "authentic W g"
    show "\<not> (\<exists>agr \<in> set (decoded W g). signature_invalid W agr)"
      using auth unfolding authentic_def by (fastforce simp: decoded_set)
  next
    assume "\<not> (\<exists>agr \<in> set (decoded W g). signature_invalid W agr)"
    then show "authentic W g" unfolding authentic_def using inr decoded_set by metis
  qed
  moreover have "\<not> length (decoded W g) < length (node_records g)"
    unfolding decoded_def decoded_length using False .
  ultimately show ?thesis by (simp add: handle_gossip_def Let_def flip: decoded_def)
qed

end
