(* ===== verification/Actor_Messages.thy ===== *)
theory Actor_Messages
  imports Actor_Gossip
begin

text \<open>
  The whole Neighborhood actor: every message it handles, in any order. An actor that was created, bound and
  started keeps its invariant and does not panic, as long as the messages are of the kind that the code
  expects; the expectations are spelled out, one for each message.
\<close>

section \<open>What the code expects of a message\<close>

fun message_ok :: "public_key \<Rightarrow> 'p neighborhood_world \<Rightarrow> neighborhood \<Rightarrow> neighborhood_message \<Rightarrow> bool" where
  "message_ok me W nb StartMessage \<longleftrightarrow> (nb_database_connected nb \<or> nw_database_opens W) \<and> nw_persisted_min_hops W \<noteq> None \<and>
     (\<forall>nd \<in> set (iter_initial_node_descriptors (nb_overall_connection_status nb)). nd_node_addr_opt nd \<noteq> None)"
| "message_ok me W nb (NewPublicIp ip) \<longleftrightarrow> (\<exists>r. root (nb_database nb) = Some r \<and> has_node_addr r)"
| "message_ok me W nb (ConfigChangeMsg (UpdateWallets w)) \<longleftrightarrow> usable_wallet (cw_wallet_ops (nw_cores W)) (Some w)"
| "message_ok me W nb (ConfigChangeMsg (UpdatePassword pw)) \<longleftrightarrow> nb_database_connected nb"
| "message_ok me W nb (RouteQueryMessage msg) \<longleftrightarrow> rqm_return_component_opt msg \<noteq> None"
| "message_ok me W nb (GossipReceived g src) \<longleftrightarrow> (authentic W g \<longrightarrow> distinct (map agr_key (decoded W g)))"
| "message_ok me W nb (GossipFailureReceived f src) \<longleftrightarrow>
     (\<exists>nd \<in> set (iter_initial_node_descriptors (nb_overall_connection_status nb)). \<exists>na.
        nd_node_addr_opt nd = Some na \<and> na_ip_addr na = sa_ip src)"
| "message_ok me W nb (RemoveNeighborMessage k) \<longleftrightarrow> k \<noteq> me"
| "message_ok me W nb (ConnectionProgressMessage msg) \<longleftrightarrow>
     (\<forall>i. get_connection_progress_to_modify (nb_overall_connection_status nb) msg = Inr i \<longrightarrow>
        (\<exists>t. stage_step (cp_connection_stage (ocs_progress (nb_overall_connection_status nb) ! i)) (cpm_event msg) t))"
| "message_ok me W nb (UpdateNodeRecordMetadataMessage k hostname) \<longleftrightarrow> node_by_key (nb_database nb) k \<noteq> None"
| "message_ok me W nb (StreamShutdownMsg peer_addr stream_type) \<longleftrightarrow> stream_type = Clandestine \<and>
     (\<forall>n. node_by_ip (nb_database nb) (sa_ip peer_addr) = Some n \<longrightarrow> public_key n \<noteq> me)"
| "message_ok me W nb _ \<longleftrightarrow> True"

section \<open>Each handler\<close>

lemma same_domain:
  assumes "state_ok valid_key me W nb" and "wf_db db" and "ndb_this_node db = me"
    and "\<And>k. (node_by_key db k = None) = (node_by_key (nb_database nb) k = None)"
  shows "state_ok valid_key me W (nb\<lparr>nb_database := db\<rparr>)"
  by (rule state_ok_shrink [OF assms(1-3)]) (use assms(4) in \<open>auto, metis option.exhaust option.discI\<close>)

lemma start_run:
  assumes "world_ok C valid_key me W" and "state_ok valid_key me W nb" and "nb_bound nb" and "message_ok me W nb StartMessage"
  shows "handles valid_key me W (handle_start_message W nb)"
proof -
  let ?nb1 = "nb\<lparr>nb_database_connected := True\<rparr>"
  have 1: "connect_database W nb = Some ?nb1" using assms(4) by (auto simp: connect_database_def)
  obtain h where h: "nw_persisted_min_hops W = Some h" using assms(4) by auto
  let ?nb2 = "?nb1\<lparr>nb_min_hops := h\<rparr>"
  have 2: "validate_or_replace_min_hops_value W ?nb1 = Some ?nb2"
    using h by (auto simp: validate_or_replace_min_hops_value_def)
  have st: "started ?nb2" using assms(3) by (simp add: started_def)
  obtain r where "root (nb_database nb) = Some r" using wf_db_root [OF state_okD(1) [OF assms(2)]] by blast
  from root_builder_node [OF state_okD(1) [OF assms(2)] this] this
  obtain g where g: "produce_debut (nb_database nb) = Some g" by (simp add: produce_debut_def)
  have each: "\<exists>o1. send_debut_gossip_to_descriptor W ?nb2 g nd = Some o1"
    if "nd \<in> set (iter_initial_node_descriptors (nb_overall_connection_status ?nb2))" for nd
  proof -
    from that assms(4) obtain na where na: "nd_node_addr_opt nd = Some na" by fastforce
    obtain m where m: "gossip_message W g = Some m" using gossip_message_run [OF assms(1)] by blast
    obtain o1 where "send_no_lookup_package W ?nb2 m (nd_encryption_public_key nd) na = Some o1"
      using send_no_lookup_run [OF st] by blast
    with na m show ?thesis by (simp add: send_debut_gossip_to_descriptor_def)
  qed
  from those_map_run [of _ "send_debut_gossip_to_descriptor W ?nb2 g", OF each] obtain os where "those (map (send_debut_gossip_to_descriptor W ?nb2 g)
     (iter_initial_node_descriptors (nb_overall_connection_status ?nb2))) = Some os" by blast
  then have "\<exists>outs. send_debut_gossip_to_all_initial_descriptors W ?nb2 = Some outs"
    using g by (simp add: send_debut_gossip_to_all_initial_descriptors_def)
  with 1 2 st assms(2) show ?thesis by (auto simp: handle_start_message_def)
qed

lemma new_public_ip_ok:
  assumes "state_ok valid_key me W nb" and "started nb" and "message_ok me W nb (NewPublicIp ip)"
  shows "handles valid_key me W (handle_new_public_ip W ip nb)"
proof -
  note S = state_okD [OF assms(1)]
  from assms(3) obtain r na where r: "root (nb_database nb) = Some r" "nrm_node_addr_opt (nr_metadata r) = Some na"
    by (auto simp: has_node_addr_def)
  from new_public_ip_run [OF S(1) r] obtain db where db: "new_public_ip ip (nb_database nb) = Some db" "wf_db db"
    "ndb_this_node db = ndb_this_node (nb_database nb)"
    and look: "\<And>k. node_by_key db k = (if k = ndb_this_node (nb_database nb)
       then Some (put_node_addr (Some (node_addr_new ip (na_ports na))) r) else node_by_key (nb_database nb) k)" by blast
  let ?loc = "get_node_location (nw_env W) (Some ip)"
  let ?f = "\<lambda>r. Some (r\<lparr>nr_metadata := (nr_metadata r)\<lparr>nrm_node_location_opt := ?loc\<rparr>,
          nr_inner := (nr_inner r)\<lparr>nri_country_code_opt := map_option nl_country_code ?loc\<rparr>\<rparr>)"
  have "root db = Some (put_node_addr (Some (node_addr_new ip (na_ports na))) r)" using look db(3) by (simp add: root_def)
  then obtain db' where db': "root_mut ?f db = Some db'" by (simp add: root_mut_def)
  have wf: "wf_db db'" by (rule wf_db_root_mut [OF db(2) db']) (auto simp: same_place_def)
  have this': "ndb_this_node db' = me" using db' db(3) S(2) by (auto simp: root_mut_def put_node_def split: bind_splits)
  have dom: "(node_by_key db' k = None) = (node_by_key (nb_database nb) k = None)" for k
    using db' look [of k] r(1) db(3) by (auto simp: root_mut_def put_node_def node_by_key_def root_def split: bind_splits if_splits)
  from same_domain [OF assms(1) wf this' dom] assms(2) r db(1) db' show ?thesis
    by (simp add: handle_new_public_ip_def handle_new_ip_location_def node_addr_opt_def)
qed

lemma map_nodes_look [simp]:
  "node_by_key (map_nodes f db) k = map_option f (node_by_key db k)" "ndb_this_node (map_nodes f db) = ndb_this_node db"
  "ndb_by_ip_addr (map_nodes f db) = ndb_by_ip_addr db"
  by (simp_all add: map_nodes_def node_by_key_def)

text \<open>A change of records that leaves what the other records see of them.\<close>

definition stays_put :: "(node_record \<Rightarrow> node_record) \<Rightarrow> bool" where
  "stays_put f \<longleftrightarrow> (\<forall>n. nr_inner (f n) = nr_inner n \<and>
     nrm_node_addr_opt (nr_metadata (f n)) = nrm_node_addr_opt (nr_metadata n))"

lemma wf_db_map_nodes:
  assumes "wf_db db" and "stays_put f"
  shows "wf_db (map_nodes f db)"
proof -
  have f: "nr_inner (f n) = nr_inner n" "has_node_addr (f n) = has_node_addr n"
    "nrm_node_addr_opt (nr_metadata (f n)) = nrm_node_addr_opt (nr_metadata n)" for n
    using assms(2) by (simp_all add: stays_put_def has_node_addr_def)
  obtain r where r: "root db = Some r" "root_sound db r" using assms(1) by (auto simp: wf_db_def)
  have "root_sound (map_nodes f db) (f r)"
    using r(2) by (fastforce simp: root_sound_def no_self_neighbor_def f)
  moreover have "root (map_nodes f db) = Some (f r)" using r(1) by (simp add: root_def)
  moreover have "keys_consistent (map_nodes f db)" using assms(1) by (auto simp: wf_db_def keys_consistent_def f)
  moreover have "ips_consistent (map_nodes f db)"
    using assms(1) by (fastforce simp: wf_db_def ips_consistent_def f)
  ultimately show ?thesis by (simp add: wf_db_def)
qed

lemma stays_put_undesirability [simp]:
  "stays_put (put_country_undesirability u)" "stays_put (assign_nodes_country_undesirability uep)"
  by (auto simp: stays_put_def assign_nodes_country_undesirability_eq split: option.split)

lemma set_undesirability_ok:
  assumes "state_ok valid_key me W nb"
  shows "state_ok valid_key me W (set_country_undesirability_and_exit_countries locs nb)"
proof -
  have "state_ok valid_key me W (nb\<lparr>nb_user_exit_preferences := uep, nb_database := map_nodes f (nb_database nb)\<rparr>)"
    if "stays_put f" for f uep
    by (rule state_ok_shrink [OF assms wf_db_map_nodes [OF state_okD(1) [OF assms] that]])
      (use state_okD(2) [OF assms] in auto)
  from this [of _ "nb_user_exit_preferences nb"] this show ?thesis
    by (simp add: set_country_undesirability_and_exit_countries_def)
qed

lemma set_undesirability_started [simp]:
  "started (set_country_undesirability_and_exit_countries locs nb) = started nb"
  by (simp add: set_country_undesirability_and_exit_countries_def started_def)

lemma config_change_run:
  assumes "world_ok C valid_key me W" and "state_ok valid_key me W nb" and "started nb"
    and "message_ok me W nb (ConfigChangeMsg change)"
  shows "handles valid_key me W (handle_config_change_msg W change nb)"
proof (cases change)
  case (UpdateWallets w)
  then show ?thesis using assms(2-4) by (simp add: state_ok_def started_def)
next
  case (UpdatePassword pw)
  then show ?thesis using assms(2-4) by (simp add: started_def)
next
  case (UpdateMinHops h)
  let ?nb1 = "set_min_hops_and_patch_size h nb"
  have ok1: "state_ok valid_key me W ?nb1" "started ?nb1"
    using assms(2,3) by (simp_all add: set_min_hops_and_patch_size_def)
  obtain o1 ocs where stage: "update_stage_of ConnectedToNeighbor ?nb1 = Some (o1, ?nb1\<lparr>nb_overall_connection_status := ocs\<rparr>)"
    using update_stage_run [OF ok1(2)] by blast
  define nb2 where "nb2 = (if can_make_routes (nb_overall_connection_status ?nb1)
      then ?nb1\<lparr>nb_overall_connection_status := ocs\<rparr> else ?nb1)"
  have ok2: "state_ok valid_key me W nb2" "started nb2" using ok1 by (simp_all add: nb2_def)
  obtain uep where uep: "refresh_db_countries W nb2 = Some (nb2\<lparr>nb_user_exit_preferences := uep\<rparr>)"
    using refresh_run [OF assms(1) ok2(1)] by blast
  define nb4 where "nb4 = (case uep_locations_opt uep of
        Some locs \<Rightarrow> set_country_undesirability_and_exit_countries locs
          (put_preferences (snd (synchronize_each locs uep)) (nb2\<lparr>nb_user_exit_preferences := uep\<rparr>))
      | None \<Rightarrow> nb2\<lparr>nb_user_exit_preferences := uep\<rparr>)"
  have ok4: "state_ok valid_key me W nb4" "started nb4"
    using ok2 by (auto simp: nb4_def put_preferences_def intro!: set_undesirability_ok split: option.split)
  have 1: "(if can_make_routes (nb_overall_connection_status ?nb1)
          then update_stage_of ConnectedToNeighbor ?nb1 else Some ([], ?nb1)) =
      Some (if can_make_routes (nb_overall_connection_status ?nb1) then o1 else [], nb2)"
    using stage by (simp add: nb2_def)
  obtain o5 nb5 where "search_for_a_new_route W nb4 = Some (o5, nb5)" "state_ok valid_key me W nb5" "started nb5"
    using search_run [OF assms(1) ok4] by (rule handlesE)
  then show ?thesis unfolding UpdateMinHops handle_config_change_msg.simps Let_def 1 using uep
    by (cases "uep_locations_opt uep") (simp_all add: nb4_def)
qed

lemma exit_location_run:
  assumes "world_ok C valid_key me W" and "state_ok valid_key me W nb" and "started nb"
  shows "handles valid_key me W (handle_exit_location_message W message client_id context_id nb)"
proof -
  obtain uep where uep: "refresh_db_countries W nb = Some (nb\<lparr>nb_user_exit_preferences := uep\<rparr>)"
    using refresh_run [OF assms(1,2)] by blast
  have "\<exists>l m u. extract_exit_locations_from_message W message nb = Some ((l, m), put_preferences u nb)"
    using uep by (auto simp: extract_exit_locations_from_message_def Let_def put_preferences_def split: prod.split)
  then obtain l m u where ex: "extract_exit_locations_from_message W message nb = Some ((l, m), put_preferences u nb)"
    by blast
  have step: "state_ok valid_key me W nb4 \<Longrightarrow> started nb4 \<Longrightarrow>
      handles valid_key me W (do { outs \<leftarrow> send nb4 o1; ret (outs, nb4) })" for nb4 o1
    by (simp add: send_started)
  show ?thesis
    unfolding handle_exit_location_message_def ex Let_def
    using assms(2,3) by (auto simp: put_preferences_def intro!: step set_undesirability_ok)
qed


lemma removed_ok:
  assumes "state_ok valid_key me W nb" and "k \<noteq> me"
  shows "\<exists>res db. remove_neighbor k (nb_database nb) = Some (res, db) \<and> state_ok valid_key me W (nb\<lparr>nb_database := db\<rparr>) \<and>
    (node_by_key (nb_database nb) k \<noteq> None \<longrightarrow> \<not> Sum_Type.isl res)"
proof (cases "node_by_key (nb_database nb) k")
  case None
  then show ?thesis using assms(1) by (simp add: remove_neighbor_def)
next
  case (Some n)
  note S = state_okD [OF assms(1)]
  have k: "k \<noteq> ndb_this_node (nb_database nb)" using S(2) assms(2) by simp
  obtain r where r: "root (nb_database nb) = Some r" using wf_db_root [OF S(1)] by blast
  from remove_neighbor_run [OF S(1) Some r k] obtain db where
    db: "remove_neighbor k (nb_database nb) = Some (Inr (has_half_neighbor r k), db)"
    "\<And>k'. node_by_key db k' = (if k' = ndb_this_node (nb_database nb)
        then Some ((if has_half_neighbor r k then increment_version else id)
               (put_neighbors (nri_neighbors (nr_inner r) |-| {|k|}) r))
        else if k' = k then Some (unset_node_addr n) else node_by_key (nb_database nb) k')"
    "ndb_this_node db = ndb_this_node (nb_database nb)" by blast
  have wf: "wf_db db" using wf_db_remove_neighbor [OF S(1) k] db(1) by (metis option.inject prod.inject)
  have "state_ok valid_key me W (nb\<lparr>nb_database := db\<rparr>)"
    by (rule same_domain [OF assms(1) wf]) (use db(2,3) S(2) r Some in \<open>auto simp: root_def\<close>)
  with db(1) show ?thesis by simp
qed

lemma remove_neighbor_message_run:
  assumes "world_ok C valid_key me W" and "state_ok valid_key me W nb" and "started nb" and "k \<noteq> me"
  shows "handles valid_key me W (handle_remove_neighbor_message W k nb)"
proof -
  obtain res db where db: "remove_neighbor k (nb_database nb) = Some (res, db)" "state_ok valid_key me W (nb\<lparr>nb_database := db\<rparr>)"
    using removed_ok [OF assms(2,4)] by blast
  have "handles valid_key me W (gossip_to_neighbors W (nb\<lparr>nb_database := db\<rparr>))"
    using gossip_to_neighbors_run [OF assms(1) db(2)] assms(3) by simp
  with db assms(3) show ?thesis by (cases res) (simp_all add: handle_remove_neighbor_message_def Let_def)
qed

lemma stream_shutdown_run:
  assumes "world_ok C valid_key me W" and "state_ok valid_key me W nb" and "started nb"
    and "message_ok me W nb (StreamShutdownMsg peer_addr stream_type)"
  shows "handles valid_key me W (handle_stream_shutdown_msg W peer_addr stream_type nb)"
proof (cases "node_by_ip (nb_database nb) (sa_ip peer_addr)")
  case None
  then show ?thesis using assms by (simp add: handle_stream_shutdown_msg_def)
next
  case (Some n)
  with assms(4) have k: "public_key n \<noteq> me" by simp
  from Some obtain k' where "node_by_key (nb_database nb) k' = Some n"
    by (auto simp: node_by_ip_def split: option.splits bind_splits)
  then have n: "node_by_key (nb_database nb) (public_key n) = Some n"
    using wf_db_key [OF state_okD(1) [OF assms(2)]] by simp
  from removed_ok [OF assms(2) k] n obtain res db where
    db: "remove_neighbor (public_key n) (nb_database nb) = Some (Inr res, db)" "state_ok valid_key me W (nb\<lparr>nb_database := db\<rparr>)"
    by (metis Inl_Inr_False option.discI sum.collapse(2))
  have "handles valid_key me W (gossip_to_neighbors W (nb\<lparr>nb_database := db\<rparr>))"
    using gossip_to_neighbors_run [OF assms(1) db(2)] assms(3) by simp
  with Some db assms(3,4) show ?thesis
    by (cases res) (simp_all add: handle_stream_shutdown_msg_def remove_neighbor_at_def)
qed

lemma connection_progress_run:
  assumes "state_ok valid_key me W nb" and "started nb" and "message_ok me W nb (ConnectionProgressMessage msg)"
  shows "handles valid_key me W (handle_connection_progress_message msg nb)"
proof (cases "get_connection_progress_to_modify (nb_overall_connection_status nb) msg")
  case (Inl e)
  then show ?thesis using assms by (simp add: handle_connection_progress_message_def)
next
  case (Inr i)
  let ?ocs = "nb_overall_connection_status nb"
  from assms(3) Inr obtain cp where cp: "update_connection_stage (cpm_event msg) (ocs_progress ?ocs ! i) = Some cp"
    using stage_step_total_or_panic by fastforce
  let ?ocs' = "?ocs\<lparr>ocs_progress := (ocs_progress ?ocs)[i := cp]\<rparr>"
  have m: "modify_progress (update_connection_stage (cpm_event msg)) i ?ocs = Some ?ocs'"
    using cp by (simp add: modify_progress_def)
  let ?nb = "nb\<lparr>nb_overall_connection_status := ?ocs'\<rparr>"
  have ok: "state_ok valid_key me W ?nb" "started ?nb" using assms by simp_all
  obtain o1 ocs1 where stage: "update_stage_of ConnectedToNeighbor ?nb = Some (o1, ?nb\<lparr>nb_overall_connection_status := ocs1\<rparr>)"
    using update_stage_run [OF ok(2)] by blast
  have ask: "\<exists>o2. send_ask_about_debut_gossip_message (cpm_peer_addr msg) ?nb = Some o2"
    if "cpm_event msg = TcpConnectionSuccessful"
  proof -
    from Inr that have i: "get_connection_progress_by_ip ?ocs (cpm_peer_addr msg) = Inr i"
      by (auto simp: get_connection_progress_to_modify_def split: sum.splits)
    note i' = get_connection_progress_by_ip_Inr [OF i]
    have "cp_current_peer_addr cp = cpm_peer_addr msg"
      using update_connection_stage_step [OF cp] that i' by simp
    then have "\<exists>j. get_connection_progress_by_ip ?ocs' (cpm_peer_addr msg) = Inr j"
      using i' by (auto simp: get_connection_progress_by_ip_def position_None split: option.split)
        (metis length_list_update nth_list_update_eq nth_mem)
    then show ?thesis by (auto simp: send_ask_about_debut_gossip_message_def)
  qed
  show ?thesis
    using Inr m ok stage ask by (cases "cpm_event msg") (auto simp: handle_connection_progress_message_def)
qed

lemma ask_about_debut_run:
  assumes "state_ok valid_key me W nb" and "started nb"
  shows "handles valid_key me W (handle_ask_about_debut_gossip_message prev nb)"
proof -
  have "\<exists>ocs'. modify_progress (update_connection_stage NoGossipResponseReceivedEvent) i ocs = Some ocs'" for i ocs
    by (auto simp: modify_progress_def update_stage_def split: sum.split)
  then show ?thesis using assms
    by (auto simp: handle_ask_about_debut_gossip_message_def split: sum.split) (metis bind.bind_lunit handles_ret started_cong(3) state_ok_frame(2))
qed

lemma gossip_failure_run:
  assumes "state_ok valid_key me W nb" and "started nb" and "message_ok me W nb (GossipFailureReceived f src)"
  shows "handles valid_key me W (handle_gossip_failure src nb)"
proof -
  let ?P = "\<lambda>nd. case nd_node_addr_opt nd of None \<Rightarrow> False | Some node_addr \<Rightarrow> na_ip_addr node_addr = sa_ip src"
  let ?nds = "iter_initial_node_descriptors (nb_overall_connection_status nb)"
  from assms(3) obtain nd na where "nd \<in> set ?nds" "nd_node_addr_opt nd = Some na" "na_ip_addr na = sa_ip src" by auto
  then have "position ?P ?nds \<noteq> None" unfolding position_None by (auto intro!: bexI [of _ nd])
  then obtain i where i: "position ?P ?nds = Some i" by blast
  then have "i < length (ocs_progress (nb_overall_connection_status nb))"
    using position_Some [OF i] by (simp add: iter_initial_node_descriptors_def)
  with i assms show ?thesis by (simp add: handle_gossip_failure_def ocs_remove_def)
qed

lemma update_metadata_run:
  assumes "state_ok valid_key me W nb" and "started nb" and "node_by_key (nb_database nb) k \<noteq> None"
  shows "handles valid_key me W (handle_update_node_record_metadata k hostname nb)"
proof -
  from assms(3) obtain r where r: "node_by_key (nb_database nb) k = Some r" by blast
  note S = state_okD [OF assms(1)]
  let ?r = "r\<lparr>nr_metadata := (nr_metadata r)\<lparr>nrm_unreachable_hosts := finsert hostname (nrm_unreachable_hosts (nr_metadata r))\<rparr>\<rparr>"
  have "wf_db (put_node k ?r (nb_database nb))"
  proof (cases "k = ndb_this_node (nb_database nb)")
    case True
    then show ?thesis using wf_db_root_unchanged_neighbors [OF S(1), of r ?r] r by (simp add: root_def same_place_def)
  next
    case False
    show ?thesis by (rule wf_db_replace [OF S(1) r _ False]) (simp add: same_place_def)
  qed
  then have "state_ok valid_key me W (nb\<lparr>nb_database := put_node k ?r (nb_database nb)\<rparr>)"
    by (rule same_domain [OF assms(1)]) (use r S(2) in simp_all)
  with r assms(2) show ?thesis by (simp add: handle_update_node_record_metadata_def)
qed

lemma gossip_run:
  assumes "world_ok C valid_key me W" and "state_ok valid_key me W nb" and "started nb"
    and "message_ok me W nb (GossipReceived g src)"
  shows "handles valid_key me W (handle_gossip W g src nb)"
proof (cases "authentic W g")
  case True
  then have "\<forall>agr \<in> set (decoded W g). \<not> signature_invalid W agr"
    unfolding authentic_def by (fastforce simp: decoded_set)
  with handle_gossip_agrs_run [OF assms(1-3)] True assms(4) show ?thesis by (simp add: handle_gossip_authentic)
next
  case False
  then show ?thesis using assms(2,3) by (simp add: handle_gossip_authentic)
qed

lemma dispatch_run:
  assumes "world_ok C valid_key me W" and "state_ok valid_key me W nb" and "started nb" and "message_ok me W nb msg"
  shows "handles valid_key me W (dispatch W msg nb)"
proof (cases msg)
  case BindMessage
  then show ?thesis using assms(2,3) by (simp add: handle_bind_message_def started_def)
next
  case StartMessage
  then show ?thesis using start_run [OF assms(1,2)] assms(3,4) by (simp add: started_def)
next
  case (NewPublicIp ip)
  then show ?thesis using new_public_ip_ok [OF assms(2,3)] assms(4) by simp
next
  case (ConfigChangeMsg change)
  then show ?thesis using config_change_run [OF assms(1-3)] assms(4) by simp
next
  case (DispatcherNodeQueryMessage query)
  then show ?thesis using assms(2,3) by (simp add: handle_dispatcher_node_query_def Let_def)
next
  case (RouteQueryMessage m)
  with assms(4) have "rqm_return_component_opt m \<noteq> None" by simp
  from route_query_run [OF assms(1,2) this] RouteQueryMessage assms(2,3) show ?thesis by auto
next
  case (GossipReceived g src)
  then show ?thesis using gossip_run [OF assms(1-3)] assms(4) by simp
next
  case (GossipFailureReceived f src)
  then show ?thesis using gossip_failure_run [OF assms(2,3)] assms(4) by simp
next
  case (RemoveNeighborMessage k)
  then show ?thesis using remove_neighbor_message_run [OF assms(1-3)] assms(4) by simp
next
  case (ConnectionProgressMessage m)
  then show ?thesis using connection_progress_run [OF assms(2,3)] assms(4) by simp
next
  case (AskAboutDebutGossipMessage prev)
  then show ?thesis using ask_about_debut_run [OF assms(2,3)] by simp
next
  case (UpdateNodeRecordMetadataMessage k hostname)
  then show ?thesis using update_metadata_run [OF assms(2,3)] assms(4) by simp
next
  case (StreamShutdownMsg peer_addr stream_type)
  then show ?thesis using stream_shutdown_run [OF assms(1-3)] assms(4) by simp
next
  case (UiSetExitLocationRequest message client_id context_id)
  then show ?thesis using exit_location_run [OF assms(1-3)] by simp
next
  case (UiConnectionStatusRequest client_id context_id)
  then show ?thesis using assms(2,3) by (simp add: handle_connection_status_message_def send_started)
next
  case UiShutdownRequest
  then show ?thesis using assms(2,3) by (simp add: handle_shutdown_order_def)
qed

section \<open>A running actor\<close>

text \<open>Time goes on between two messages, and the wallets' cryptography stays.\<close>

definition later :: "'p neighborhood_world \<Rightarrow> 'p neighborhood_world \<Rightarrow> bool" where
  "later W W' \<longleftrightarrow> env_system_time (nw_env W) \<le> env_system_time (nw_env W') \<and>
     cw_wallet_ops (nw_cores W') = cw_wallet_ops (nw_cores W)"

text \<open>The states of an actor that is created, bound and started, and then receives messages in any order.\<close>

inductive actor_reachable ::
  "(public_key \<Rightarrow> cryptde) \<Rightarrow> (public_key \<Rightarrow> bool) \<Rightarrow> public_key \<Rightarrow> 'p neighborhood_world \<Rightarrow> neighborhood \<Rightarrow> bool"
  for C :: "public_key \<Rightarrow> cryptde" and valid_key :: "public_key \<Rightarrow> bool" and me :: public_key where
  actor_begins: "actor_reachable C valid_key me W nb2"
    if "world_ok C valid_key me W" and "valid_key me" and "env_public_key (nw_env W) = me"
      and "usable_wallet (cw_wallet_ops (nw_cores W)) consuming_wallet_opt"
      and "neighborhood_new (nw_env W) mode min_hops earning consuming_wallet_opt chain pw = Some nb"
      and "dispatch W BindMessage nb = Some (outs1, nb1)"
      and "message_ok me W nb1 StartMessage" and "dispatch W StartMessage nb1 = Some (outs2, nb2)"
| actor_handles: "actor_reachable C valid_key me W' nb'"
    if "actor_reachable C valid_key me W nb" and "world_ok C valid_key me W'" and "later W W'"
      and "message_ok me W' nb msg" and "dispatch W' msg nb = Some (outs, nb')"

lemma state_ok_later:
  assumes "state_ok valid_key me W nb" and "later W W'"
  shows "state_ok valid_key me W' nb"
  using assms by (auto simp: state_ok_def later_def targets_past_def intro: order_trans)

lemma new_state_ok:
  assumes "world_ok C valid_key me W" and "valid_key me" and "env_public_key (nw_env W) = me"
    and "usable_wallet (cw_wallet_ops (nw_cores W)) w"
    and "neighborhood_new (nw_env W) mode min_hops earning w chain pw = Some nb"
  shows "state_ok valid_key me W nb"
proof -
  from database_new_run [OF world_okD(2) [OF assms(1)], of mode earning] obtain db where
    db: "database_new (nw_env W) mode earning = Some db" "wf_db db" "ndb_this_node db = me" "keys db = {|me|}"
    using assms(3) by metis
  with assms(2,4,5) show ?thesis
    by (auto simp: neighborhood_new_def Let_def state_ok_def split: bind_splits if_splits)
qed

lemma reachable_ok:
  assumes "actor_reachable C valid_key me W nb"
  shows "state_ok valid_key me W nb \<and> started nb"
  using assms
proof (induction rule: actor_reachable.induct)
  case (actor_begins W w mode min_hops earning chain pw nb outs1 nb1 outs2 nb2)
  have "state_ok valid_key me W nb" using actor_begins(1-5) by (rule new_state_ok)
  moreover have "nb1 = nb\<lparr>nb_bound := True\<rparr>" using actor_begins(6) by (simp add: handle_bind_message_def)
  ultimately have "handles valid_key me W (handle_start_message W nb1)"
    using start_run [OF actor_begins(1) _ _ actor_begins(7)] by simp
  then show ?case using actor_begins(8) by simp
next
  case (actor_handles W nb W' msg outs nb')
  have "handles valid_key me W' (dispatch W' msg nb)"
    using actor_handles(2) state_ok_later [OF _ actor_handles(3)] actor_handles(6) actor_handles(4) by (intro dispatch_run) auto
  then show ?case using actor_handles(5) by simp
qed

section \<open>An actor for the instances\<close>

text \<open>Node 0 of the sample, which is connected to Node 1 and receives new versions of the record of Node 1.\<close>

definition actor_inner :: "nat list \<Rightarrow> u32 \<Rightarrow> node_record_inner" where
  "actor_inner ns v = (sample_inner [1] (map (\<lambda>j. [of_nat j]) ns))\<lparr>nri_version := v\<rparr>"

definition actor_world :: "message_type neighborhood_world" where
  "actor_world = sample_world\<lparr>nw_env := sample_env\<lparr>
     env_verify_signature := (\<lambda>d s k. k \<noteq> [] \<and> sample_verify d s k),
     env_from_slice := (\<lambda>b. find (\<lambda>i. sample_to_vec i = Some b) [actor_inner [3] 1, actor_inner [0, 3] 2])\<rparr>\<rparr>"

definition actor_gossip :: "u32 \<Rightarrow> nat list \<Rightarrow> gossip_0v1" where
  "actor_gossip v ns = \<lparr>node_records = [\<lparr>gnr_signed_data = the (sample_to_vec (actor_inner ns v)),
     gnr_signature = 1 # the (sample_to_vec (actor_inner ns v)), gnr_node_addr_opt = Some (sample_addr 11)\<rparr>]\<rparr>"

definition established :: connection_progress where
  "established = \<lparr>cp_initial_node_descriptor = \<lparr>nd_blockchain = PulseMainnet, nd_encryption_public_key = [1],
     nd_node_addr_opt = Some (sample_addr 11)\<rparr>, cp_current_peer_addr = V4 11, cp_connection_stage = NeighborshipEstablished\<rparr>"

definition actor_sample :: neighborhood where
  "actor_sample = (sample_neighborhood sample_db)\<lparr>nb_overall_connection_status :=
     \<lparr>ocs_stage = ConnectedToNeighbor, ocs_progress = [established]\<rparr>\<rparr>"

lemma actor_world_ok: "world_ok (null_cryptde_of (\<lambda>_ _. [])) (\<lambda>k. k \<noteq> []) [0] actor_world"
proof -
  have "env_ok (nw_env actor_world)"
    using sample_env_ok by (simp add: env_ok_def actor_world_def sample_world_def)
  moreover have "cores_world_ok (nw_cores actor_world)"
    by (simp add: actor_world_def sample_world_def sample_cores_world_def cores_world_ok_def sample_hop_codec_ok sample_u32_codec_ok
        sample_message_codec_ok sample_lcp_codec_ok sample_wallet_ops_ok)
  ultimately show ?thesis
    using null.cryptde_network_axioms [of "\<lambda>_ _. []"]
    by (simp add: world_ok_def actor_world_def sample_world_def)
qed

lemma actor_sample_ok: "state_ok (\<lambda>k. k \<noteq> []) [0] actor_world actor_sample" "started actor_sample"
  using sample_db_wf sample_wallet_ops_ok
  by (auto simp: state_ok_def started_def actor_sample_def sample_neighborhood_def actor_world_def sample_world_def
      sample_cores_world_def usable_wallet_def sample_db_def keys_def)

lemma actor_sample_reachable: "\<exists>nb. actor_reachable (null_cryptde_of (\<lambda>_ _. [])) (\<lambda>k. k \<noteq> []) [0] actor_world nb"
proof -
  have E: "env_public_key (nw_env actor_world) = [0]" by (simp add: actor_world_def sample_world_def sample_env_def)
  obtain db where "database_new (nw_env actor_world) (Standard (sample_addr 10) [] zero_rate_pack) sample_wallet = Some db"
    using database_new_run [OF world_okD(2) [OF actor_world_ok]] by blast
  then have "\<exists>nb. neighborhood_new (nw_env actor_world) (Standard (sample_addr 10) [] zero_rate_pack) TwoHops sample_wallet
      None PulseMainnet None = Some nb \<and> ocs_progress (nb_overall_connection_status nb) = []"
    by (simp add: neighborhood_new_def Let_def ocs_new_def)
  then obtain nb where nb: "neighborhood_new (nw_env actor_world) (Standard (sample_addr 10) [] zero_rate_pack) TwoHops sample_wallet
      None PulseMainnet None = Some nb" "ocs_progress (nb_overall_connection_status nb) = []" by blast
  let ?nb1 = "nb\<lparr>nb_bound := True\<rparr>"
  have bind: "dispatch actor_world BindMessage nb = Some ([], ?nb1)" by (simp add: handle_bind_message_def)
  have wallet: "usable_wallet (cw_wallet_ops (nw_cores actor_world)) None" by (simp add: usable_wallet_def)
  have key: "[0 :: u8] \<noteq> []" by simp
  have start: "message_ok [0] actor_world ?nb1 StartMessage"
    using nb(2) by (simp add: actor_world_def sample_world_def iter_initial_node_descriptors_def)
  have "state_ok (\<lambda>k. k \<noteq> []) [0] actor_world ?nb1"
    using new_state_ok [OF actor_world_ok key E wallet nb(1)] by simp
  from start_run [OF actor_world_ok this _ start] obtain outs nb2 where
    "dispatch actor_world StartMessage ?nb1 = Some (outs, nb2)" by (auto elim: handlesE)
  from actor_begins [OF actor_world_ok key E wallet nb(1) bind start this] show ?thesis by blast
qed

lemma actor_gossip_ok: "distinct (map agr_key (decoded actor_world (actor_gossip 1 [3])))"
  by code_simp

section \<open>Properties\<close>

text \<open>
  C1. The Neighborhood actor is type safe: whatever messages it received since it was created, bound and
  started, it handles the next one without a panic and its state keeps the invariant, that is, the database is well-formed, it
  belongs to this Node, every key in it can be encrypted for, and the actor stays bound to the others.
\<close>

theorem reachable_actor_safe:
  assumes "actor_reachable C valid_key me W nb" and "world_ok C valid_key me W'" and "later W W'"
    and "message_ok me W' nb msg"
  shows "\<exists>outs nb'. dispatch W' msg nb = Some (outs, nb') \<and> actor_reachable C valid_key me W' nb' \<and>
    wf_db (nb_database nb') \<and> ndb_this_node (nb_database nb') = me \<and>
    (\<forall>k. k |\<in>| keys (nb_database nb') \<longrightarrow> valid_key k) \<and> nb_bound nb'"
proof -
  from reachable_ok [OF assms(1)] have "state_ok valid_key me W' nb" "started nb"
    using state_ok_later [OF _ assms(3)] by auto
  from dispatch_run [OF assms(2) this assms(4)] obtain outs nb' where
    run: "dispatch W' msg nb = Some (outs, nb')" "state_ok valid_key me W' nb'" "started nb'" by (rule handlesE)
  have "actor_reachable C valid_key me W' nb'" by (rule actor_handles [OF assms run(1)])
  with run show ?thesis by (auto simp: state_ok_def started_def)
qed

theorem reachable_actor_safe_witness:
  "\<exists>nb outs nb'. actor_reachable (null_cryptde_of (\<lambda>_ _. [])) (\<lambda>k. k \<noteq> []) [0] actor_world nb \<and>
     dispatch actor_world (GossipReceived (actor_gossip 1 [3]) (sample_source 11)) nb = Some (outs, nb') \<and>
     wf_db (nb_database nb')"
proof -
  obtain nb where nb: "actor_reachable (null_cryptde_of (\<lambda>_ _. [])) (\<lambda>k. k \<noteq> []) [0] actor_world nb"
    using actor_sample_reachable by blast
  have "later actor_world actor_world" by (simp add: later_def)
  moreover have "message_ok [0] actor_world nb (GossipReceived (actor_gossip 1 [3]) (sample_source 11))"
    using actor_gossip_ok by simp
  ultimately show ?thesis using reachable_actor_safe [OF nb actor_world_ok] nb by blast
qed

text \<open>
  C16. Gossip that has a record which cannot be decoded, or which is not signed by the key it names, is
  ignored as a whole: the actor sends nothing and its state does not change.
\<close>

theorem forged_gossip_ignored:
  assumes "gnr \<in> set (node_records g)"
    and "env_from_slice (nw_env W) (gnr_signed_data gnr) = None \<or>
      (\<exists>inner. env_from_slice (nw_env W) (gnr_signed_data gnr) = Some inner \<and>
         \<not> env_verify_signature (nw_env W) (gnr_signed_data gnr) (gnr_signature gnr) (nri_public_key inner))"
  shows "dispatch W (GossipReceived g src) nb = Some ([], nb)"
proof -
  have "\<not> authentic W g"
    using assms by (auto simp: authentic_def agr_of_gnr_def signature_invalid_def intro!: bexI [of _ gnr])
  then show ?thesis by (simp add: handle_gossip_authentic)
qed

theorem forged_gossip_ignored_witness:
  "dispatch actor_world (GossipReceived \<lparr>node_records = [\<lparr>gnr_signed_data = [1, 1, 3], gnr_signature = [2, 1, 1, 3],
     gnr_node_addr_opt = None\<rparr>]\<rparr> (sample_source 11)) actor_sample = Some ([], actor_sample)"
proof -
  have "env_from_slice (nw_env actor_world) [1, 1, 3] = Some (actor_inner [3] 1)"
    "\<not> env_verify_signature (nw_env actor_world) [1, 1, 3] [2, 1, 1, 3] (nri_public_key (actor_inner [3] 1))"
    by code_simp+
  then show ?thesis
    by (intro forged_gossip_ignored [where gnr = "\<lparr>gnr_signed_data = [1, 1, 3], gnr_signature = [2, 1, 1, 3],
     gnr_node_addr_opt = None\<rparr>"]) simp_all
qed

text \<open>
  C29. What the code expects of these messages is exactly what keeps it from panicking: a failure is reported by a
  Node of the \<^verbatim>\<open>--neighbors\<close> list, progress follows the diagram of stages, and the Node whose metadata changes is known.
\<close>

theorem panics_exactly:
  assumes "state_ok valid_key me W nb" and "started nb"
  shows "(dispatch W (GossipFailureReceived f src) nb = None \<longleftrightarrow> \<not> message_ok me W nb (GossipFailureReceived f src)) \<and>
    (dispatch W (ConnectionProgressMessage msg) nb = None \<longleftrightarrow> \<not> message_ok me W nb (ConnectionProgressMessage msg)) \<and>
    (dispatch W (UpdateNodeRecordMetadataMessage k h) nb = None \<longleftrightarrow>
       \<not> message_ok me W nb (UpdateNodeRecordMetadataMessage k h)) \<and>
    (dispatch W (NewPublicIp ip) nb = None \<longleftrightarrow> \<not> message_ok me W nb (NewPublicIp ip))"
proof (intro conjI)
  have runs: "handles valid_key me W h \<Longrightarrow> h \<noteq> None" for h by (auto simp: handles_def)
  show "dispatch W (GossipFailureReceived f src) nb = None \<longleftrightarrow> \<not> message_ok me W nb (GossipFailureReceived f src)"
  proof (cases "message_ok me W nb (GossipFailureReceived f src)")
    case True
    from runs [OF gossip_failure_run [OF assms True]] True show ?thesis by simp
  next
    case False
    then have "position (\<lambda>nd. case nd_node_addr_opt nd of None \<Rightarrow> False | Some na \<Rightarrow> na_ip_addr na = sa_ip src)
        (iter_initial_node_descriptors (nb_overall_connection_status nb)) = None"
      by (auto simp: position_None split: option.split)
    with False show ?thesis by (simp add: handle_gossip_failure_def)
  qed
  show "dispatch W (ConnectionProgressMessage msg) nb = None \<longleftrightarrow> \<not> message_ok me W nb (ConnectionProgressMessage msg)"
  proof (cases "message_ok me W nb (ConnectionProgressMessage msg)")
    case True
    from runs [OF connection_progress_run [OF assms True]] True show ?thesis by simp
  next
    case False
    then obtain i where i: "get_connection_progress_to_modify (nb_overall_connection_status nb) msg = Inr i"
      "update_connection_stage (cpm_event msg) (ocs_progress (nb_overall_connection_status nb) ! i) = None"
      using stage_step_total_or_panic by auto
    with False show ?thesis by (simp add: handle_connection_progress_message_def modify_progress_def)
  qed
  show "dispatch W (UpdateNodeRecordMetadataMessage k h) nb = None \<longleftrightarrow>
       \<not> message_ok me W nb (UpdateNodeRecordMetadataMessage k h)"
    by (auto simp: handle_update_node_record_metadata_def split: bind_splits)
  show "dispatch W (NewPublicIp ip) nb = None \<longleftrightarrow> \<not> message_ok me W nb (NewPublicIp ip)"
  proof (cases "message_ok me W nb (NewPublicIp ip)")
    case True
    from runs [OF new_public_ip_ok [OF assms True]] True show ?thesis by simp
  next
    case False
    obtain r where "root (nb_database nb) = Some r" using wf_db_root [OF state_okD(1) [OF assms(1)]] by blast
    with False show ?thesis by (simp add: handle_new_public_ip_def has_node_addr_def node_addr_opt_def)
  qed
qed

theorem panics_exactly_witness:
  "dispatch actor_world (GossipFailureReceived NoNeighbors (sample_source 12)) actor_sample = None \<and>
   dispatch actor_world (GossipFailureReceived NoNeighbors (sample_source 11)) actor_sample \<noteq> None"
proof -
  have "\<not> message_ok [0] actor_world actor_sample (GossipFailureReceived NoNeighbors (sample_source 12))"
    "message_ok [0] actor_world actor_sample (GossipFailureReceived NoNeighbors (sample_source 11))"
    by (simp_all add: actor_sample_def iter_initial_node_descriptors_def established_def sample_source_def sample_addr_def)
  with panics_exactly [OF actor_sample_ok] show ?thesis by blast
qed


end
