(* ===== verification/Exit_Locations.thy ===== *)
theory Exit_Locations
  imports Actor_Messages "HOL-Library.Multiset"
begin

text \<open>
  What a request for exit locations does: the countries that it reports missing, the preferences that it
  leaves for the routing engine, and the prices of the countries in the database.
\<close>

section \<open>The countries of a request\<close>

definition requested :: "exit_location list \<Rightarrow> country_code list" where
  "requested locs = concat (map el_country_codes locs)"

text \<open>
  The exit countries after a request: what was there before stays, unless it is requested and turns out to be missing while
  there is no fallback.
\<close>

definition countries_after :: "user_exit_preferences \<Rightarrow> country_code list \<Rightarrow> country_code set" where
  "countries_after uep codes =
     (if uep_fallback_preference uep = ExitCountryWithFallback then set (uep_exit_countries uep) \<union> set codes
      else set (uep_exit_countries uep) - (set codes - set (uep_db_countries uep)) \<union> set codes \<inter> set (uep_db_countries uep))"

lemma synchronize_one:
  assumes "distinct (uep_exit_countries uep)"
    and "synchronize_exit_countries_and_return_missing codes uep = (missing, uep')"
  shows "missing = filter (\<lambda>c. c \<notin> set (uep_db_countries uep)) codes \<and> distinct (uep_exit_countries uep') \<and>
    set (uep_exit_countries uep') = countries_after uep codes \<and>
    (\<exists>ccs. uep' = uep\<lparr>uep_exit_countries := ccs\<rparr>)"
  using assms
proof (induction codes arbitrary: uep missing)
  case Nil
  then show ?case by (auto simp: countries_after_def intro!: exI [of _ "uep_exit_countries uep"])
next
  case (Cons code codes)
  let ?keep = "code_in_db_countries_or_fallback_active uep code"
  define ccs where "ccs = (if ?keep then if code \<in> set (uep_exit_countries uep) then uep_exit_countries uep
       else uep_exit_countries uep @ [code] else remove1 code (uep_exit_countries uep))"
  let ?uep1 = "uep\<lparr>uep_exit_countries := ccs\<rparr>"
  have step: "synchronize_exit_countries_and_return_missing (code # codes) uep =
      (case synchronize_exit_countries_and_return_missing codes ?uep1 of (missing', uep2) \<Rightarrow>
        (if code \<notin> set (uep_db_countries uep) then code # missing' else missing', uep2))"
    by (auto simp: ccs_def code_in_db_countries_or_fallback_active_def fallback_active_and_code_missing_in_db_countries_def
        Let_def split: prod.split)
  obtain m where m: "synchronize_exit_countries_and_return_missing codes ?uep1 = (m, uep')"
    "missing = (if code \<notin> set (uep_db_countries uep) then code # m else m)"
    using Cons.prems(2) step by (auto split: prod.splits)
  have d: "distinct (uep_exit_countries ?uep1)" using Cons.prems(1) by (simp add: ccs_def distinct_remove1)
  have "countries_after ?uep1 codes = countries_after uep (code # codes)"
    using Cons.prems(1) by (auto simp: countries_after_def ccs_def code_in_db_countries_or_fallback_active_def set_remove1_eq)
  with Cons.IH [OF d m(1)] m(2) show ?case by auto
qed

lemma synchronize_all:
  assumes "distinct (uep_exit_countries uep)" and "synchronize_each locs uep = (missing, uep')"
  shows "missing = filter (\<lambda>c. c \<notin> set (uep_db_countries uep)) (requested locs) \<and> distinct (uep_exit_countries uep') \<and>
    set (uep_exit_countries uep') = countries_after uep (requested locs) \<and>
    (\<exists>ccs. uep' = uep\<lparr>uep_exit_countries := ccs\<rparr>)"
  using assms
proof (induction locs arbitrary: uep missing)
  case Nil
  then show ?case by (auto simp: requested_def countries_after_def intro!: exI [of _ "uep_exit_countries uep"])
next
  case (Cons loc locs)
  obtain m1 uep1 where 1: "synchronize_exit_countries_and_return_missing (el_country_codes loc) uep = (m1, uep1)" by fastforce
  obtain m2 where 2: "synchronize_each locs uep1 = (m2, uep')" "missing = m1 @ m2"
    using Cons.prems(2) 1 by (auto split: prod.splits)
  note s1 = synchronize_one [OF Cons.prems(1) 1]
  then have "distinct (uep_exit_countries uep1)" by blast
  note s2 = Cons.IH [OF this 2(1)]
  have "countries_after uep1 (requested locs) = countries_after uep (requested (loc # locs))"
  proof -
    from s1 obtain ccs where "uep1 = uep\<lparr>uep_exit_countries := ccs\<rparr>" "set ccs = countries_after uep (el_country_codes loc)" by auto
    then show ?thesis by (auto simp: countries_after_def requested_def)
  qed
  with s1 s2 2(2) show ?case by (auto simp: requested_def)
qed

section \<open>The prices of the countries\<close>

lemma preferences_after:
  "nb_user_exit_preferences (set_country_undesirability_and_exit_countries locs nb) =
     (if locs = [] then (nb_user_exit_preferences nb)\<lparr>uep_exit_countries := []\<rparr> else nb_user_exit_preferences nb)"
  "node_by_key (nb_database (set_country_undesirability_and_exit_countries locs nb)) k =
     map_option (if locs = [] then put_country_undesirability ZERO_UNDESIRABILITY
       else assign_nodes_country_undesirability (nb_user_exit_preferences nb)) (node_by_key (nb_database nb) k)"
  by (simp_all add: set_country_undesirability_and_exit_countries_def)

section \<open>The answer\<close>

lemma missing_error:
  "(\<exists>text. create_exit_location_response uep missing b = ExitCountryMissingCountriesError text) \<longleftrightarrow>
     missing \<noteq> [] \<and> mset missing = mset (requested (get_locations_opt uep))"
proof -
  let ?desired = "requested (get_locations_opt uep)"
  have "sort missing = sort ?desired \<longleftrightarrow> mset missing = mset ?desired"
    by (metis mset_sort properties_for_sort sorted_sort)
  then show ?thesis
    by (auto simp: create_exit_location_response_def error_message_indicates_def Let_def simp flip: requested_def)
qed

section \<open>An instance\<close>

text \<open>Node 0 with two full neighbors: Node 1 in CZ, which is cheaper, and Node 2 in US.\<close>

definition exit_record :: "nat \<Rightarrow> country_code option \<Rightarrow> nat list \<Rightarrow> u64 \<Rightarrow> node_record" where
  "exit_record i cc ns price = (let r = priced_record i ns price in r\<lparr>nr_inner := (nr_inner r)\<lparr>nri_country_code_opt := cc\<rparr>\<rparr>)"

definition exit_db :: neighborhood_database where
  "exit_db = \<lparr>ndb_this_node = [0],
     ndb_by_public_key = fmap_of_list [([0], exit_record 0 None [1, 2] 1), ([1], exit_record 1 (Some ''CZ'') [0] 1),
       ([2], exit_record 2 (Some ''US'') [0] 5)],
     ndb_by_ip_addr = fmap_of_list [(V4 10, [0]), (V4 11, [1]), (V4 12, [2])]\<rparr>"

definition exit_sample :: neighborhood where
  "exit_sample = (sample_neighborhood exit_db)\<lparr>nb_min_hops := OneHop\<rparr>"

definition only_country :: "country_code \<Rightarrow> bool \<Rightarrow> ui_set_exit_location_request" where
  "only_country cc fallback = \<lparr>ser_fallback_routing = fallback,
     ser_exit_locations = [\<lparr>cg_country_codes = [cc], cg_priority = 1\<rparr>], ser_show_countries = False\<rparr>"

lemma exit_db_wf: "wf_db exit_db"
  by code_simp

lemma exit_sample_ok: "state_ok (\<lambda>k. k \<noteq> []) [0] actor_world exit_sample" "started exit_sample"
  using exit_db_wf sample_wallet_ops_ok
  by (auto simp: state_ok_def started_def exit_sample_def sample_neighborhood_def actor_world_def sample_world_def
      sample_cores_world_def usable_wallet_def exit_db_def keys_def)

section \<open>Properties\<close>

text \<open>
  C13. A request for exit locations is carried out and answered: the answer names the requested countries that no reachable exit
  is in, and is an error exactly if there are some and the recorded request names no other; the preferences record the fallback and the exit
  countries; and, if there is another Node at all, every Node's record gets the price of its country, or no price if the
  request is empty.
\<close>

theorem exit_location_request_handled:
  assumes "world_ok C valid_key me W" and "state_ok valid_key me W nb" and "started nb"
    and "distinct (uep_exit_countries (nb_user_exit_preferences nb))"
    and "ser_show_countries req = False" and "1 < fcard (keys (nb_database nb))"
    and "locs = map (\<lambda>cc. \<lparr>el_country_codes = cg_country_codes cc, el_priority = cg_priority cc\<rparr>) (ser_exit_locations req)"
    and "init_db_countries W nb = Some countries"
    and "old = (nb_user_exit_preferences nb)\<lparr>uep_db_countries := countries\<rparr>"
    and "missing = filter (\<lambda>c. c \<notin> set countries) (requested locs)"
  shows "\<exists>nb' uep. dispatch W (UiSetExitLocationRequest req client_id context_id) nb =
      Some ([ToUi client_id context_id (create_exit_location_response uep missing False)], nb') \<and>
    nb_user_exit_preferences nb' = uep \<and> uep_db_countries uep = countries \<and>
    uep_fallback_preference uep = (if locs = [] then FallbackNothing
      else if ser_fallback_routing req then ExitCountryWithFallback else ExitCountryNoFallback) \<and>
    set (uep_exit_countries uep) = (if locs = [] then {} else countries_after old (requested locs)) \<and>
    distinct (uep_exit_countries uep) \<and>
    ((\<exists>text. create_exit_location_response uep missing False = ExitCountryMissingCountriesError text) \<longleftrightarrow>
       missing \<noteq> [] \<and> mset missing = mset (requested (get_locations_opt uep))) \<and>
    (\<forall>k. node_by_key (nb_database nb') k = map_option
       (if locs = [] then put_country_undesirability 0 else assign_nodes_country_undesirability uep)
       (node_by_key (nb_database nb) k))"
proof -
  obtain m uep1 where s: "synchronize_each locs old = (m, uep1)" by fastforce
  have d: "distinct (uep_exit_countries old)" using assms(4,9) by simp
  from synchronize_all [OF d s] assms(9,10) obtain ccs where
    sync: "m = missing" "uep1 = old\<lparr>uep_exit_countries := ccs\<rparr>" "set ccs = countries_after old (requested locs)" "distinct ccs"
    by auto
  have ex: "extract_exit_locations_from_message W req nb = Some ((locs, missing), put_preferences uep1 nb)"
    using s sync(1) assms(7-9) by (simp add: extract_exit_locations_from_message_def refresh_db_countries_def Let_def
        put_preferences_def)
  let ?uep2 = "uep1\<lparr>uep_fallback_preference := (if locs = [] then FallbackNothing
      else if ser_fallback_routing req then ExitCountryWithFallback else ExitCountryNoFallback)\<rparr>"
  let ?nb3 = "put_preferences (set_exit_locations_opt locs ?uep2) nb"
  let ?nb4 = "set_country_undesirability_and_exit_countries locs ?nb3"
  have "started ?nb4" using assms(3) by (simp add: put_preferences_def)
  moreover have "1 < fcard (keys (nb_database ?nb3))" using assms(6) by (simp add: put_preferences_def)
  ultimately have run: "dispatch W (UiSetExitLocationRequest req client_id context_id) nb =
      Some ([ToUi client_id context_id (create_exit_location_response (nb_user_exit_preferences ?nb4) missing False)], ?nb4)"
    using ex assms(5) by (simp add: handle_exit_location_message_def Let_def send_started put_preferences_def)
  show ?thesis
    by (rule exI [of _ ?nb4], rule exI [of _ "nb_user_exit_preferences ?nb4"], intro conjI missing_error)
      (use run sync assms(9) in \<open>auto simp: preferences_after put_preferences_def set_exit_locations_opt_def ZERO_UNDESIRABILITY_def\<close>)
qed

theorem exit_location_request_handled_witness:
  "\<exists>nb'. dispatch actor_world (UiSetExitLocationRequest (only_country ''US'' False) 1 2) exit_sample =
      Some ([ToUi 1 2 (create_exit_location_response (nb_user_exit_preferences nb') [] False)], nb') \<and>
    set (uep_exit_countries (nb_user_exit_preferences nb')) = {''US''}"
proof -
  have countries: "init_db_countries actor_world exit_sample = Some [''CZ'', ''US'']" by code_simp
  have side: "distinct (uep_exit_countries (nb_user_exit_preferences exit_sample))"
    "ser_show_countries (only_country ''US'' False) = False" "1 < fcard (keys (nb_database exit_sample))"
    by code_simp+
  have req: "ser_exit_locations (only_country ''US'' False) = [\<lparr>cg_country_codes = [''US''], cg_priority = 1\<rparr>]"
    "uep_exit_countries (nb_user_exit_preferences exit_sample) = []"
    "uep_fallback_preference (nb_user_exit_preferences exit_sample) = FallbackNothing"
    by (simp_all add: only_country_def exit_sample_def sample_neighborhood_def user_exit_preferences_new_def)
  from exit_location_request_handled [OF actor_world_ok exit_sample_ok side refl countries refl refl, of 1 2] show ?thesis
    by (auto simp: req requested_def countries_after_def)
qed


text \<open>
  A request for exit locations is not idempotent: the countries are matched under the fallback preference of the request
  before, so a country that is missing becomes an exit country only when it is requested with fallback for the second time.
\<close>

theorem exit_request_not_idempotent:
  "map_option (\<lambda>(_, nb). uep_exit_countries (nb_user_exit_preferences nb))
     (dispatch actor_world (UiSetExitLocationRequest (only_country ''FR'' True) 1 2) exit_sample) = Some [] \<and>
   map_option (\<lambda>(_, nb). uep_exit_countries (nb_user_exit_preferences nb))
     (do {
       (_, nb) \<leftarrow> dispatch actor_world (UiSetExitLocationRequest (only_country ''FR'' True) 1 2) exit_sample;
       dispatch actor_world (UiSetExitLocationRequest (only_country ''FR'' True) 1 2) nb }) = Some [''FR'']"
  by (intro conjI; code_simp)

end
