(* ===== verification/Bit_Queue.thy ===== *)
theory Bit_Queue
  imports Prelude
begin

text \<open>
  The queue of bits that the country data is packed with: \<^verbatim>\<open>ip_country/src/bit_queue.rs\<close>. The queue keeps
  bytes, with a count of unused bits in the first and in the last one; seen from outside it is a queue of
  bits, the low-order bit of what is added first. A shift by the width of the integer or more panics,
  as it does where overflow is checked.
\<close>

unbundle bit_operations_syntax

section \<open>Definitions\<close>

record bit_queue =
  bq_back_blank_bit_count :: nat
  bq_byte_queue :: "u8 list"
  bq_front_blank_bit_count :: nat

definition checked_shl :: "nat \<Rightarrow> 'a::len word \<Rightarrow> 'a word run" where
  "checked_shl n x = (if n < LENGTH('a) then ret (push_bit n x) else panic)"

definition checked_shr :: "nat \<Rightarrow> 'a::len word \<Rightarrow> 'a word run" where
  "checked_shr n x = (if n < LENGTH('a) then ret (drop_bit n x) else panic)"

definition bq_new :: bit_queue where
  "bq_new = \<lparr>bq_back_blank_bit_count = 8, bq_byte_queue = [0, 0], bq_front_blank_bit_count = 8\<rparr>"

definition bq_len :: "bit_queue \<Rightarrow> nat" where
  "bq_len q = length (bq_byte_queue q) * 8 - bq_back_blank_bit_count q - bq_front_blank_bit_count q"

definition bq_is_empty :: "bit_queue \<Rightarrow> bool" where
  "bq_is_empty q \<longleftrightarrow> bq_len q = 0"

definition back_full_bit_count :: "bit_queue \<Rightarrow> nat" where
  "back_full_bit_count q = 8 - bq_back_blank_bit_count q"

definition front_full_bit_count :: "bit_queue \<Rightarrow> nat" where
  "front_full_bit_count q = 8 - bq_front_blank_bit_count q"

definition low_order_ones :: "nat \<Rightarrow> u64 run" where
  "low_order_ones count = do { ones \<leftarrow> checked_shl count (- 1); ret (NOT ones) }"

definition push_blank_back :: "bit_queue \<Rightarrow> bit_queue" where
  "push_blank_back q = (if bq_back_blank_bit_count q = 0
     then q\<lparr>bq_byte_queue := bq_byte_queue q @ [0], bq_back_blank_bit_count := 8\<rparr> else q)"

definition add_some_back_bits :: "u64 \<Rightarrow> nat \<Rightarrow> bit_queue \<Rightarrow> (nat \<times> bit_queue) run" where
  "add_some_back_bits bit_data bit_count q = do {
     let q1 = push_blank_back q;
     let bits_to_add = min bit_count (bq_back_blank_bit_count q1);
     if bq_byte_queue q1 = [] then panic else do {
       shifted \<leftarrow> checked_shl (back_full_bit_count q1) bit_data;
       let q2 = q1\<lparr>bq_byte_queue := butlast (bq_byte_queue q1) @ [last (bq_byte_queue q1) OR ucast shifted],
         bq_back_blank_bit_count := bq_back_blank_bit_count q1 - bits_to_add\<rparr>;
       ret (bits_to_add, push_blank_back q2) } }"

fun push_bytes :: "u64 \<Rightarrow> nat \<Rightarrow> u8 list \<Rightarrow> u8 list run" where
  "push_bytes bit_data bit_count bs =
     (if 8 \<le> bit_count then do {
        ones \<leftarrow> low_order_ones 8;
        rest \<leftarrow> checked_shr 8 bit_data;
        push_bytes rest (bit_count - 8) (bs @ [ucast (bit_data AND ones)]) }
      else ret bs)"

definition add_back_bytes :: "u64 \<Rightarrow> nat \<Rightarrow> bit_queue \<Rightarrow> (nat \<times> bit_queue) run" where
  "add_back_bytes bit_data bit_count q =
     (if 64 < bit_count then panic
      else if bit_count < 8 then ret (0, q)
      else do {
        let q1 = (if bq_back_blank_bit_count q = 8
          then q\<lparr>bq_byte_queue := butlast (bq_byte_queue q), bq_back_blank_bit_count := 0\<rparr> else q);
        if 0 < bq_back_blank_bit_count q1 then panic else do {
          bs \<leftarrow> push_bytes bit_data bit_count (bq_byte_queue q1);
          ret (bit_count - bit_count mod 8, q1\<lparr>bq_byte_queue := bs\<rparr>) } })"

definition add_bits :: "u64 \<Rightarrow> nat \<Rightarrow> bit_queue \<Rightarrow> bit_queue run" where
  "add_bits bit_data bit_count q =
     (if 64 < bit_count then panic
      else do {
        (initial_bits_added, q1) \<leftarrow> add_some_back_bits bit_data bit_count q;
        bit_data1 \<leftarrow> checked_shr initial_bits_added bit_data;
        let bit_count1 = bit_count - initial_bits_added;
        (byte_bits_added, q2) \<leftarrow> add_back_bytes bit_data1 bit_count1 q1;
        bit_data2 \<leftarrow> checked_shr byte_bits_added bit_data1;
        let bit_count2 = bit_count1 - byte_bits_added;
        (final_bits_added, q3) \<leftarrow> add_some_back_bits bit_data2 bit_count2 q2;
        _ \<leftarrow> checked_shr final_bits_added bit_data2;
        if bit_count2 - final_bits_added \<noteq> 0 then panic else ret q3 })"

definition pop_blank_front :: "bit_queue \<Rightarrow> bit_queue" where
  "pop_blank_front q = (if bq_front_blank_bit_count q = 8 \<and> 2 < length (bq_byte_queue q)
     then q\<lparr>bq_byte_queue := tl (bq_byte_queue q), bq_front_blank_bit_count := 0\<rparr> else q)"

definition take_some_front_bits :: "nat \<Rightarrow> bit_queue \<Rightarrow> ((u64 \<times> nat) \<times> bit_queue) run" where
  "take_some_front_bits bit_count q = do {
     let q1 = (if front_full_bit_count q = 0 \<and> 2 < length (bq_byte_queue q)
       then q\<lparr>bq_byte_queue := tl (bq_byte_queue q), bq_front_blank_bit_count := 0\<rparr> else q);
     let bits_to_take = min bit_count (front_full_bit_count q1);
     if bits_to_take = 0 then ret ((0, 0), q1)
     else if bq_byte_queue q1 = [] then panic
     else do {
       let front = hd (bq_byte_queue q1);
       ones \<leftarrow> low_order_ones bits_to_take;
       let bit_data = front AND ucast ones;
       rest \<leftarrow> (if bits_to_take < 8 then checked_shr bits_to_take front else ret 0);
       let q2 = q1\<lparr>bq_byte_queue := rest # tl (bq_byte_queue q1),
         bq_front_blank_bit_count := bq_front_blank_bit_count q1 + bits_to_take\<rparr>;
       ret ((ucast bit_data, bits_to_take), pop_blank_front q2) } }"

text \<open>The bytes that the loop pops, with the number of bits of them that were seen before.\<close>

fun pop_bytes :: "nat \<Rightarrow> nat \<Rightarrow> u64 \<Rightarrow> u8 list \<Rightarrow> (u64 \<times> u8 list) run" where
  "pop_bytes original_bit_count bit_count bit_data bs =
     (if 8 \<le> bit_count then
        (case bs of
           [] \<Rightarrow> panic
         | b # rest \<Rightarrow> do {
             shifted \<leftarrow> checked_shl (original_bit_count - bit_count) (ucast b);
             pop_bytes original_bit_count (bit_count - 8) (bit_data OR shifted) rest })
      else ret (bit_data, bs))"

definition take_front_bytes :: "nat \<Rightarrow> bit_queue \<Rightarrow> ((u64 \<times> nat) \<times> bit_queue) run" where
  "take_front_bytes bit_count q =
     (if 64 < bit_count then panic
      else if bit_count < 8 then ret ((0, 0), q)
      else do {
        let q1 = (if bq_front_blank_bit_count q = 8
          then q\<lparr>bq_byte_queue := tl (bq_byte_queue q), bq_front_blank_bit_count := 0\<rparr> else q);
        if 0 < bq_front_blank_bit_count q1 then panic else do {
          (bit_data, bs) \<leftarrow> pop_bytes bit_count bit_count 0 (bq_byte_queue q1);
          ret ((bit_data, bit_count - bit_count mod 8),
            if length bs < 2 then q1\<lparr>bq_byte_queue := 0 # bs, bq_front_blank_bit_count := 8\<rparr>
            else q1\<lparr>bq_byte_queue := bs\<rparr>) } })"

definition pop_blank_back :: "bit_queue \<Rightarrow> bit_queue" where
  "pop_blank_back q = (if bq_back_blank_bit_count q = 8 \<and> 2 < length (bq_byte_queue q)
     then q\<lparr>bq_byte_queue := butlast (bq_byte_queue q), bq_back_blank_bit_count := 0\<rparr> else q)"

definition take_some_back_bits :: "nat \<Rightarrow> bit_queue \<Rightarrow> ((u64 \<times> nat) \<times> bit_queue) run" where
  "take_some_back_bits bit_count q = do {
     let bits_to_take = min bit_count (back_full_bit_count q);
     let remaining_bits = back_full_bit_count q - bits_to_take;
     mask \<leftarrow> low_order_ones bits_to_take;
     if bq_byte_queue q = [] then panic else do {
       let back_byte = last (bq_byte_queue q);
       let bit_data = (if remaining_bits < 8 then back_byte AND ucast mask else 0);
       rest \<leftarrow> checked_shr bits_to_take back_byte;
       let q1 = q\<lparr>bq_byte_queue := butlast (bq_byte_queue q) @ [rest],
         bq_back_blank_bit_count := bq_back_blank_bit_count q + bits_to_take\<rparr>;
       ret ((ucast bit_data, bits_to_take), pop_blank_back q1) } }"

definition take_bits :: "nat \<Rightarrow> bit_queue \<Rightarrow> (u64 option \<times> bit_queue) run" where
  "take_bits bit_count q =
     (if 64 < bit_count then panic
      else if bq_len q < bit_count then ret (None, q)
      else do {
        ((initial_bit_data, initial_bit_count), q1) \<leftarrow> take_some_front_bits bit_count q;
        let bit_data1 = initial_bit_data;
        let bit_count1 = bit_count - initial_bit_count;
        ((byte_bit_data, byte_bit_count), q2) \<leftarrow> take_front_bytes bit_count1 q1;
        byte_shifted \<leftarrow> checked_shl initial_bit_count byte_bit_data;
        let bit_data2 = bit_data1 OR byte_shifted;
        let bit_position2 = initial_bit_count + byte_bit_count;
        let bit_count2 = bit_count1 - byte_bit_count;
        ((front_bit_data, front_bit_count), q3) \<leftarrow> take_some_front_bits bit_count2 q2;
        bit_data3 \<leftarrow> (if 0 < front_bit_count then do {
            shifted \<leftarrow> checked_shl bit_position2 front_bit_data;
            ret (bit_data2 OR shifted) } else ret bit_data2);
        let bit_position3 = bit_position2 + front_bit_count;
        let bit_count3 = bit_count2 - front_bit_count;
        ((back_bit_data, back_bit_count), q4) \<leftarrow> take_some_back_bits bit_count3 q3;
        bit_data4 \<leftarrow> (if 0 < back_bit_count then do {
            shifted \<leftarrow> checked_shl bit_position3 back_bit_data;
            ret (bit_data3 OR shifted) } else ret bit_data3);
        if bit_position3 + back_bit_count \<noteq> bit_count then panic else ret (Some bit_data4, q4) })"

section \<open>Bits and numbers\<close>

definition bits :: "nat \<Rightarrow> 'a::len word \<Rightarrow> bool list" where
  "bits n w = map (bit w) [0..<n]"

definition number :: "bool list \<Rightarrow> u64" where
  "number bs = horner_sum of_bool 2 bs"

text \<open>No bit from the \<open>n\<close>-th on.\<close>

definition clear :: "nat \<Rightarrow> 'a::len word \<Rightarrow> bool" where
  "clear n w \<longleftrightarrow> (\<forall>i. n \<le> i \<longrightarrow> \<not> bit w i)"

lemma length_bits [simp]: "length (bits n w) = n"
  by (simp add: bits_def)

lemma bits_0 [simp]: "bits 0 w = []"
  by (simp add: bits_def)

lemma nth_bits [simp]: "i < n \<Longrightarrow> bits n w ! i = bit w i"
  by (simp add: bits_def)

lemma bits_add: "bits (m + n) w = bits m w @ bits n (drop_bit m w)"
  by (rule nth_equalityI) (auto simp: nth_append bit_simps)

lemma take_bits_bits [simp]: "take k (bits n w) = bits (min k n) w"
  by (rule nth_equalityI) auto

lemma drop_bits_bits [simp]: "drop k (bits n w) = bits (n - k) (drop_bit k w)"
  by (rule nth_equalityI) (auto simp: bit_simps)

lemma bits_cong: "(\<And>i. i < n \<Longrightarrow> bit v i = bit w i) \<Longrightarrow> bits n v = bits n w"
  by (rule nth_equalityI) auto

lemma bit_number: "bit (number bs) i \<longleftrightarrow> i < 64 \<and> i < length bs \<and> bs ! i"
  by (simp add: number_def bit_horner_sum_bit_word_iff)

lemma number_append: "number (xs @ ys) = number xs OR push_bit (length xs) (number ys)"
  by (rule bit_word_eqI) (auto simp: bit_number nth_append bit_simps)

lemma number_Nil [simp]: "number [] = 0"
  by (rule bit_word_eqI) (simp add: bit_number)

lemma number_bits: "number (bits n w) = take_bit n w"
  by (rule bit_word_eqI) (auto simp: bit_number bit_simps)

lemma clear_mono: "clear m w \<Longrightarrow> m \<le> n \<Longrightarrow> clear n w"
  by (auto simp: clear_def)

lemma clear_0 [simp]: "clear n 0"
  by (simp add: clear_def)

lemma clear_full [simp]: "LENGTH('a) \<le> n \<Longrightarrow> clear n (w :: 'a::len word)"
  by (auto simp: clear_def dest: bit_imp_le_length)

lemma clear_drop_bit: "clear n w \<Longrightarrow> clear (n - k) (drop_bit k w)"
  by (auto simp: clear_def bit_simps)

lemma clear_zero: "clear 0 w \<Longrightarrow> w = 0"
  by (rule bit_word_eqI) (simp add: clear_def)

lemma clear_less: "n < LENGTH('a) \<Longrightarrow> w < 2 ^ n \<Longrightarrow> clear n (w :: 'a::len word)"
proof -
  assume n: "n < LENGTH('a)" and w: "w < 2 ^ n"
  have "take_bit n w = w" using w n by (simp add: less_mask_eq take_bit_eq_mask)
  then show "clear n w" by (metis clear_def bit_take_bit_iff not_le)
qed

lemma low_order_ones_run: "n < 64 \<Longrightarrow> low_order_ones n = Some (mask n)"
  by (simp add: low_order_ones_def checked_shl_def)

lemma masked_byte:
  "n \<le> 8 \<Longrightarrow> ucast ((b :: u8) AND ucast (mask n :: u64)) = number (bits n b)"
  by (rule bit_word_eqI) (auto simp: bit_number bit_simps)

section \<open>The queue as a queue of bits\<close>

text \<open>
  The bits in the queue, in the order in which they are taken. There are at least two bytes, except after
  the last byte was taken whole; then there is a single blank one.
\<close>

definition contents :: "bit_queue \<Rightarrow> bool list" where
  "contents q = (case bq_byte_queue q of
      f # m # ms \<Rightarrow> bits (front_full_bit_count q) f @ concat (map (bits 8) (butlast (m # ms))) @
        bits (back_full_bit_count q) (last (m # ms))
    | _ \<Rightarrow> [])"

definition bq_ok :: "bit_queue \<Rightarrow> bool" where
  "bq_ok q \<longleftrightarrow> bq_front_blank_bit_count q \<le> 8 \<and> bq_back_blank_bit_count q \<le> 8 \<and>
     (case bq_byte_queue q of
        f # m # ms \<Rightarrow> clear (front_full_bit_count q) f \<and> clear (back_full_bit_count q) (last (m # ms))
      | bs \<Rightarrow> bs = [0] \<and> bq_front_blank_bit_count q = 8 \<and> bq_back_blank_bit_count q = 0)"

definition queue_of :: "nat \<Rightarrow> u8 \<Rightarrow> u8 list \<Rightarrow> u8 \<Rightarrow> nat \<Rightarrow> bit_queue" where
  "queue_of fb f ms b bb = \<lparr>bq_back_blank_bit_count = bb, bq_byte_queue = f # ms @ [b], bq_front_blank_bit_count = fb\<rparr>"

abbreviation drained :: bit_queue where
  "drained \<equiv> \<lparr>bq_back_blank_bit_count = 0, bq_byte_queue = [0], bq_front_blank_bit_count = 8\<rparr>"

lemma queue_of_sel [simp]:
  "bq_back_blank_bit_count (queue_of fb f ms b bb) = bb" "bq_byte_queue (queue_of fb f ms b bb) = f # ms @ [b]"
  "bq_front_blank_bit_count (queue_of fb f ms b bb) = fb"
  by (simp_all add: queue_of_def)

lemma contents_queue_of [simp]:
  "contents (queue_of fb f ms b bb) = bits (8 - fb) f @ concat (map (bits 8) ms) @ bits (8 - bb) b"
  by (cases ms) (auto simp: contents_def front_full_bit_count_def back_full_bit_count_def
      butlast_append)

lemma contents_drained [simp]: "contents drained = []"
  by (simp add: contents_def)

lemma ok_queue_of [simp]:
  "bq_ok (queue_of fb f ms b bb) \<longleftrightarrow> fb \<le> 8 \<and> bb \<le> 8 \<and> clear (8 - fb) f \<and> clear (8 - bb) b"
  by (cases ms) (auto simp: bq_ok_def front_full_bit_count_def back_full_bit_count_def)

lemma ok_drained [simp]: "bq_ok drained"
  by (simp add: bq_ok_def)

lemma ok_cases:
  assumes "bq_ok q"
  obtains (drained) "q = drained"
    | (queue) fb f ms b bb where "q = queue_of fb f ms b bb" "fb \<le> 8" "bb \<le> 8" "clear (8 - fb) f" "clear (8 - bb) b"
proof (cases "bq_byte_queue q")
  case Nil
  with assms show thesis by (simp add: bq_ok_def)
next
  case (Cons f rest)
  show thesis
  proof (cases rest rule: rev_cases)
    case Nil
    with assms Cons show thesis using drained by (cases q) (auto simp: bq_ok_def)
  next
    case (snoc ms b)
    with Cons have "q = queue_of (bq_front_blank_bit_count q) f ms b (bq_back_blank_bit_count q)" by (simp add: queue_of_def)
    with assms show thesis using queue by (metis ok_queue_of)
  qed
qed

lemma bq_len_contents: "bq_ok q \<Longrightarrow> bq_len q = length (contents q)"
  by (erule ok_cases) (auto simp: bq_len_def length_concat comp_def sum_list_triv)

section \<open>Adding bits\<close>

lemma joined_bits:
  assumes "clear m (b :: u8)" and "m + k \<le> 8"
  shows "bits (m + k) (b OR ucast (push_bit m (d :: u64))) = bits m b @ bits k d"
  using assms by (intro nth_equalityI) (auto simp: nth_append bit_simps clear_def)

lemma joined_clear:
  assumes "clear m (b :: u8)" and "m + k = 8 \<or> clear k (d :: u64)"
  shows "clear (m + k) (b OR ucast (push_bit m d))"
  using assms by (auto simp: clear_def bit_simps dest: bit_imp_le_length)

lemma push_blank_back_simps [simp]:
  "push_blank_back (queue_of fb f ms b bb) = (if bb = 0 then queue_of fb f (ms @ [b]) 0 8 else queue_of fb f ms b bb)"
  "push_blank_back drained = queue_of 8 0 [] 0 8"
  by (simp_all add: push_blank_back_def queue_of_def)

lemma push_blank_back_cases:
  assumes "bq_ok q"
  obtains fb f ms b bb where "push_blank_back q = queue_of fb f ms b bb" "fb \<le> 8" "0 < bb" "bb \<le> 8"
    "clear (8 - fb) f" "clear (8 - bb) b" "contents q = bits (8 - fb) f @ concat (map (bits 8) ms) @ bits (8 - bb) b"
    "bb = (if bq_back_blank_bit_count q = 0 then 8 else bq_back_blank_bit_count q)"
  using assms
proof (cases rule: ok_cases)
  case drained
  show thesis by (rule that [of 8 0 "[]" 0 8]) (simp_all add: drained)
next
  case (queue fb f ms b bb)
  show thesis
  proof (cases "bb = 0")
    case True
    show thesis by (rule that [of fb f "ms @ [b]" 0 8]) (use queue True in simp_all)
  next
    case False
    show thesis by (rule that [of fb f ms b bb]) (use queue False in simp_all)
  qed
qed

text \<open>After bits were added to the last byte, it has room again, and all of it if some bits are left over.\<close>

lemma add_some_back_bits_run:
  assumes "bq_ok q" and "clear n d"
  obtains k q' where "add_some_back_bits d n q = Some (k, q')" "bq_ok q'" "contents q' = contents q @ bits k d" "k \<le> n" "k \<le> 8"
    "0 < bq_back_blank_bit_count q'" "k < n \<Longrightarrow> bq_back_blank_bit_count q' = 8"
    "n \<le> (if bq_back_blank_bit_count q = 0 then 8 else bq_back_blank_bit_count q) \<Longrightarrow> k = n" "0 < n \<Longrightarrow> 0 < k"
proof -
  from assms(1) obtain fb f ms b bb where q1: "push_blank_back q = queue_of fb f ms b bb" "fb \<le> 8" "0 < bb" "bb \<le> 8"
    "clear (8 - fb) f" "clear (8 - bb) b" "contents q = bits (8 - fb) f @ concat (map (bits 8) ms) @ bits (8 - bb) b"
    "bb = (if bq_back_blank_bit_count q = 0 then 8 else bq_back_blank_bit_count q)" by (rule push_blank_back_cases)
  have bb: "(if bq_back_blank_bit_count q = 0 then 8 else bq_back_blank_bit_count q) = bb" using q1(8) by simp
  define k where "k = min n bb"
  have kn: "k \<le> n" "k \<le> 8" "k < n \<Longrightarrow> k = bb" "n \<le> bb \<Longrightarrow> k = n" "0 < n \<Longrightarrow> 0 < k"
    using q1(3,4) by (auto simp: k_def)
  let ?b = "b OR ucast (push_bit (8 - bb) d)"
  have k: "8 - bb + k \<le> 8" "8 - (bb - k) = 8 - bb + k" "k \<le> bb" using q1(3,4) by (auto simp: k_def)
  have joined: "bits (8 - (bb - k)) ?b = bits (8 - bb) b @ bits k d"
    unfolding k(2) by (rule joined_bits [OF q1(6) k(1)])
  have clr: "clear (8 - (bb - k)) ?b"
    unfolding k(2) by (rule joined_clear [OF q1(6)]) (use assms(2) q1(3,4) in \<open>auto simp: k_def min_def\<close>)
  let ?q2 = "queue_of fb f ms ?b (bb - k)"
  have shl: "checked_shl (8 - bb) d = Some (push_bit (8 - bb) d)" using q1(3) by (simp add: checked_shl_def)
  have run: "add_some_back_bits d n q = Some (k, push_blank_back ?q2)"
    by (simp add: add_some_back_bits_def q1(1) back_full_bit_count_def shl k_def Let_def butlast_append queue_of_def flip: append_Cons)
  have cont: "contents q @ bits k d = bits (8 - fb) f @ concat (map (bits 8) ms) @ bits (8 - (bb - k)) ?b"
    unfolding joined q1(7) by simp
  show thesis
  proof (cases "bb = k")
    case True
    have q3: "push_blank_back ?q2 = queue_of fb f (ms @ [?b]) 0 8" using True by simp
    show thesis
    proof (rule that [OF run])
      show "contents (push_blank_back ?q2) = contents q @ bits k d" unfolding q3 cont contents_queue_of using True by simp
      show "bq_ok (push_blank_back ?q2)" unfolding q3 ok_queue_of using q1(2,5) by simp
      show "0 < bq_back_blank_bit_count (push_blank_back ?q2)" "bq_back_blank_bit_count (push_blank_back ?q2) = 8"
        unfolding q3 by simp_all
    qed (fact kn, fact kn, erule kn(4) [folded bb], erule kn(5))
  next
    case False
    have q3: "push_blank_back ?q2 = ?q2" using False k(3) by simp
    show thesis
    proof (rule that [OF run])
      show "contents (push_blank_back ?q2) = contents q @ bits k d" unfolding q3 cont contents_queue_of ..
      show "bq_ok (push_blank_back ?q2)" unfolding q3 using q1(2,4,5) clr by simp
      show "0 < bq_back_blank_bit_count (push_blank_back ?q2)" unfolding q3 using False k(3) by simp
      show "bq_back_blank_bit_count (push_blank_back ?q2) = 8" if "k < n" using kn(3) [OF that] False by simp
    qed (fact kn, fact kn, erule kn(4) [folded bb], erule kn(5))
  qed
qed

lemma bits_ucast_low: "bits 8 (ucast (d AND mask 8) :: u8) = bits 8 (d :: u64)"
  by (rule nth_equalityI) (auto simp: bit_simps)

lemma push_bytes_run:
  "\<exists>bs'. push_bytes d n bs = Some (bs @ bs') \<and> length bs' = n div 8 \<and> concat (map (bits 8) bs') = bits (8 * (n div 8)) d"
proof (induction d n bs rule: push_bytes.induct)
  case (1 d n bs)
  show ?case
  proof (cases "8 \<le> n")
    case True
    let ?b = "ucast (d AND mask 8) :: u8"
    have ones: "low_order_ones 8 = Some (mask 8)" by (simp add: low_order_ones_run)
    have shr: "checked_shr 8 d = Some (drop_bit 8 d)" by (simp add: checked_shr_def)
    from "1.IH" [OF True ones shr] obtain bs' where bs': "push_bytes (drop_bit 8 d) (n - 8) (bs @ [?b]) = Some ((bs @ [?b]) @ bs')"
      "length bs' = (n - 8) div 8" "concat (map (bits 8) bs') = bits (8 * ((n - 8) div 8)) (drop_bit 8 d)" by blast
    have n: "n div 8 = Suc ((n - 8) div 8)" using True by (simp add: le_div_geq)
    have "push_bytes d n bs = Some (bs @ (?b # bs'))"
      using True bs'(1) by (subst push_bytes.simps) (simp add: ones shr del: push_bytes.simps)
    moreover have "concat (map (bits 8) (?b # bs')) = bits (8 * (n div 8)) d"
      using bits_add [of 8 "8 * ((n - 8) div 8)" d] by (simp add: bs'(3) bits_ucast_low n)
    ultimately show ?thesis using bs'(2) n by (intro exI [of _ "?b # bs'"]) simp
  next
    case False
    then show ?thesis by (simp add: exI [of _ "[]"])
  qed
qed

lemma add_back_bytes_run:
  assumes "bq_ok q" and "n \<le> 64" and "n < 8 \<or> bq_back_blank_bit_count q = 8"
  obtains q' where "add_back_bytes d n q = Some (n - n mod 8, q')" "bq_ok q'"
    "contents q' = contents q @ bits (n - n mod 8) d" "8 \<le> n \<Longrightarrow> bq_back_blank_bit_count q' = 0" "n < 8 \<Longrightarrow> q' = q"
proof (cases "n < 8")
  case True
  then show thesis using assms(1) by (intro that [of q]) (simp_all add: add_back_bytes_def)
next
  case False
  with assms(3) have bb: "bq_back_blank_bit_count q = 8" by simp
  from assms(1) obtain fb f ms b where q: "q = queue_of fb f ms b 8" "fb \<le> 8" "clear (8 - fb) f"
    using bb by (cases rule: ok_cases) auto
  obtain bs where bs: "push_bytes d n (f # ms) = Some ((f # ms) @ bs)" "length bs = n div 8"
    "concat (map (bits 8) bs) = bits (8 * (n div 8)) d" using push_bytes_run by blast
  from False have "0 < n div 8" by simp
  with bs(2) obtain cs c where c: "bs = cs @ [c]" by (cases bs rule: rev_cases) auto
  have len: "8 * (n div 8) = n - n mod 8" by (simp add: minus_mod_eq_mult_div)
  let ?q = "queue_of fb f (ms @ cs) c 0"
  have "add_back_bytes d n q = Some (n - n mod 8, ?q)"
    using False assms(2) bs(1) by (simp add: add_back_bytes_def q(1) c butlast_append queue_of_def del: push_bytes.simps)
  moreover have "contents ?q = contents q @ bits (n - n mod 8) d"
    unfolding contents_queue_of q(1) using bs(3) by (simp add: c len)
  moreover have "bq_ok ?q" unfolding ok_queue_of using q(2,3) by simp
  ultimately show thesis using False by (intro that [of ?q]) simp_all
qed

lemma clear_shifted: "clear n d \<Longrightarrow> k \<le> n \<Longrightarrow> clear (n - k) (drop_bit k d)"
  by (simp add: clear_drop_bit)

lemma bits_join: "k \<le> n \<Longrightarrow> bits k d @ bits (n - k) (drop_bit k d) = bits n d"
  using bits_add [of k "n - k" d] by simp

text \<open>Adding bits to the queue appends them, provided that the number has no other bits.\<close>

lemma add_bits_run:
  assumes "bq_ok q" and "n \<le> 64" and "clear n d"
  obtains q' where "add_bits d n q = Some q'" "bq_ok q'" "contents q' = contents q @ bits n d"
proof -
  obtain k1 q1 where 1: "add_some_back_bits d n q = Some (k1, q1)" "bq_ok q1" "contents q1 = contents q @ bits k1 d" "k1 \<le> n" "k1 \<le> 8"
    "0 < bq_back_blank_bit_count q1" "k1 < n \<Longrightarrow> bq_back_blank_bit_count q1 = 8"
    "n \<le> (if bq_back_blank_bit_count q = 0 then 8 else bq_back_blank_bit_count q) \<Longrightarrow> k1 = n" "0 < n \<Longrightarrow> 0 < k1"
    using assms(1,3) by (rule add_some_back_bits_run) (rule that)
  let ?d1 = "drop_bit k1 d" and ?n1 = "n - k1"
  have n1: "?n1 \<le> 64" "?n1 < 8 \<or> bq_back_blank_bit_count q1 = 8" using assms(2) 1(7) by linarith+
  obtain q2 where 2: "add_back_bytes ?d1 ?n1 q1 = Some (?n1 - ?n1 mod 8, q2)" "bq_ok q2"
    "contents q2 = contents q1 @ bits (?n1 - ?n1 mod 8) ?d1" "8 \<le> ?n1 \<Longrightarrow> bq_back_blank_bit_count q2 = 0" "?n1 < 8 \<Longrightarrow> q2 = q1"
    using 1(2) n1 by (rule add_back_bytes_run) (rule that)
  let ?k2 = "?n1 - ?n1 mod 8"
  let ?d2 = "drop_bit ?k2 ?d1" and ?n2 = "?n1 mod 8"
  have n2: "?n1 - ?k2 = ?n2" by simp
  have clr1: "clear ?n1 ?d1" by (rule clear_shifted [OF assms(3) 1(4)])
  have clr2: "clear ?n2 ?d2" using clear_shifted [OF clr1 diff_le_self, of "?n1 mod 8"] unfolding n2 .
  obtain k3 q3 where 3: "add_some_back_bits ?d2 ?n2 q2 = Some (k3, q3)" "bq_ok q3" "contents q3 = contents q2 @ bits k3 ?d2"
    "k3 \<le> ?n2" "k3 \<le> 8" "0 < bq_back_blank_bit_count q3" "k3 < ?n2 \<Longrightarrow> bq_back_blank_bit_count q3 = 8"
    "?n2 \<le> (if bq_back_blank_bit_count q2 = 0 then 8 else bq_back_blank_bit_count q2) \<Longrightarrow> k3 = ?n2"
    "0 < ?n2 \<Longrightarrow> 0 < k3"
    using 2(2) clr2 by (rule add_some_back_bits_run) (rule that)
  have "?n2 \<le> (if bq_back_blank_bit_count q2 = 0 then 8 else bq_back_blank_bit_count q2)"
  proof (cases "8 \<le> ?n1")
    case True
    then show ?thesis using 2(4) by simp
  next
    case False
    then have "q2 = q1" using 2(5) by simp
    then show ?thesis using 1(4,7) False by (cases "k1 < n") auto
  qed
  with 3(8) have k3: "k3 = ?n2" .
  have small: "?k2 < 64" using 1(4,9) assms(2) by (cases "n = 0") auto
  have "contents q3 = contents q @ bits n d"
    unfolding 3(3) 2(3) 1(3) k3 append_assoc bits_join [OF diff_le_self, of ?n1 ?n2 ?d1, unfolded n2] bits_join [OF 1(4)] ..
  moreover have "add_bits d n q = Some q3"
    using assms(2) 1(1,5) 2(1) 3(1,5) small by (simp add: add_bits_def checked_shr_def n2 [simplified] k3 Let_def)
  ultimately show thesis using 3(2) by (intro that)
qed

section \<open>Taking bits\<close>

definition aligned :: "bit_queue \<Rightarrow> bool" where
  "aligned q \<longleftrightarrow> bq_front_blank_bit_count q = 0 \<or> bq_front_blank_bit_count q = 8"

definition at_back :: "bit_queue \<Rightarrow> bool" where
  "at_back q \<longleftrightarrow> bq_front_blank_bit_count q = 8 \<and> length (bq_byte_queue q) = 2"

lemma aligned_queue_of [simp]: "aligned (queue_of fb f ms b bb) \<longleftrightarrow> fb = 0 \<or> fb = 8" "aligned drained"
  by (simp_all add: aligned_def)

lemma pop_blank_front_run:
  assumes "bq_ok (queue_of fb f ms b bb)"
  shows "bq_ok (pop_blank_front (queue_of fb f ms b bb))"
    "contents (pop_blank_front (queue_of fb f ms b bb)) = contents (queue_of fb f ms b bb)"
    "fb = 0 \<or> fb = 8 \<Longrightarrow> aligned (pop_blank_front (queue_of fb f ms b bb))"
proof -
  have "pop_blank_front (queue_of fb f ms b bb) =
      (case ms of m # ms' \<Rightarrow> if fb = 8 then queue_of 0 m ms' b bb else queue_of fb f ms b bb | [] \<Rightarrow> queue_of fb f ms b bb)"
    by (cases ms) (auto simp: pop_blank_front_def queue_of_def)
  then show "bq_ok (pop_blank_front (queue_of fb f ms b bb))"
    "contents (pop_blank_front (queue_of fb f ms b bb)) = contents (queue_of fb f ms b bb)"
    "fb = 0 \<or> fb = 8 \<Longrightarrow> aligned (pop_blank_front (queue_of fb f ms b bb))"
    using assms by (auto split: list.split)
qed

lemma drop_front:
  assumes "k \<le> n"
  shows "drop k (bits n w @ bs) = bits (n - k) (drop_bit k w) @ bs"
  using assms by simp

lemma take_some_front_core:
  assumes "bq_ok (queue_of fb f ms b bb)" and "fb < 8" and "k = min n (8 - fb)"
    and q1: "queue_of fb f ms b bb = (if front_full_bit_count q = 0 \<and> 2 < length (bq_byte_queue q)
       then q\<lparr>bq_byte_queue := tl (bq_byte_queue q), bq_front_blank_bit_count := 0\<rparr> else q)"
  obtains q' where "take_some_front_bits n q = Some ((number (bits k f), k), q')" "bq_ok q'"
    "contents q' = drop k (contents (queue_of fb f ms b bb))" "k < n \<or> fb = 0 \<and> (k = 0 \<or> k = 8) \<Longrightarrow> aligned q'"
proof (cases "n = 0")
  case True
  with assms(3) have k: "k = 0" by simp
  have run: "take_some_front_bits n q = Some ((0, 0), queue_of fb f ms b bb)"
    unfolding take_some_front_bits_def Let_def q1 [symmetric] using True by simp
  show thesis by (rule that [of "queue_of fb f ms b bb"]) (use run k True assms(1) in simp_all)
next
  case False
  let ?q2 = "queue_of (fb + k) (drop_bit k f) ms b bb"
  have k: "0 < k" "k \<le> 8 - fb" "k \<le> 8" "fb + k \<le> 8" "8 - (fb + k) = 8 - fb - k" using False assms(2,3) by auto
  have full: "front_full_bit_count (queue_of fb f ms b bb) = 8 - fb" by (simp add: front_full_bit_count_def)
  have rest: "k < 8 \<Longrightarrow> checked_shr k f = Some (drop_bit k f)" "k = 8 \<Longrightarrow> drop_bit k f = 0"
    by (auto simp: checked_shr_def intro!: bit_word_eqI simp: bit_simps dest: bit_imp_le_length)
  have run: "take_some_front_bits n q = Some ((number (bits k f), k), pop_blank_front ?q2)"
    unfolding take_some_front_bits_def Let_def q1 [symmetric] full assms(3) [symmetric]
    using k(1,3) rest by (cases "k = 8") (simp_all add: low_order_ones_run masked_byte queue_of_def)
  have ok: "bq_ok ?q2"
    using assms(1) k(4) clear_drop_bit [of "8 - fb" f k] by simp
  have cont: "contents ?q2 = drop k (contents (queue_of fb f ms b bb))"
    unfolding contents_queue_of k(5) by (rule drop_front [OF k(2), symmetric])
  show thesis
  proof (rule that [OF run])
    show "aligned (pop_blank_front ?q2)" if "k < n \<or> fb = 0 \<and> (k = 0 \<or> k = 8)"
      using that assms(2,3) by (intro pop_blank_front_run(3) [OF ok]) auto
    show "contents (pop_blank_front ?q2) = drop k (contents (queue_of fb f ms b bb))"
      unfolding pop_blank_front_run(2) [OF ok] cont ..
  qed (rule pop_blank_front_run(1) [OF ok])
qed

lemma take_some_front_bits_run:
  assumes "bq_ok q"
  obtains k q' where "take_some_front_bits n q = Some ((number (take k (contents q)), k), q')" "bq_ok q'"
    "contents q' = drop k (contents q)" "k \<le> n" "k \<le> length (contents q)" "k \<le> 8" "k < n \<Longrightarrow> aligned q'"
    "aligned q \<Longrightarrow> n < 8 \<Longrightarrow> n \<le> length (contents q) \<Longrightarrow> k = n \<or> k = 0 \<and> at_back q'"
  using assms
proof (cases rule: ok_cases)
  case drained
  then show thesis
    by (intro that [of 0 drained]) (simp_all add: take_some_front_bits_def front_full_bit_count_def Let_def)
next
  case (queue fb f ms b bb)
  have len: "k \<le> 8 - fb \<Longrightarrow> take k (contents (queue_of fb f ms b bb)) = bits k f" for k fb f ms b bb
    by (simp add: min_absorb1)
  show thesis
  proof (cases "fb = 8")
    case False
    let ?k = "min n (8 - fb)"
    have q1: "queue_of fb f ms b bb = (if front_full_bit_count q = 0 \<and> 2 < length (bq_byte_queue q)
       then q\<lparr>bq_byte_queue := tl (bq_byte_queue q), bq_front_blank_bit_count := 0\<rparr> else q)"
      using queue False by (simp add: front_full_bit_count_def)
    have ok: "bq_ok (queue_of fb f ms b bb)" "fb < 8" using queue False by simp_all
    obtain q' where q': "take_some_front_bits n q = Some ((number (bits ?k f), ?k), q')" "bq_ok q'"
      "contents q' = drop ?k (contents (queue_of fb f ms b bb))" "?k < n \<or> fb = 0 \<and> (?k = 0 \<or> ?k = 8) \<Longrightarrow> aligned q'"
      by (rule take_some_front_core [OF ok refl q1]) (rule that)
    show thesis
    proof (rule that [of ?k q'])
      show "take_some_front_bits n q = Some ((number (take ?k (contents q)), ?k), q')"
        using q'(1) len [of ?k fb f ms b bb] queue(1) by simp
      show "aligned q \<Longrightarrow> n < 8 \<Longrightarrow> ?k = n \<or> ?k = 0 \<and> at_back q'"
        using queue(1) False by auto
      show "?k < n \<Longrightarrow> aligned q'" using q'(4) by blast
    qed (use q'(2,3) queue in auto)
  next
    case True
    show thesis
    proof (cases ms)
      case Nil
      then show thesis using queue True
        by (intro that [of 0 q]) (simp_all add: take_some_front_bits_def front_full_bit_count_def at_back_def Let_def)
    next
      case (Cons m ms')
      let ?k = "min n 8"
      have q1: "queue_of 0 m ms' b bb = (if front_full_bit_count q = 0 \<and> 2 < length (bq_byte_queue q)
         then q\<lparr>bq_byte_queue := tl (bq_byte_queue q), bq_front_blank_bit_count := 0\<rparr> else q)"
        using queue True Cons by (simp add: front_full_bit_count_def queue_of_def)
      have ok: "bq_ok (queue_of 0 m ms' b bb)" using queue by simp
      have same: "contents (queue_of 0 m ms' b bb) = contents q" using queue True Cons by simp
      obtain q' where q': "take_some_front_bits n q = Some ((number (bits ?k m), ?k), q')" "bq_ok q'"
        "contents q' = drop ?k (contents (queue_of 0 m ms' b bb))"
        "?k < n \<or> (0 :: nat) = 0 \<and> (?k = 0 \<or> ?k = 8) \<Longrightarrow> aligned q'"
        by (rule take_some_front_core [OF ok _ _ q1, of ?k n]) (auto intro: that)
      show thesis
      proof (rule that [of ?k q'])
        show "take_some_front_bits n q = Some ((number (take ?k (contents q)), ?k), q')"
          using q'(1) len [of ?k 0 m ms' b bb] unfolding same [symmetric] by simp
        show "?k \<le> length (contents q)" unfolding same [symmetric] by simp
        show "?k < n \<Longrightarrow> aligned q'" using q'(4) by blast
        show "contents q' = drop ?k (contents q)" using q'(3) unfolding same .
      qed (use q'(2) in auto)
    qed
  qed
qed

lemma number_byte: "number (bits 8 (b :: u8)) = ucast b"
proof (rule bit_word_eqI)
  fix i assume "i < LENGTH(64)"
  then show "bit (number (bits 8 b)) i = bit (ucast b :: u64) i"
    using bit_imp_le_length [of b i] by (cases "i < 8") (auto simp: bit_number bit_simps)
qed

lemma pop_bytes_run:
  assumes "n div 8 \<le> length bs" and "n \<le> orig" and "orig \<le> 64"
  shows "pop_bytes orig n acc bs =
    Some (acc OR push_bit (orig - n) (number (concat (map (bits 8) (take (n div 8) bs)))), drop (n div 8) bs)"
  using assms
proof (induction n arbitrary: acc bs rule: less_induct)
  case (less n)
  show ?case
  proof (cases "8 \<le> n")
    case False
    then show ?thesis by simp
  next
    case True
    then have d: "n div 8 = Suc ((n - 8) div 8)" by (simp add: le_div_geq)
    with less.prems(1) obtain b rest where bs: "bs = b # rest" by (cases bs) auto
    have small: "orig - n < 64" "n - 8 < n" "(n - 8) div 8 \<le> length rest" "n - 8 \<le> orig"
      using True less.prems d bs by auto
    have shift: "orig - (n - 8) = (orig - n) + 8" using True less.prems(2) by simp
    have "pop_bytes orig n acc bs = pop_bytes orig (n - 8) (acc OR push_bit (orig - n) (ucast b)) rest"
      using True small(1) by (subst pop_bytes.simps) (simp add: bs checked_shl_def del: pop_bytes.simps)
    also have "\<dots> = Some ((acc OR push_bit (orig - n) (ucast b)) OR
        push_bit (orig - (n - 8)) (number (concat (map (bits 8) (take ((n - 8) div 8) rest)))), drop ((n - 8) div 8) rest)"
      using less.IH [OF small(2,3,4) less.prems(3)] .
    finally show ?thesis
      unfolding shift bs d by (simp add: number_append number_byte push_bit_or or.assoc add.commute)
  qed
qed

lemma length_bytes [simp]: "length (concat (map (bits 8) (bs :: u8 list))) = 8 * length bs"
  by (induction bs) auto

lemma take_bytes: "take (8 * j) (concat (map (bits 8) (bs :: u8 list))) = concat (map (bits 8) (take j bs))"
proof (induction bs arbitrary: j)
  case (Cons b bs)
  then show ?case by (cases j) simp_all
qed simp

lemma drop_bytes: "drop (8 * j) (concat (map (bits 8) (bs :: u8 list))) = concat (map (bits 8) (drop j bs))"
proof (induction bs arbitrary: j)
  case (Cons b bs)
  then show ?case by (cases j) simp_all
qed simp

lemma take_front_bytes_core:
  assumes "8 \<le> n" and "n \<le> 64" and "bb \<le> 8" and "clear (8 - bb) b" and "n \<le> 8 * length xs + (8 - bb)"
    and q1: "\<lparr>bq_back_blank_bit_count = bb, bq_byte_queue = xs @ [b], bq_front_blank_bit_count = 0\<rparr> =
      (if bq_front_blank_bit_count q = 8
          then q\<lparr>bq_byte_queue := tl (bq_byte_queue q), bq_front_blank_bit_count := 0\<rparr> else q)"
    and bits: "contents q = concat (map (bits 8) xs) @ bits (8 - bb) b"
  obtains q' where "take_front_bytes n q = Some ((number (take (n - n mod 8) (contents q)), n - n mod 8), q')" "bq_ok q'"
    "contents q' = drop (n - n mod 8) (contents q)" "aligned q'"
proof -
  let ?j = "n div 8"
  have j: "n - n mod 8 = 8 * ?j" by (simp add: minus_mod_eq_mult_div)
  have len: "?j \<le> length (xs @ [b])" using assms(5) by (simp add: less_eq_div_iff_mult_less_eq)
  from pop_bytes_run [OF this, of n 0] assms(2) have pop: "pop_bytes n n 0 (xs @ [b]) =
    Some (number (concat (map (bits 8) (take ?j (xs @ [b])))), drop ?j (xs @ [b]))" by simp
  have run: "take_front_bytes n q = Some ((number (concat (map (bits 8) (take ?j (xs @ [b])))), n - n mod 8),
      if length (drop ?j (xs @ [b])) < 2
      then \<lparr>bq_back_blank_bit_count = bb, bq_byte_queue = 0 # drop ?j (xs @ [b]), bq_front_blank_bit_count = 8\<rparr>
      else \<lparr>bq_back_blank_bit_count = bb, bq_byte_queue = drop ?j (xs @ [b]), bq_front_blank_bit_count = 0\<rparr>)"
    unfolding take_front_bytes_def Let_def q1 [symmetric] using assms(1,2) by (simp add: pop del: pop_bytes.simps drop_append take_append)
  consider (all) "?j = Suc (length xs)" | (middle) "?j = length xs" | (some) "?j < length xs"
    using len by (fastforce simp: le_Suc_eq)
  then show thesis
  proof cases
    case all
    have "8 * ?j \<le> n" by simp
    with all assms(3,5) have bb: "bb = 0" by simp
    have "contents q = concat (map (bits 8) (xs @ [b]))" using bits bb by simp
    then show thesis using run all bb
      by (intro that [of drained]) (simp_all add: j)
  next
    case middle
    have t: "take (8 * ?j) (contents q) = concat (map (bits 8) xs)" "drop (8 * ?j) (contents q) = bits (8 - bb) b"
      unfolding bits middle by simp_all
    have "take_front_bytes n q = Some ((number (take (n - n mod 8) (contents q)), n - n mod 8), queue_of 8 0 [] b bb)"
      using run middle t(1) by (simp add: j queue_of_def)
    then show thesis using t(2) assms(3,4) by (intro that [of "queue_of 8 0 [] b bb"]) (simp_all add: j)
  next
    case j_less: some
    obtain x ys where some: "drop ?j xs = x # ys" "?j < length xs" using j_less Cons_nth_drop_Suc by metis
    have t: "take (8 * ?j) (contents q) = concat (map (bits 8) (take ?j xs))"
      unfolding bits using some(2) by (simp add: take_bytes)
    have d: "drop (8 * ?j) (contents q) = concat (map (bits 8) (x # ys)) @ bits (8 - bb) b"
      unfolding bits some(1) [symmetric] using some(2) by (simp add: drop_bytes)
    have "drop ?j (xs @ [b]) = x # ys @ [b]" using some by simp
    with run some(2) have "take_front_bytes n q = Some ((number (take (n - n mod 8) (contents q)), n - n mod 8), queue_of 0 x ys b bb)"
      by (simp add: j t queue_of_def)
    then show thesis using assms(3,4) d by (intro that [of "queue_of 0 x ys b bb"]) (simp_all add: j)
  qed
qed

lemma take_front_bytes_run:
  assumes "bq_ok q" and "n \<le> 64" and "n < 8 \<or> aligned q" and "n \<le> length (contents q)"
  obtains q' where "take_front_bytes n q = Some ((number (take (n - n mod 8) (contents q)), n - n mod 8), q')" "bq_ok q'"
    "contents q' = drop (n - n mod 8) (contents q)" "aligned q \<Longrightarrow> aligned q'" "n < 8 \<Longrightarrow> q' = q"
proof (cases "n < 8")
  case True
  show thesis by (rule that [of q]) (use True assms(1) in \<open>simp_all add: take_front_bytes_def\<close>)
next
  case False
  have al: "aligned q" "8 \<le> n" using assms(3) False by auto
  from assms(1) obtain xs b bb where
    x: "bb \<le> 8" "clear (8 - bb) b" "contents q = concat (map (bits 8) xs) @ bits (8 - bb) b"
    "\<lparr>bq_back_blank_bit_count = bb, bq_byte_queue = xs @ [b], bq_front_blank_bit_count = 0\<rparr> =
      (if bq_front_blank_bit_count q = 8
          then q\<lparr>bq_byte_queue := tl (bq_byte_queue q), bq_front_blank_bit_count := 0\<rparr> else q)"
  proof (cases rule: ok_cases)
    case drained
    with assms(4) False show thesis by simp
  next
    case (queue fb f ms b bb)
    then have "fb = 0 \<or> fb = 8" using al(1) by simp
    then show thesis
    proof
      assume fb: "fb = 0"
      show thesis
      proof (rule that [of bb b "f # ms"])
        show "\<lparr>bq_back_blank_bit_count = bb, bq_byte_queue = (f # ms) @ [b], bq_front_blank_bit_count = 0\<rparr> =
            (if bq_front_blank_bit_count q = 8
             then q\<lparr>bq_byte_queue := tl (bq_byte_queue q), bq_front_blank_bit_count := 0\<rparr> else q)"
          using queue(1) fb by (simp add: queue_of_def)
      qed (use queue fb in simp_all)
    next
      assume fb: "fb = 8"
      show thesis
      proof (rule that [of bb b ms])
        show "\<lparr>bq_back_blank_bit_count = bb, bq_byte_queue = ms @ [b], bq_front_blank_bit_count = 0\<rparr> =
            (if bq_front_blank_bit_count q = 8
             then q\<lparr>bq_byte_queue := tl (bq_byte_queue q), bq_front_blank_bit_count := 0\<rparr> else q)"
          using queue(1) fb by (simp add: queue_of_def)
      qed (use queue fb in simp_all)
    qed
  qed
  have "n \<le> 8 * length xs + (8 - bb)" using assms(4) x(3) by simp
  from take_front_bytes_core [OF al(2) assms(2) x(1,2) this x(4,3)] obtain q' where
    "take_front_bytes n q = Some ((number (take (n - n mod 8) (contents q)), n - n mod 8), q')" "bq_ok q'"
    "contents q' = drop (n - n mod 8) (contents q)" "aligned q'" .
  then show thesis using False by (intro that [of q']) simp_all
qed

lemma pop_blank_back_run:
  assumes "bq_ok (queue_of fb f ms b bb)"
  shows "bq_ok (pop_blank_back (queue_of fb f ms b bb))"
    "contents (pop_blank_back (queue_of fb f ms b bb)) = contents (queue_of fb f ms b bb)"
proof -
  have "pop_blank_back (queue_of fb f ms b bb) =
      (if bb = 8 \<and> ms \<noteq> [] then queue_of fb f (butlast ms) (last ms) 0 else queue_of fb f ms b bb)"
    by (auto simp: pop_blank_back_def queue_of_def butlast_append)
  moreover have "concat (map (bits 8) ms) = concat (map (bits 8) (butlast ms)) @ bits 8 (last ms)" if "ms \<noteq> []"
    using that by (cases ms rule: rev_cases) simp_all
  ultimately show "bq_ok (pop_blank_back (queue_of fb f ms b bb))"
    "contents (pop_blank_back (queue_of fb f ms b bb)) = contents (queue_of fb f ms b bb)"
    using assms by auto
qed

lemma take_some_back_bits_run:
  assumes "bq_ok q" and "n < 8" and "n = 0 \<or> at_back q" and "n \<le> length (contents q)"
  obtains q' where "take_some_back_bits n q = Some ((number (take n (contents q)), n), q')" "bq_ok q'"
    "contents q' = drop n (contents q)"
  using assms(1)
proof (cases rule: ok_cases)
  case drained
  with assms(4) have "n = 0" by simp
  then show thesis
    by (intro that [of drained])
      (simp_all add: drained take_some_back_bits_def back_full_bit_count_def low_order_ones_run checked_shr_def
        pop_blank_back_def Let_def)
next
  case (queue fb f ms b bb)
  have n: "n \<le> 8 - bb"
    using assms(3,4) queue(1) by (auto simp: at_back_def)
  let ?q1 = "queue_of fb f ms (drop_bit n b) (bb + n)"
  have nb: "8 - (bb + n) = 8 - bb - n" "bb + n \<le> 8" "8 - bb - n < 8 \<or> n = 0" using n queue(3) by auto
  have ok: "bq_ok ?q1" using queue(2-5) nb clear_drop_bit [of "8 - bb" b n] by simp
  have data: "ucast (if 8 - bb - n < 8 then b AND ucast (mask n :: u64) else 0) = number (bits n b)"
    using nb(3) masked_byte [of n b] assms(2) by auto
  have shr: "checked_shr n b = Some (drop_bit n b)" using assms(2) by (simp add: checked_shr_def)
  have ones: "low_order_ones n = Some (mask n)" using assms(2) by (simp add: low_order_ones_run)
  have upd: "queue_of fb f ms b bb\<lparr>bq_byte_queue := butlast (f # ms @ [b]) @ [drop_bit n b], bq_back_blank_bit_count := bb + n\<rparr> = ?q1"
    by (simp add: queue_of_def butlast_append)
  have run: "take_some_back_bits n q = Some ((number (bits n b), n), pop_blank_back ?q1)"
    unfolding take_some_back_bits_def Let_def queue(1) back_full_bit_count_def queue_of_sel min_absorb1 [OF n]
      ones
    using data shr upd by (auto simp del: butlast.simps split: if_splits)
  show thesis
  proof (cases "n = 0")
    case True
    then show thesis using run pop_blank_back_run [OF ok] queue(1) by (intro that [of "pop_blank_back ?q1"]) simp_all
  next
    case False
    with assms(3) queue(1) have "fb = 8" "ms = []" by (auto simp: at_back_def)
    then have "take n (contents q) = bits n b" "contents ?q1 = drop n (contents q)"
      using queue(1) n by (simp_all add: min_absorb1)
    then show thesis using run pop_blank_back_run [OF ok] by (intro that [of "pop_blank_back ?q1"]) simp_all
  qed
qed

lemma number_take_split:
  assumes "i + k \<le> length bs"
  shows "number (take (i + k) bs) = number (take i bs) OR push_bit i (number (take k (drop i bs)))"
  using assms by (simp add: take_add number_append min_absorb2)

lemma number_take_parts:
  assumes "i + j + k + l \<le> length bs"
  shows "number (take (i + j + k + l) bs) = number (take i bs) OR push_bit i (number (take j (drop i bs))) OR
    push_bit (i + j) (number (take k (drop (i + j) bs))) OR push_bit (i + j + k) (number (take l (drop (i + j + k) bs)))"
proof -
  have le: "i + j \<le> length bs" "i + j + k \<le> length bs" using assms by linarith+
  show ?thesis unfolding number_take_split [OF assms] number_take_split [OF le(2)] number_take_split [OF le(1)] or.assoc ..
qed

lemma shift_in:
  assumes "0 < k \<longrightarrow> p < 64"
  shows "(if 0 < k then do { s \<leftarrow> checked_shl p (number (take k bs)); Some (x OR s) } else Some x) =
    Some (x OR push_bit p (number (take k bs)))"
  using assms by (cases k) (simp_all add: checked_shl_def)

text \<open>Taking bits from the queue removes them, if there are enough; otherwise nothing happens.\<close>

lemma take_bits_run:
  assumes "bq_ok q" and "n \<le> 64"
  obtains (few) "length (contents q) < n" "take_bits n q = Some (None, q)"
    | (enough) q' where "n \<le> length (contents q)" "take_bits n q = Some (Some (number (take n (contents q))), q')" "bq_ok q'"
      "contents q' = drop n (contents q)"
proof (cases "length (contents q) < n")
  case True
  then show thesis using few assms by (simp add: take_bits_def bq_len_contents)
next
  case False
  then have n: "n \<le> length (contents q)" by simp
  obtain k1 q1 where 1: "take_some_front_bits n q = Some ((number (take k1 (contents q)), k1), q1)" "bq_ok q1"
    "contents q1 = drop k1 (contents q)" "k1 \<le> n" "k1 \<le> length (contents q)" "k1 \<le> 8" "k1 < n \<Longrightarrow> aligned q1"
    "aligned q \<Longrightarrow> n < 8 \<Longrightarrow> n \<le> length (contents q) \<Longrightarrow> k1 = n \<or> k1 = 0 \<and> at_back q1"
    using assms(1) by (rule take_some_front_bits_run) (rule that)
  let ?n1 = "n - k1"
  have n1: "?n1 \<le> 64" "?n1 < 8 \<or> aligned q1" "?n1 \<le> length (contents q1)"
    using assms(2) 1(3) n 1(7) by (cases "k1 < n"; simp)+
  obtain q2 where 2: "take_front_bytes ?n1 q1 = Some ((number (take (?n1 - ?n1 mod 8) (contents q1)), ?n1 - ?n1 mod 8), q2)"
    "bq_ok q2" "contents q2 = drop (?n1 - ?n1 mod 8) (contents q1)" "aligned q1 \<Longrightarrow> aligned q2" "?n1 < 8 \<Longrightarrow> q2 = q1"
    using 1(2) n1 by (rule take_front_bytes_run) (rule that)
  let ?k2 = "?n1 - ?n1 mod 8" and ?n2 = "?n1 mod 8"
  have n2: "?n1 - ?k2 = ?n2" "?n2 < 8" "?n2 \<le> length (contents q2)" using n1(3) by (simp_all add: 2(3))
  obtain k3 q3 where 3: "take_some_front_bits ?n2 q2 = Some ((number (take k3 (contents q2)), k3), q3)" "bq_ok q3"
    "contents q3 = drop k3 (contents q2)" "k3 \<le> ?n2" "k3 \<le> length (contents q2)" "k3 \<le> 8" "k3 < ?n2 \<Longrightarrow> aligned q3"
    "aligned q2 \<Longrightarrow> ?n2 < 8 \<Longrightarrow> ?n2 \<le> length (contents q2) \<Longrightarrow> k3 = ?n2 \<or> k3 = 0 \<and> at_back q3"
    using 2(2) by (rule take_some_front_bits_run) (rule that)
  have rest: "k3 = ?n2 \<or> k3 = 0 \<and> at_back q3"
  proof (cases "k1 = n")
    case True
    then show ?thesis using 3(4) by simp
  next
    case False
    then have "aligned q2" using 1(4,7) 2(4) by simp
    then show ?thesis using 3(8) n2(2,3) by blast
  qed
  let ?n3 = "?n2 - k3"
  have n3: "?n3 < 8" "?n3 = 0 \<or> at_back q3" "?n3 \<le> length (contents q3)" using n2(2,3) rest 3(3) by auto
  obtain q4 where 4: "take_some_back_bits ?n3 q3 = Some ((number (take ?n3 (contents q3)), ?n3), q4)" "bq_ok q4"
    "contents q4 = drop ?n3 (contents q3)"
    using 3(2) n3 by (rule take_some_back_bits_run)
  let ?C = "contents q" and ?p2 = "k1 + ?k2"
  have sum: "?p2 + k3 + ?n3 = n" "?n3 = ?n2 - k3" using 1(4) 3(4) n2(1) by auto
  have c1: "contents q2 = drop ?p2 ?C" unfolding 2(3) 1(3) drop_drop by (simp only: add.commute)
  have c2: "contents q3 = drop (?p2 + k3) ?C" unfolding 3(3) c1 drop_drop by (simp only: add.commute)
  have c3: "contents q4 = drop n ?C" unfolding 4(3) c2 drop_drop add.commute [of ?n3] sum(1) ..
  note c = 1(3) c1 c2 c3
  have le: "k1 + ?k2 + k3 + ?n3 \<le> length ?C" using sum n by linarith
  have joined: "number (take n ?C) = number (take k1 ?C) OR push_bit k1 (number (take ?k2 (drop k1 ?C))) OR
      push_bit ?p2 (number (take k3 (drop ?p2 ?C))) OR push_bit (?p2 + k3) (number (take ?n3 (drop (?p2 + k3) ?C)))"
    using number_take_parts [OF le] unfolding sum(1) .
  have shl: "checked_shl k1 x = Some (push_bit k1 x)" for x :: u64
    using 1(6) by (simp add: checked_shl_def)
  have small: "0 < k3 \<longrightarrow> ?p2 < 64" "0 < ?n3 \<longrightarrow> ?p2 + k3 < 64" using sum(1) assms(2) by linarith+
  have "take_bits n q = Some (Some (number (take n ?C)), q4)"
  proof -
    have len: "\<not> 64 < n" "\<not> bq_len q < n" using assms n by (simp_all add: bq_len_contents)
    have whole: "\<not> ?p2 + k3 + ?n3 \<noteq> n" using sum(1) by blast
    show ?thesis
      unfolding take_bits_def if_not_P [OF len(1)] if_not_P [OF len(2)] 1(1) bind.bind_lunit prod.case Let_def 2(1) shl
        n2(1) 3(1) shift_in [OF small(1)] 4(1) shift_in [OF small(2)] if_not_P [OF whole] c(1-3) joined by (simp only: or.assoc)
  qed
  then show thesis using enough n 4(2) c(4) by simp
qed

section \<open>The interface of a queue of bits\<close>

text \<open>What the serialisers rely on.\<close>

locale bit_fifo =
  fixes ok :: "'q \<Rightarrow> bool" and held :: "'q \<Rightarrow> bool list"
    and add_to :: "u64 \<Rightarrow> nat \<Rightarrow> 'q \<Rightarrow> 'q run" and take_from :: "nat \<Rightarrow> 'q \<Rightarrow> (u64 option \<times> 'q) run"
  assumes added: "ok q \<Longrightarrow> n \<le> 64 \<Longrightarrow> clear n d \<Longrightarrow> \<exists>q'. add_to d n q = Some q' \<and> ok q' \<and> held q' = held q @ bits n d"
    and taken: "ok q \<Longrightarrow> n \<le> 64 \<Longrightarrow> n \<le> length (held q) \<Longrightarrow>
      \<exists>q'. take_from n q = Some (Some (number (take n (held q))), q') \<and> ok q' \<and> held q' = drop n (held q)"
    and refused: "ok q \<Longrightarrow> n \<le> 64 \<Longrightarrow> length (held q) < n \<Longrightarrow> take_from n q = Some (None, q)"
begin

lemma take_front:
  assumes "ok q" and "n \<le> 64" and "clear n d" and "held q = bits n d @ rest"
  shows "\<exists>q'. take_from n q = Some (Some d, q') \<and> ok q' \<and> held q' = rest"
proof -
  have "bit (number (bits n d)) i = bit d i" if "i < LENGTH(64)" for i
    using that assms(3) by (cases "i < n") (auto simp: bit_number clear_def)
  then have "number (bits n d) = d" by (rule bit_word_eqI)
  with taken [OF assms(1,2)] assms(4) show ?thesis by simp
qed

lemma add_each:
  assumes "ok q" and "\<forall>(d, n) \<in> set fs. n \<le> 64 \<and> clear n d"
  shows "\<exists>q'. iter_each (\<lambda>(d, n). add_to d n) fs q = Some q' \<and> ok q' \<and>
    held q' = held q @ concat (map (\<lambda>(d, n). bits n d) fs)"
  using assms
proof (induction fs arbitrary: q)
  case (Cons fd fs)
  obtain d n where fd: "fd = (d, n)" by fastforce
  with Cons.prems(2) have "n \<le> 64" "clear n d" by simp_all
  from added [OF Cons.prems(1) this] obtain q1 where q1: "add_to d n q = Some q1" "ok q1" "held q1 = held q @ bits n d" by blast
  from Cons.IH [OF q1(2)] Cons.prems(2) obtain q2 where
    "iter_each (\<lambda>(d, n). add_to d n) fs q1 = Some q2" "ok q2" "held q2 = held q1 @ concat (map (\<lambda>(d, n). bits n d) fs)"
    by fastforce
  with q1 fd show ?case by simp
qed simp

end

interpretation packed: bit_fifo bq_ok contents add_bits take_bits
proof
  fix q n and d :: u64
  assume "bq_ok q" "n \<le> 64" "clear n d"
  then show "\<exists>q'. add_bits d n q = Some q' \<and> bq_ok q' \<and> contents q' = contents q @ bits n d"
    by (metis add_bits_run)
next
  fix q n
  assume "bq_ok q" "n \<le> 64" "n \<le> length (contents q)"
  then show "\<exists>q'. take_bits n q = Some (Some (number (take n (contents q))), q') \<and> bq_ok q' \<and> contents q' = drop n (contents q)"
    by (metis take_bits_run not_less)
next
  fix q n
  assume "bq_ok q" "n \<le> 64" "length (contents q) < n"
  then show "take_bits n q = Some (None, q)"
    by (metis take_bits_run not_less)
qed

lemma bq_new_ok: "bq_ok bq_new" "contents bq_new = []"
  by (simp_all add: bq_ok_def contents_def bq_new_def front_full_bit_count_def back_full_bit_count_def)

section \<open>Properties\<close>

text \<open>
  C32. The queue of bytes implements a queue of bits: adding a number of at most 64 bits appends its bits, low-order bit
  first; taking bits removes as many from the front and returns them as a number, or changes nothing if there are
  not enough; the length is the number of bits; and neither ever panics.
\<close>

theorem bit_queue_refines_fifo:
  assumes "bq_ok q" and "n \<le> 64"
  shows "bq_len q = length (contents q) \<and>
    ((\<forall>i. n \<le> i \<longrightarrow> \<not> bit d i) \<longrightarrow>
       (\<exists>q'. add_bits d n q = Some q' \<and> bq_ok q' \<and> contents q' = contents q @ map (bit d) [0..<n])) \<and>
    (\<exists>res q'. take_bits n q = Some (res, q') \<and> bq_ok q' \<and>
       (if length (contents q) < n then res = None \<and> q' = q
        else res = Some (horner_sum of_bool 2 (take n (contents q))) \<and> contents q' = drop n (contents q)))"
proof (intro conjI impI)
  show "bq_len q = length (contents q)" by (rule bq_len_contents [OF assms(1)])
  show "\<exists>q'. add_bits d n q = Some q' \<and> bq_ok q' \<and> contents q' = contents q @ map (bit d) [0..<n]"
    if "\<forall>i. n \<le> i \<longrightarrow> \<not> bit d i"
    using packed.added [OF assms, of d] that by (simp add: clear_def bits_def)
  show "\<exists>res q'. take_bits n q = Some (res, q') \<and> bq_ok q' \<and>
       (if length (contents q) < n then res = None \<and> q' = q
        else res = Some (horner_sum of_bool 2 (take n (contents q))) \<and> contents q' = drop n (contents q))"
  proof (cases "length (contents q) < n")
    case True
    then show ?thesis using packed.refused [OF assms] assms(1) by simp
  next
    case False
    then show ?thesis using packed.taken [OF assms] by (auto simp: number_def)
  qed
qed

theorem bit_queue_refines_fifo_witness:
  "\<exists>q q'. add_bits 0x2D 6 bq_new = Some q \<and> take_bits 4 q = Some (Some 0xD, q') \<and> contents q' = [False, True]"
proof -
  have "\<forall>i. 6 \<le> i \<longrightarrow> \<not> bit (0x2D :: u64) i"
    using clear_less [of 6 "0x2D :: u64"] by (simp add: clear_def)
  with bit_queue_refines_fifo [OF bq_new_ok(1), of 6 "0x2D"] obtain q where
    q: "add_bits 0x2D 6 bq_new = Some q" "bq_ok q" "contents q = map (bit (0x2D :: u64)) [0..<6]" by (auto simp: bq_new_ok)
  have c: "contents q = [True, False, True, True, False, True]" unfolding q(3) by code_simp
  have "horner_sum of_bool 2 (take 4 [True, False, True, True, False, True]) = (0xD :: u64)" by code_simp
  with bit_queue_refines_fifo [OF q(2), of 4 0] c obtain q' where
    "take_bits 4 q = Some (Some 0xD, q')" "contents q' = [False, True]" by auto
  with q(1) show ?thesis by blast
qed

text \<open>
  The condition is needed: a number with more bits than are added spoils the queue: its upper bits stay in the last byte, where they are mixed
  with the bits that are added next.
\<close>

lemma wide_number_spoils_queue:
  "map_option fst (do { q1 \<leftarrow> add_bits 3 1 bq_new; q2 \<leftarrow> add_bits 0 1 q1; take_bits 2 q2 }) = Some (Some 3)"
  by code_simp

end
