(* ===== verification/Country_Blocks.thy ===== *)
theory Country_Blocks
  imports Bit_Queue Node_Addr "HOL-Library.Char_ord"
begin

text \<open>
  The table of countries by IP address: \<^verbatim>\<open>ip_country/src/countries.rs\<close>, \<^verbatim>\<open>country_block_stream.rs\<close>,
  \<^verbatim>\<open>country_block_serde.rs\<close>, \<^verbatim>\<open>country_finder.rs\<close> and the part of \<^verbatim>\<open>ip_country.rs\<close> that turns a
  queue of bits into numbers. What the source writes once for both versions of IP, over traits, is
  written once here over a record of what the traits provide. The generated text around the numbers is not
  modelled, and error messages are cases of a datatype.
\<close>

section \<open>Countries\<close>

record country =
  co_index :: nat
  co_iso3166 :: string
  co_name :: string

definition country_new :: "nat \<Rightarrow> string \<Rightarrow> string \<Rightarrow> country" where
  "country_new index iso3166 name = \<lparr>co_index = index, co_iso3166 = iso3166, co_name = name\<rparr>"

record countries =
  cs_countries :: "country list"
  cs_index_by_iso3166 :: "(string, nat) fmap"

text \<open>Collecting into a hash map: a later entry replaces an earlier one.\<close>

definition countries_from :: "country list \<Rightarrow> countries" where
  "countries_from cs = \<lparr>cs_countries = cs,
     cs_index_by_iso3166 = fmap_of_list (rev (map (\<lambda>c. (co_iso3166 c, co_index c)) cs))\<rparr>"

text \<open>Without the first pair that satisfies the condition.\<close>

fun remove_first :: "('a \<Rightarrow> bool) \<Rightarrow> 'a list \<Rightarrow> 'a list" where
  "remove_first P [] = []"
| "remove_first P (x # xs) = (if P x then xs else x # remove_first P xs)"

definition countries_new :: "(string \<times> string) list \<Rightarrow> countries" where
  "countries_new country_pairs =
     (let by_code = sort_key fst (remove_first (\<lambda>(iso3166, _). iso3166 = ''ZZ'') country_pairs);
          cs = map (\<lambda>(index, iso3166, name). country_new (index + 1) iso3166 name) (enumerate 0 by_code)
      in countries_from (country_new 0 ''ZZ'' ''Sentinel'' # cs))"

datatype country_error = InvalidCode string | NoCountryAt nat

definition country_from_index :: "countries \<Rightarrow> nat \<Rightarrow> country_error + country" where
  "country_from_index cs index =
     (if index < length (cs_countries cs) then Inr (cs_countries cs ! index) else Inl (NoCountryAt index))"

definition to_ascii_uppercase :: "string \<Rightarrow> string" where
  "to_ascii_uppercase s = map (\<lambda>c. if CHR ''a'' \<le> c \<and> c \<le> CHR ''z'' then char_of (of_char c - 32 :: nat) else c) s"

definition country_from_code :: "countries \<Rightarrow> string \<Rightarrow> (country_error + country) run" where
  "country_from_code cs iso3166 =
     (case fmlookup (cs_index_by_iso3166 cs) (to_ascii_uppercase iso3166) of
        None \<Rightarrow> ret (Inl (InvalidCode iso3166))
      | Some index \<Rightarrow> (case country_from_index cs index of Inr c \<Rightarrow> ret (Inr c) | Inl _ \<Rightarrow> panic))"

section \<open>Ranges and blocks\<close>

datatype ip_range = RangeV4 u32 u32 | RangeV6 u128 u128

fun ip_range_new :: "ip_addr \<Rightarrow> ip_addr \<Rightarrow> ip_range run" where
  "ip_range_new (V4 start_ip) (V4 end_ip) = ret (RangeV4 start_ip end_ip)"
| "ip_range_new (V6 start_ip) (V6 end_ip) = ret (RangeV6 start_ip end_ip)"
| "ip_range_new _ _ = panic"

definition contains_inner :: "u128 \<Rightarrow> u128 \<Rightarrow> u128 \<Rightarrow> bool" where
  "contains_inner begin_ip end_ip candidate \<longleftrightarrow> begin_ip \<le> candidate \<and> candidate \<le> end_ip"

fun range_contains :: "ip_range \<Rightarrow> ip_addr \<Rightarrow> bool" where
  "range_contains (RangeV4 begin_ip end_ip) (V4 candidate) = contains_inner (ucast begin_ip) (ucast end_ip) (ucast candidate)"
| "range_contains (RangeV6 begin_ip end_ip) (V6 candidate) = contains_inner begin_ip end_ip candidate"
| "range_contains _ _ = False"

fun range_start :: "ip_range \<Rightarrow> ip_addr" where
  "range_start (RangeV4 start_ip _) = V4 start_ip"
| "range_start (RangeV6 start_ip _) = V6 start_ip"

fun range_end :: "ip_range \<Rightarrow> ip_addr" where
  "range_end (RangeV4 _ end_ip) = V4 end_ip"
| "range_end (RangeV6 _ end_ip) = V6 end_ip"

definition compare_with_range :: "'a::len word \<Rightarrow> 'a word \<Rightarrow> 'a word \<Rightarrow> ordering" where
  "compare_with_range examined low high =
     (if examined < low then Greater else if high < examined then Less else Equal)"

fun ordering_by_range :: "ip_range \<Rightarrow> ip_addr \<Rightarrow> ordering run" where
  "ordering_by_range (RangeV4 low high) (V4 ip) = ret (compare_with_range ip low high)"
| "ordering_by_range (RangeV6 low high) (V6 ip) = ret (compare_with_range ip low high)"
| "ordering_by_range _ _ = panic"

record country_block =
  cb_ip_range :: ip_range
  cb_country :: country

section \<open>The parts of an address\<close>

definition ipv4_octets :: "u32 \<Rightarrow> u8 list" where
  "ipv4_octets ip = map (\<lambda>i. ucast (drop_bit (24 - 8 * i) ip)) [0..<4]"

definition ipv6_octets :: "u128 \<Rightarrow> u8 list" where
  "ipv6_octets ip = map (\<lambda>i. ucast (drop_bit (120 - 8 * i) ip)) [0..<16]"

definition ipv6_segments :: "u128 \<Rightarrow> u16 list" where
  "ipv6_segments ip = map (\<lambda>i. ucast (drop_bit (112 - 16 * i) ip)) [0..<8]"

definition ipv4_from_octets :: "u8 list \<Rightarrow> u32" where
  "ipv4_from_octets bs = fold (\<lambda>b ip. push_bit 8 ip OR ucast b) bs 0"

definition ipv6_from_segments :: "u16 list \<Rightarrow> u128" where
  "ipv6_from_segments ss = fold (\<lambda>s ip. push_bit 16 ip OR ucast s) ss 0"

definition integer_from_ip_generic :: "u8 list \<Rightarrow> 'a::len word" where
  "integer_from_ip_generic octets = fold (\<lambda>octet bit_data. push_bit 8 bit_data OR ucast octet) octets 0"

definition plus_one_ipv4 :: "u32 \<Rightarrow> u32" where
  "plus_one_ipv4 ip = integer_from_ip_generic (ipv4_octets ip) + 1"

definition minus_one_ipv4 :: "u32 \<Rightarrow> u32" where
  "minus_one_ipv4 ip = integer_from_ip_generic (ipv4_octets ip) - 1"

definition plus_one_ipv6 :: "u128 \<Rightarrow> u128" where
  "plus_one_ipv6 ip = integer_from_ip_generic (ipv6_octets ip) + 1"

definition minus_one_ipv6 :: "u128 \<Rightarrow> u128" where
  "minus_one_ipv6 ip = integer_from_ip_generic (ipv6_octets ip) - 1"

text \<open>
  What \<open>IPIntoSegments\<close>, \<open>PlusMinusOneIP\<close>, \<open>DeserializerPrivate\<close> and the calls of the generic code say of a version of IP. A
  segment is carried as \<open>u64\<close>, and \<open>TryFrom\<close> back to its own width fails if it does not fit.
\<close>

record 'ip ip_version =
  iv_segments :: "'ip \<Rightarrow> u64 list"
  iv_from_segments :: "u64 list \<Rightarrow> 'ip"
  iv_plus_one_ip :: "'ip \<Rightarrow> 'ip"
  iv_minus_one_ip :: "'ip \<Rightarrow> 'ip"
  iv_first_prev_start :: "'ip"
  iv_max_ip_value :: "'ip"
  iv_difference_count_bit_count :: nat
  iv_index_bit_count :: nat
  iv_segment_bit_count :: nat
  iv_range :: "'ip \<Rightarrow> 'ip \<Rightarrow> ip_range"

definition ipv4_version :: "u32 ip_version" where
  "ipv4_version = \<lparr>iv_segments = (\<lambda>ip. map ucast (ipv4_octets ip)),
     iv_from_segments = (\<lambda>ss. ipv4_from_octets (map ucast ss)),
     iv_plus_one_ip = plus_one_ipv4, iv_minus_one_ip = minus_one_ipv4,
     iv_first_prev_start = 0xFFFFFFFE, iv_max_ip_value = 0xFFFFFFFF,
     iv_difference_count_bit_count = 2, iv_index_bit_count = 2, iv_segment_bit_count = 8, iv_range = RangeV4\<rparr>"

definition ipv6_version :: "u128 ip_version" where
  "ipv6_version = \<lparr>iv_segments = (\<lambda>ip. map ucast (ipv6_segments ip)),
     iv_from_segments = (\<lambda>ss. ipv6_from_segments (map ucast ss)),
     iv_plus_one_ip = plus_one_ipv6, iv_minus_one_ip = minus_one_ipv6,
     iv_first_prev_start = 0xFFFFFFFFFFFFFFFFFFFFFFFFFFFFFFFE, iv_max_ip_value = 0xFFFFFFFFFFFFFFFFFFFFFFFFFFFFFFFF,
     iv_difference_count_bit_count = 3, iv_index_bit_count = 3, iv_segment_bit_count = 16, iv_range = RangeV6\<rparr>"

section \<open>Writing\<close>

record difference =
  df_index :: nat
  df_value :: u64

definition ips_into_differences :: "'ip ip_version \<Rightarrow> 'ip \<Rightarrow> 'ip \<Rightarrow> difference list" where
  "ips_into_differences V from_ip to_ip =
     List.map_filter (\<lambda>(index, from_segment, to_segment).
       if to_segment = from_segment then None else Some \<lparr>df_index = index, df_value = to_segment\<rparr>)
       (enumerate 0 (zip (iv_segments V from_ip) (iv_segments V to_ip)))"

record 'ip ip_serializer =
  ser_prev_start :: "'ip"
  ser_prev_end :: "'ip"
  ser_block_count :: nat
  ser_bit_queue :: bit_queue

definition ip_serializer_new :: "'ip \<Rightarrow> 'ip \<Rightarrow> 'ip ip_serializer" where
  "ip_serializer_new prev_start prev_end =
     \<lparr>ser_prev_start = prev_start, ser_prev_end = prev_end, ser_block_count = 0, ser_bit_queue = bq_new\<rparr>"

definition add_difference :: "'ip ip_version \<Rightarrow> difference \<Rightarrow> bit_queue \<Rightarrow> bit_queue run" where
  "add_difference V d q = do {
     q1 \<leftarrow> add_bits (of_nat (df_index d)) (iv_index_bit_count V) q;
     add_bits (df_value d) (iv_segment_bit_count V) q1 }"

text \<open>The part of \<open>add_ip_generic\<close> after the gap was filled.\<close>

definition add_block :: "'ip ip_version \<Rightarrow> 'ip \<Rightarrow> 'ip \<Rightarrow> nat \<Rightarrow> 'ip ip_serializer \<Rightarrow> 'ip ip_serializer run" where
  "add_block V start_ip end_ip country_index s = do {
     let differences = ips_into_differences V (ser_prev_start s) start_ip;
     if differences = [] then panic else do {
       q1 \<leftarrow> add_bits (of_nat (length differences - 1)) (iv_difference_count_bit_count V) (ser_bit_queue s);
       q2 \<leftarrow> iter_each (add_difference V) differences q1;
       q3 \<leftarrow> add_bits (of_nat country_index) 9 q2;
       ret (s\<lparr>ser_bit_queue := q3, ser_prev_start := start_ip, ser_prev_end := end_ip,
         ser_block_count := ser_block_count s + 1\<rparr>) } }"

function add_ip_generic ::
  "'ip ip_version \<Rightarrow> 'ip \<Rightarrow> 'ip \<Rightarrow> nat \<Rightarrow> 'ip ip_serializer \<Rightarrow> 'ip ip_serializer run" where
  "add_ip_generic V start_ip end_ip country_index s = do {
     let expected_start = iv_plus_one_ip V (ser_prev_end s);
     s1 \<leftarrow> (if start_ip \<noteq> expected_start
       then add_ip_generic V expected_start (iv_minus_one_ip V start_ip) 0 s else ret s);
     add_block V start_ip end_ip country_index s1 }"
  by pat_completeness auto
termination
  by (relation "measure (\<lambda>(V, start_ip, _, _, s). if start_ip = iv_plus_one_ip V (ser_prev_end s) then 0 else 1)") auto

record country_block_serializer =
  cbs_ipv4 :: "u32 ip_serializer"
  cbs_ipv6 :: "u128 ip_serializer"

definition serializer_new :: country_block_serializer where
  "serializer_new = \<lparr>cbs_ipv4 = ip_serializer_new 0xFFFFFFFE 0xFFFFFFFF,
     cbs_ipv6 = ip_serializer_new 0xFFFFFFFFFFFFFFFFFFFFFFFFFFFFFFFE 0xFFFFFFFFFFFFFFFFFFFFFFFFFFFFFFFF\<rparr>"

definition serializer_add :: "country_block \<Rightarrow> country_block_serializer \<Rightarrow> country_block_serializer run" where
  "serializer_add block s = (case cb_ip_range block of
      RangeV4 start_ip end_ip \<Rightarrow> do {
        s4 \<leftarrow> add_ip_generic ipv4_version start_ip end_ip (co_index (cb_country block)) (cbs_ipv4 s);
        ret (s\<lparr>cbs_ipv4 := s4\<rparr>) }
    | RangeV6 start_ip end_ip \<Rightarrow> do {
        s6 \<leftarrow> add_ip_generic ipv6_version start_ip end_ip (co_index (cb_country block)) (cbs_ipv6 s);
        ret (s\<lparr>cbs_ipv6 := s6\<rparr>) })"

record final_bit_queue =
  fbq_bit_queue :: bit_queue
  fbq_block_count :: nat

text \<open>Closing one version: the addresses after the last block belong to no country.\<close>

definition finish_version :: "'ip ip_version \<Rightarrow> 'ip ip_serializer \<Rightarrow> final_bit_queue run" where
  "finish_version V s = do {
     s1 \<leftarrow> (if ser_prev_end s \<noteq> iv_max_ip_value V
       then add_ip_generic V (iv_plus_one_ip V (ser_prev_end s)) (iv_max_ip_value V) 0 s else ret s);
     ret \<lparr>fbq_bit_queue = ser_bit_queue s1, fbq_block_count = ser_block_count s1\<rparr> }"

definition serializer_finish :: "country_block_serializer \<Rightarrow> (final_bit_queue \<times> final_bit_queue) run" where
  "serializer_finish s = do {
     f4 \<leftarrow> finish_version ipv4_version (cbs_ipv4 s);
     f6 \<leftarrow> finish_version ipv6_version (cbs_ipv6 s);
     ret (f4, f6) }"

text \<open>The numbers that \<open>generate_country_block_code\<close> writes: 64 bits each, and the rest in the last one.\<close>

definition COUNTRY_BLOCK_BIT_SIZE :: nat where
  "COUNTRY_BLOCK_BIT_SIZE = 64"

partial_function (option) write_values :: "bit_queue \<Rightarrow> (u64 list \<times> bit_queue) option" where
  "write_values q =
     (if COUNTRY_BLOCK_BIT_SIZE \<le> bq_len q then do {
        (taken, q1) \<leftarrow> take_bits COUNTRY_BLOCK_BIT_SIZE q;
        x \<leftarrow> taken;
        (xs, q2) \<leftarrow> write_values q1;
        Some (x # xs, q2) }
      else Some ([], q))"

declare write_values.simps [code]

definition generate_country_data :: "bit_queue \<Rightarrow> (u64 list \<times> nat) run" where
  "generate_country_data q = do {
     (xs, q1) \<leftarrow> write_values q;
     if bq_is_empty q1 then ret (xs, bq_len q) else do {
       (taken, _) \<leftarrow> take_bits (bq_len q1) q1;
       x \<leftarrow> taken;
       ret (xs @ [x], bq_len q) } }"

section \<open>Reading\<close>

record 'ip stream_record =
  sr_start :: "'ip"
  sr_country_idx :: nat

record 'ip country_block_deserializer =
  cbd_countries :: countries
  cbd_prev_record :: "'ip stream_record"
  cbd_bit_queue :: bit_queue
  cbd_empty :: bool

fun add_country_data :: "u64 list \<Rightarrow> nat \<Rightarrow> bit_queue \<Rightarrow> bit_queue run" where
  "add_country_data country_data bit_count q =
     (if 64 \<le> bit_count then
        (case country_data of
           [] \<Rightarrow> panic
         | x # xs \<Rightarrow> do { q1 \<leftarrow> add_bits x 64 q; add_country_data xs (bit_count - 64) q1 })
      else if 0 < bit_count then
        (case country_data of [] \<Rightarrow> panic | x # _ \<Rightarrow> add_bits x bit_count q)
      else ret q)"

definition bit_queue_from_country_data :: "u64 list \<times> nat \<Rightarrow> bit_queue run" where
  "bit_queue_from_country_data country_data_pair = add_country_data (fst country_data_pair) (snd country_data_pair) bq_new"

text \<open>The closure of \<open>read_differences_generic\<close>, and the \<open>filter_map\<close> over it, which goes on after a miss.\<close>

definition read_difference :: "'ip ip_version \<Rightarrow> bit_queue \<Rightarrow> (difference option \<times> bit_queue) run" where
  "read_difference V q = do {
     (index, q1) \<leftarrow> take_bits (iv_index_bit_count V) q;
     (case index of
        None \<Rightarrow> ret (None, q1)
      | Some i \<Rightarrow> do {
          (x, q2) \<leftarrow> take_bits (iv_segment_bit_count V) q1;
          ret (map_option (\<lambda>v. \<lparr>df_index = unat i, df_value = v\<rparr>) x, q2) }) }"

fun read_differences :: "'ip ip_version \<Rightarrow> nat \<Rightarrow> bit_queue \<Rightarrow> (difference list \<times> bit_queue) run" where
  "read_differences V 0 q = ret ([], q)"
| "read_differences V (Suc n) q = do {
     (d, q1) \<leftarrow> read_difference V q;
     (ds, q2) \<leftarrow> read_differences V n q1;
     ret ((case d of None \<Rightarrow> ds | Some x \<Rightarrow> x # ds), q2) }"

definition put_segment :: "'ip ip_version \<Rightarrow> difference \<Rightarrow> u64 list \<Rightarrow> u64 list run" where
  "put_segment V d segments =
     (if df_index d < length segments \<and> df_value d < 2 ^ iv_segment_bit_count V
      then ret (segments[df_index d := df_value d]) else panic)"

definition stream_record_new :: "'ip ip_version \<Rightarrow> difference list \<Rightarrow> u64 list \<Rightarrow> nat \<Rightarrow> 'ip stream_record run" where
  "stream_record_new V differences segments country_idx = do {
     ss \<leftarrow> iter_each (put_segment V) differences segments;
     ret \<lparr>sr_start = iv_from_segments V ss, sr_country_idx = country_idx\<rparr> }"

definition get_record_generic :: "'ip ip_version \<Rightarrow> bit_queue \<Rightarrow> 'ip \<Rightarrow> ('ip stream_record option \<times> bit_queue) run" where
  "get_record_generic V q prev_start = do {
     (count, q1) \<leftarrow> take_bits (iv_difference_count_bit_count V) q;
     (case count of
        None \<Rightarrow> ret (None, q1)
      | Some c \<Rightarrow> do {
          let difference_count = unat (c + 1);
          (differences, q2) \<leftarrow> read_differences V difference_count q1;
          if length differences < difference_count then ret (None, q2) else do {
            (idx, q3) \<leftarrow> take_bits 9 q2;
            (case idx of
               None \<Rightarrow> ret (None, q3)
             | Some i \<Rightarrow> do {
                 r \<leftarrow> stream_record_new V differences (iv_segments V prev_start) (unat i);
                 ret (Some r, q3) }) } }) }"

definition deserializer_new :: "'ip ip_version \<Rightarrow> u64 list \<times> nat \<Rightarrow> countries \<Rightarrow> 'ip country_block_deserializer run" where
  "deserializer_new V country_data cs = do {
     q \<leftarrow> bit_queue_from_country_data country_data;
     (r, q1) \<leftarrow> get_record_generic V q (iv_first_prev_start V);
     prev_record \<leftarrow> r;
     ret \<lparr>cbd_countries = cs, cbd_prev_record = prev_record, cbd_bit_queue = q1, cbd_empty = False\<rparr> }"

definition next_generic ::
  "'ip ip_version \<Rightarrow> 'ip country_block_deserializer \<Rightarrow> (country_block option \<times> 'ip country_block_deserializer) run" where
  "next_generic V d =
     (if cbd_empty d then ret (None, d)
      else do {
        (next_record_opt, q) \<leftarrow> get_record_generic V (cbd_bit_queue d) (sr_start (cbd_prev_record d));
        (case country_from_index (cbd_countries d) (sr_country_idx (cbd_prev_record d)) of
           Inl _ \<Rightarrow> panic
         | Inr c \<Rightarrow>
             (case next_record_opt of
                Some next_record \<Rightarrow> ret (Some \<lparr>cb_ip_range = iv_range V (sr_start (cbd_prev_record d))
                    (iv_minus_one_ip V (sr_start next_record)), cb_country = c\<rparr>,
                  d\<lparr>cbd_bit_queue := q, cbd_prev_record := next_record\<rparr>)
              | None \<Rightarrow> ret (Some \<lparr>cb_ip_range = iv_range V (sr_start (cbd_prev_record d)) (iv_max_ip_value V),
                  cb_country = c\<rparr>, d\<lparr>cbd_bit_queue := q, cbd_empty := True\<rparr>))) })"

partial_function (option) collect_blocks ::
  "'ip ip_version \<Rightarrow> 'ip country_block_deserializer \<Rightarrow> country_block list option" where
  "collect_blocks V d = do {
     (block, d1) \<leftarrow> next_generic V d;
     (case block of
        None \<Rightarrow> Some []
      | Some b \<Rightarrow> do { bs \<leftarrow> collect_blocks V d1; Some (b # bs) }) }"

declare collect_blocks.simps [code]

section \<open>Finding\<close>

record country_code_finder =
  ccf_countries :: countries
  ccf_ipv4 :: "country_block list"
  ccf_ipv6 :: "country_block list"

definition finder_new :: "countries \<Rightarrow> u64 list \<times> nat \<Rightarrow> u64 list \<times> nat \<Rightarrow> country_code_finder run" where
  "finder_new cs ipv4_data ipv6_data = do {
     d4 \<leftarrow> deserializer_new ipv4_version ipv4_data cs;
     blocks4 \<leftarrow> collect_blocks ipv4_version d4;
     d6 \<leftarrow> deserializer_new ipv6_version ipv6_data cs;
     blocks6 \<leftarrow> collect_blocks ipv6_version d6;
     ret \<lparr>ccf_countries = cs, ccf_ipv4 = blocks4, ccf_ipv6 = blocks6\<rparr> }"

text \<open>\<open>slice::binary_search_by\<close>: the index of an element that compares equal, or the place where it would be.\<close>

function binary_search_by :: "('a \<Rightarrow> ordering run) \<Rightarrow> 'a list \<Rightarrow> nat \<Rightarrow> nat \<Rightarrow> (nat + nat) run" where
  "binary_search_by f xs left right =
     (if left < right then do {
        let mid = left + (right - left) div 2;
        cmp \<leftarrow> f (xs ! mid);
        (case cmp of
           Less \<Rightarrow> binary_search_by f xs (mid + 1) right
         | Greater \<Rightarrow> binary_search_by f xs left mid
         | Equal \<Rightarrow> ret (Inr mid)) }
      else ret (Inl left))"
  by pat_completeness auto
termination
  by (relation "measure (\<lambda>(_, _, left, right). right - left)") auto

definition find_country :: "country_code_finder \<Rightarrow> ip_addr \<Rightarrow> country option run" where
  "find_country finder ip_addr = do {
     let country_blocks = (case ip_addr of V4 _ \<Rightarrow> ccf_ipv4 finder | V6 _ \<Rightarrow> ccf_ipv6 finder);
     block_index \<leftarrow> binary_search_by (\<lambda>block. ordering_by_range (cb_ip_range block) ip_addr) country_blocks 0 (length country_blocks);
     c \<leftarrow> (case block_index of
        Inr index \<Rightarrow> ret (cb_country (country_blocks ! index))
      | Inl _ \<Rightarrow> do {
          found \<leftarrow> country_from_code (ccf_countries finder) ''ZZ'';
          (case found of Inr c \<Rightarrow> ret c | Inl _ \<Rightarrow> panic) });
     ret (if co_iso3166 c = ''ZZ'' then None else Some c) }"

end
