(* ===== verification/Country_Lookup.thy ===== *)
theory Country_Lookup
  imports Country_Blocks
begin

text \<open>
  The table of countries by IP address, from the blocks that it is made of to the country that is found: what is
  written can be read, the blocks that are read cover all addresses, and the search finds the one
  that an address is in.
\<close>

section \<open>Differences between two addresses\<close>

fun diffs :: "nat \<Rightarrow> u64 list \<Rightarrow> u64 list \<Rightarrow> difference list" where
  "diffs k (x # xs) (y # ys) = (if y = x then [] else [\<lparr>df_index = k, df_value = y\<rparr>]) @ diffs (Suc k) xs ys"
| "diffs k _ _ = []"

lemma diffs_eq:
  "List.map_filter (\<lambda>(index, from_segment, to_segment).
      if to_segment = from_segment then None else Some \<lparr>df_index = index, df_value = to_segment\<rparr>)
    (enumerate k (zip xs ys)) = diffs k xs ys"
  by (induction k xs ys rule: diffs.induct) (simp_all add: map_filter_simps)

lemma differences_eq: "ips_into_differences V p s = diffs 0 (iv_segments V p) (iv_segments V s)"
  by (simp add: ips_into_differences_def diffs_eq)

lemma diffs_bounds:
  "d \<in> set (diffs k xs ys) \<Longrightarrow> k \<le> df_index d \<and> df_index d < k + length xs \<and> df_value d \<in> set ys"
  by (induction k xs ys rule: diffs.induct) (fastforce split: if_splits)+

lemma diffs_length: "length (diffs k xs ys) \<le> length xs"
  by (induction k xs ys rule: diffs.induct) auto

lemma diffs_Nil: "length xs = length ys \<Longrightarrow> diffs k xs ys = [] \<longleftrightarrow> xs = ys"
  by (induction k xs ys rule: diffs.induct) auto

lemma diffs_applied:
  assumes "length xs = length ys" and "\<forall>y \<in> set ys. y < 2 ^ iv_segment_bit_count V"
  shows "iter_each (put_segment V) (diffs (length pre) xs ys) (pre @ xs) = Some (pre @ ys)"
  using assms
proof (induction xs ys arbitrary: pre rule: list_induct2)
  case (Cons x xs y ys)
  have "iter_each (put_segment V) (diffs (length (pre @ [y])) xs ys) ((pre @ [y]) @ xs) = Some ((pre @ [y]) @ ys)"
    by (rule Cons.IH) (use Cons.prems in simp)
  then show ?case using Cons.prems by (auto simp: put_segment_def [of V _ "pre @ x # xs"])
qed simp

section \<open>The parts of an address\<close>

lemma glued:
  fixes x :: "'a::len word"
  assumes "m \<le> n" and "LENGTH('s::len) * n = LENGTH('a)"
  shows "fold (\<lambda>s ip. push_bit LENGTH('s) ip OR ucast s)
      (map (\<lambda>i. ucast (drop_bit (LENGTH('s) * (n - 1 - i)) x) :: 's word) [0..<m]) 0 = drop_bit (LENGTH('s) * (n - m)) x"
  using assms(1)
proof (induction m)
  case 0
  show ?case by (rule bit_word_eqI) (use assms(2) in \<open>auto simp: bit_simps dest: bit_imp_le_length\<close>)
next
  case (Suc m)
  let ?k = "LENGTH('s)"
  have k: "?k * (n - m) = ?k * (n - Suc m) + ?k" using Suc.prems by (metis Suc_diff_Suc Suc_le_lessD add.commute mult_Suc_right)
  have "push_bit ?k (drop_bit (?k * (n - m)) x) OR ucast (ucast (drop_bit (?k * (n - 1 - m)) x) :: 's word) = drop_bit (?k * (n - Suc m)) x"
  proof (rule bit_word_eqI)
    fix i assume "i < LENGTH('a)"
    then show "bit (push_bit ?k (drop_bit (?k * (n - m)) x) OR ucast (ucast (drop_bit (?k * (n - 1 - m)) x) :: 's word)) i
        = bit (drop_bit (?k * (n - Suc m)) x) i"
      by (cases "i < ?k") (auto simp: bit_simps k ac_simps)
  qed
  then show ?case using Suc by simp
qed

lemma ipv4_octets_joined: "ipv4_from_octets (ipv4_octets x) = x" "integer_from_ip_generic (ipv4_octets x) = x"
  using glued [where 's = 8, of 4 4 x]
  by (simp_all add: ipv4_from_octets_def ipv4_octets_def integer_from_ip_generic_def diff_mult_distrib2)

lemma ipv6_segments_joined: "ipv6_from_segments (ipv6_segments x) = x" "integer_from_ip_generic (ipv6_octets x) = x"
  using glued [where 's = 16, of 8 8 x] glued [where 's = 8, of 16 16 x]
  by (simp_all add: ipv6_from_segments_def ipv6_segments_def ipv6_octets_def integer_from_ip_generic_def diff_mult_distrib2)

lemma parts_length: "length (ipv4_octets x) = 4" "length (ipv6_segments y) = 8"
  by (simp_all add: ipv4_octets_def ipv6_segments_def)

lemma ucast_back: "ucast (ucast x :: u64) = (x :: u8)" "ucast (ucast y :: u64) = (y :: u16)"
  by (rule bit_word_eqI; simp add: bit_simps)+

section \<open>The numbers of the generated table\<close>

lemma bits_number: "length bs \<le> 64 \<Longrightarrow> bits (length bs) (number bs) = bs"
  by (rule nth_equalityI) (auto simp: bit_number)

lemma clear_number: "clear (length bs) (number bs)"
  by (auto simp: clear_def bit_number)

lemma write_values_run:
  "bq_ok q \<Longrightarrow> \<exists>xs q'. write_values q = Some (xs, q') \<and> bq_ok q' \<and> length (contents q') < 64 \<and>
     contents q = concat (map (bits 64) xs) @ contents q'"
proof (induction "length (contents q)" arbitrary: q rule: less_induct)
  case less
  show ?case
  proof (cases "64 \<le> length (contents q)")
    case True
    let ?x = "number (take 64 (contents q))"
    from packed.taken [OF less.prems _ True] obtain q1 where
      q1: "take_bits 64 q = Some (Some ?x, q1)" "bq_ok q1" "contents q1 = drop 64 (contents q)" by auto
    with True have "length (contents q1) < length (contents q)" by simp
    from less.hyps [OF this q1(2)] obtain xs q' where
      w: "write_values q1 = Some (xs, q')" "bq_ok q'" "length (contents q') < 64" "contents q1 = concat (map (bits 64) xs) @ contents q'"
      by blast
    have "contents q = bits 64 ?x @ contents q1" using bits_number [of "take 64 (contents q)"] True q1(3) by simp
    with w q1(1) True less.prems show ?thesis
      by (subst write_values.simps) (simp add: COUNTRY_BLOCK_BIT_SIZE_def bq_len_contents)
  next
    case False
    with less.prems show ?thesis
      by (subst write_values.simps) (simp add: COUNTRY_BLOCK_BIT_SIZE_def bq_len_contents)
  qed
qed

lemma add_country_data_run:
  assumes "bq_ok q" and "length bs < 64"
  shows "\<exists>q'. add_country_data (xs @ (if bs = [] then [] else [number bs])) (64 * length xs + length bs) q = Some q' \<and> bq_ok q' \<and>
    contents q' = contents q @ concat (map (bits 64) xs) @ bs"
  using assms(1)
proof (induction xs arbitrary: q)
  case Nil
  with packed.added [OF Nil, of "length bs" "number bs"] assms(2) clear_number [of bs] bits_number [of bs] show ?case by auto
next
  case (Cons x xs)
  obtain q1 where q1: "add_bits x 64 q = Some q1" "bq_ok q1" "contents q1 = contents q @ bits 64 x"
    using packed.added [OF Cons.prems, of 64 x] by auto
  with Cons.IH [OF q1(2)] show ?case by simp
qed

lemma bq_is_empty_contents: "bq_ok q \<Longrightarrow> bq_is_empty q \<longleftrightarrow> contents q = []"
  by (simp add: bq_is_empty_def bq_len_contents)

lemma country_data_roundtrip:
  assumes "bq_ok q"
  shows "\<exists>country_data q'. generate_country_data q = Some country_data \<and> bit_queue_from_country_data country_data = Some q' \<and>
    bq_ok q' \<and> contents q' = contents q"
proof -
  obtain xs r where w: "write_values q = Some (xs, r)" "bq_ok r" "length (contents r) < 64"
    "contents q = concat (map (bits 64) xs) @ contents r" using write_values_run [OF assms] by blast
  have n: "bq_len q = 64 * length xs + length (contents r)"
    using bq_len_contents [OF assms] w(4) by (simp add: length_concat comp_def sum_list_triv)
  have "generate_country_data q = Some (xs @ (if contents r = [] then [] else [number (contents r)]), bq_len q)"
    using w packed.taken [OF w(2), of "length (contents r)"]
    by (auto simp: generate_country_data_def bq_is_empty_contents bq_len_contents)
  with add_country_data_run [OF bq_new_ok(1) w(3), of xs] n w(4) bq_new_ok(2) show ?thesis
    by (simp add: bit_queue_from_country_data_def del: add_country_data.simps)
qed

section \<open>One version of IP\<close>

declare add_ip_generic.simps [simp del] binary_search_by.simps [simp del]

lemma clear_of_nat:
  assumes "k < 2 ^ c"
  shows "clear c (of_nat k :: 'a::len word)"
  unfolding clear_def
proof (intro allI impI notI)
  fix i assume "c \<le> i" "bit (of_nat k :: 'a word) i"
  then have "bit k i" by (simp add: bit_simps)
  moreover have "k < 2 ^ i" using assms \<open>c \<le> i\<close> by (meson less_le_trans one_le_numeral power_increasing)
  ultimately show False by (simp add: bit_iff_odd)
qed

lemma next_after:
  fixes e :: "'a::len word"
  shows "e < s \<Longrightarrow> e < e + 1 \<and> e + 1 \<le> s" and "e \<noteq> - 1 \<Longrightarrow> e < e + 1 \<and> (ip < e + 1 \<longleftrightarrow> ip \<le> e)"
proof -
  have up: "e < e + 1" if "e \<noteq> - 1"
    using that by (metis add.right_inverse inc_less_eq_triv_imp linorder_not_less minus_add_cancel add.commute)
  show "e < s \<Longrightarrow> e < e + 1 \<and> e + 1 \<le> s" using up inc_le by fastforce
  show "e \<noteq> - 1 \<Longrightarrow> e < e + 1 \<and> (ip < e + 1 \<longleftrightarrow> ip \<le> e)"
    using up inc_le [of e ip] by (meson le_less_trans not_le)
qed

locale ip_traits =
  fixes V :: "'a::len word ip_version" and parts :: nat and addr :: "'a word \<Rightarrow> ip_addr"
  assumes parts: "length (iv_segments V x) = parts" "0 < parts" "parts \<le> 8"
    and parts_fit: "parts \<le> 2 ^ iv_difference_count_bit_count V" "parts \<le> 2 ^ iv_index_bit_count V"
    and widths: "0 < iv_difference_count_bit_count V" "iv_difference_count_bit_count V \<le> 8" "iv_index_bit_count V \<le> 8"
      "iv_segment_bit_count V < 64"
    and segment: "y \<in> set (iv_segments V x) \<Longrightarrow> y < 2 ^ iv_segment_bit_count V"
    and joined: "iv_from_segments V (iv_segments V x) = x"
    and plus_one: "iv_plus_one_ip V x = x + 1" and minus_one: "iv_minus_one_ip V x = x - 1"
    and bounds: "iv_first_prev_start V = - 2" "iv_max_ip_value V = - 1" "(- 2 :: 'a word) \<noteq> 0"
    and compared: "ordering_by_range (iv_range V low high) (addr ip) = ret (compare_with_range ip low high)"
begin

abbreviation "diff p s \<equiv> ips_into_differences V p s"

definition field_bits :: "difference \<Rightarrow> bool list" where
  "field_bits d = bits (iv_index_bit_count V) (of_nat (df_index d) :: u64) @ bits (iv_segment_bit_count V) (df_value d)"

definition encode :: "'a word \<Rightarrow> 'a word \<times> nat \<Rightarrow> bool list" where
  "encode p r = bits (iv_difference_count_bit_count V) (of_nat (length (diff p (fst r)) - 1) :: u64) @
     concat (map field_bits (diff p (fst r))) @ bits 9 (of_nat (snd r) :: u64)"

lemma segments_inj: "iv_segments V p = iv_segments V s \<Longrightarrow> p = s"
  using joined by metis

lemma diff_Nil: "diff p s = [] \<longleftrightarrow> p = s"
  using segments_inj by (auto simp: differences_eq diffs_Nil parts(1))

lemma diff_length: "length (diff p s) \<le> parts"
  using diffs_length [of 0 "iv_segments V p"] by (simp add: differences_eq parts(1))

lemma diff_member:
  assumes "d \<in> set (diff p s)"
  shows "df_index d < parts" "df_index d < 2 ^ iv_index_bit_count V" "df_value d < 2 ^ iv_segment_bit_count V"
  using diffs_bounds [of d 0 "iv_segments V p" "iv_segments V s"] assms segment parts_fit(2)
  by (auto simp: differences_eq parts(1) intro: less_le_trans)

lemma diff_applied: "iter_each (put_segment V) (diff p s) (iv_segments V p) = Some (iv_segments V s)"
  using diffs_applied [of "iv_segments V p" "iv_segments V s" V "[]"] segment by (simp add: differences_eq parts(1))

lemma field_clear:
  assumes "d \<in> set (diff p s)"
  shows "clear (iv_index_bit_count V) (of_nat (df_index d) :: u64)" "clear (iv_segment_bit_count V) (df_value d)"
  using diff_member [OF assms] widths by (auto intro: clear_of_nat clear_less)

lemma add_differences_run:
  assumes "bq_ok q" and "set ds \<subseteq> set (diff p s)"
  shows "\<exists>q'. iter_each (add_difference V) ds q = Some q' \<and> bq_ok q' \<and> contents q' = contents q @ concat (map field_bits ds)"
  using assms
proof (induction ds arbitrary: q)
  case (Cons d ds)
  then have d: "d \<in> set (diff p s)" by simp
  from packed.added [OF Cons.prems(1) _ field_clear(1) [OF d]] widths obtain q1 where
    1: "add_bits (of_nat (df_index d)) (iv_index_bit_count V) q = Some q1" "bq_ok q1"
    "contents q1 = contents q @ bits (iv_index_bit_count V) (of_nat (df_index d) :: u64)" by auto
  from packed.added [OF 1(2) _ field_clear(2) [OF d]] widths obtain q2 where
    2: "add_bits (df_value d) (iv_segment_bit_count V) q1 = Some q2" "bq_ok q2"
    "contents q2 = contents q1 @ bits (iv_segment_bit_count V) (df_value d)" by auto
  from Cons.IH [OF 2(2)] Cons.prems(2) obtain q3 where
    "iter_each (add_difference V) ds q2 = Some q3" "bq_ok q3" "contents q3 = contents q2 @ concat (map field_bits ds)" by auto
  with 1 2 show ?case by (simp add: add_difference_def [of V d] field_bits_def [of d])
qed simp

lemma add_block_run:
  assumes "bq_ok (ser_bit_queue S)" and "start \<noteq> ser_prev_start S" and "idx < 512"
  obtains q where "add_block V start e idx S = Some (S\<lparr>ser_bit_queue := q, ser_prev_start := start, ser_prev_end := e,
      ser_block_count := ser_block_count S + 1\<rparr>)" "bq_ok q"
    "contents q = contents (ser_bit_queue S) @ encode (ser_prev_start S) (start, idx)"
proof -
  let ?ds = "diff (ser_prev_start S) start"
  have ds: "?ds \<noteq> []" using assms(2) diff_Nil by metis
  have c: "clear (iv_difference_count_bit_count V) (of_nat (length ?ds - 1) :: u64)"
    by (rule clear_of_nat) (use diff_length [of "ser_prev_start S" start] parts_fit(1) parts(2) in linarith)
  from packed.added [OF assms(1) _ c] widths obtain q1 where
    1: "add_bits (of_nat (length ?ds - 1)) (iv_difference_count_bit_count V) (ser_bit_queue S) = Some q1" "bq_ok q1"
    "contents q1 = contents (ser_bit_queue S) @ bits (iv_difference_count_bit_count V) (of_nat (length ?ds - 1) :: u64)" by auto
  obtain q2 where 2: "iter_each (add_difference V) ?ds q1 = Some q2" "bq_ok q2"
    "contents q2 = contents q1 @ concat (map field_bits ?ds)" using add_differences_run [OF 1(2) order_refl] by blast
  have "clear 9 (of_nat idx :: u64)" by (rule clear_of_nat) (use assms(3) in simp)
  from packed.added [OF 2(2) _ this] obtain q3 where
    3: "add_bits (of_nat idx) 9 q2 = Some q3" "bq_ok q3" "contents q3 = contents q2 @ bits 9 (of_nat idx :: u64)" by auto
  show thesis
    by (rule that [of q3]) (use 1 2 3 ds in \<open>simp_all add: add_block_def encode_def Let_def\<close>)
qed

lemma read_differences_run:
  assumes "bq_ok q" and "set ds \<subseteq> set (diff p s)" and "contents q = concat (map field_bits ds) @ rest"
  shows "\<exists>q'. read_differences V (length ds) q = Some (ds, q') \<and> bq_ok q' \<and> contents q' = rest"
  using assms
proof (induction ds arbitrary: q)
  case (Cons d ds)
  then have d: "d \<in> set (diff p s)" by simp
  let ?rest = "concat (map field_bits ds) @ rest"
  obtain q1 where 1: "take_bits (iv_index_bit_count V) q = Some (Some (of_nat (df_index d)), q1)" "bq_ok q1"
    "contents q1 = bits (iv_segment_bit_count V) (df_value d) @ ?rest"
    using packed.take_front [OF Cons.prems(1) _ field_clear(1) [OF d], of "bits (iv_segment_bit_count V) (df_value d) @ ?rest"]
      Cons.prems(3) widths by (auto simp: field_bits_def [of d])
  obtain q2 where 2: "take_bits (iv_segment_bit_count V) q1 = Some (Some (df_value d), q2)" "bq_ok q2" "contents q2 = ?rest"
    using packed.take_front [OF 1(2) _ field_clear(2) [OF d] 1(3)] widths by auto
  obtain q3 where 3: "read_differences V (length ds) q2 = Some (ds, q3)" "bq_ok q3" "contents q3 = rest"
    using Cons.IH [OF 2(2) _ 2(3)] Cons.prems(2) by auto
  have "unat (of_nat (df_index d) :: u64) = df_index d"
    using diff_member(1) [OF d] parts(3) by (simp add: unat_of_nat)
  with 1 2 3 show ?case by (simp add: read_difference_def)
qed simp

lemma get_record_run:
  assumes q: "bq_ok q" "contents q = encode p (s, idx) @ rest" and r: "s \<noteq> p" "idx < 512"
  obtains q' where "get_record_generic V q p = Some (Some \<lparr>sr_start = s, sr_country_idx = idx\<rparr>, q')" "bq_ok q'" "contents q' = rest"
proof -
  let ?n = "length (diff p s)"
  have n: "0 < ?n" using r(1) diff_Nil [of p s] by auto
  have c: "clear (iv_difference_count_bit_count V) (of_nat (?n - 1) :: u64)"
    by (rule clear_of_nat) (use diff_length [of p s] parts_fit(1) parts(2) in linarith)
  obtain q1 where 1: "take_bits (iv_difference_count_bit_count V) q = Some (Some (of_nat (?n - 1)), q1)" "bq_ok q1"
    "contents q1 = concat (map field_bits (diff p s)) @ bits 9 (of_nat idx :: u64) @ rest"
    using packed.take_front [OF q(1) _ c, of "concat (map field_bits (diff p s)) @ bits 9 (of_nat idx :: u64) @ rest"] q(2) widths
    by (auto simp: encode_def)
  obtain q2 where 2: "read_differences V ?n q1 = Some (diff p s, q2)" "bq_ok q2" "contents q2 = bits 9 (of_nat idx :: u64) @ rest"
    using read_differences_run [OF 1(2) order_refl 1(3)] by blast
  have c9: "clear 9 (of_nat idx :: u64)" by (rule clear_of_nat) (use r(2) in simp)
  obtain q3 where 3: "take_bits 9 q2 = Some (Some (of_nat idx), q3)" "bq_ok q3" "contents q3 = rest"
    using packed.take_front [OF 2(2) _ c9 2(3)] by auto
  have "of_nat (?n - 1) + 1 = (of_nat ?n :: u64)" using n by (metis Suc_diff_1 add.commute of_nat_Suc)
  then have "unat (of_nat (?n - 1) + 1 :: u64) = ?n" using diff_length [of p s] parts(3) by (simp add: unat_of_nat)
  moreover have "unat (of_nat idx :: u64) = idx" using r(2) by (simp add: unat_of_nat)
  ultimately have "get_record_generic V q p = Some (Some \<lparr>sr_start = s, sr_country_idx = idx\<rparr>, q3)"
    using 1(1) 2(1) 3(1) diff_applied [of p s] joined by (simp add: get_record_generic_def stream_record_new_def Let_def)
  then show thesis using 3(2,3) by (rule that)
qed

lemma get_record_end: "bq_ok q \<Longrightarrow> contents q = [] \<Longrightarrow> get_record_generic V q p = Some (None, q)"
  using packed.refused [of q "iv_difference_count_bit_count V"] widths by (simp add: get_record_generic_def)

subsection \<open>All records\<close>

fun encode_all :: "'a word \<Rightarrow> ('a word \<times> nat) list \<Rightarrow> bool list" where
  "encode_all p [] = []"
| "encode_all p (r # rs) = encode p r @ encode_all (fst r) rs"

fun changing :: "'a word \<Rightarrow> ('a word \<times> nat) list \<Rightarrow> bool" where
  "changing p [] = True"
| "changing p (r # rs) = (fst r \<noteq> p \<and> snd r < 512 \<and> changing (fst r) rs)"

fun blocks_of :: "countries \<Rightarrow> 'a word \<times> nat \<Rightarrow> ('a word \<times> nat) list \<Rightarrow> country_block list" where
  "blocks_of cs r [] = [\<lparr>cb_ip_range = iv_range V (fst r) (- 1), cb_country = cs_countries cs ! snd r\<rparr>]"
| "blocks_of cs r (r' # rs) =
     \<lparr>cb_ip_range = iv_range V (fst r) (fst r' - 1), cb_country = cs_countries cs ! snd r\<rparr> # blocks_of cs r' rs"

lemma collect_run:
  assumes "bq_ok q" and "contents q = encode_all (fst r) rs" and "changing (fst r) rs"
    and "\<forall>x \<in> set (r # rs). snd x < length (cs_countries cs)"
  shows "collect_blocks V \<lparr>cbd_countries = cs, cbd_prev_record = \<lparr>sr_start = fst r, sr_country_idx = snd r\<rparr>, cbd_bit_queue = q,
    cbd_empty = False\<rparr> = Some (blocks_of cs r rs)"
  using assms
proof (induction rs arbitrary: q r)
  case Nil
  then have "get_record_generic V q (fst r) = Some (None, q)" by (simp add: get_record_end)
  with Nil.prems(4) bounds(2) show ?case
    by (subst collect_blocks.simps) (simp add: next_generic_def country_from_index_def collect_blocks.simps)
next
  case (Cons r' rs)
  from Cons.prems(2) have c: "contents q = encode (fst r) (fst r', snd r') @ encode_all (fst r') rs" by simp
  obtain q' where q': "get_record_generic V q (fst r) = Some (Some \<lparr>sr_start = fst r', sr_country_idx = snd r'\<rparr>, q')" "bq_ok q'"
    "contents q' = encode_all (fst r') rs" by (rule get_record_run [OF Cons.prems(1) c]) (use Cons.prems(3) in auto)
  from Cons.IH [OF q'(2,3)] Cons.prems(3,4) q'(1) minus_one show ?case
    by (subst collect_blocks.simps) (simp add: next_generic_def country_from_index_def)
qed

subsection \<open>Filling the gaps\<close>

fun filled :: "'a word \<Rightarrow> ('a word \<times> 'a word \<times> nat) list \<Rightarrow> ('a word \<times> nat) list" where
  "filled e [] = (if e = - 1 then [] else [(e + 1, 0)])"
| "filled e ((s, t, i) # bs) = (if s = e + 1 then [] else [(e + 1, 0)]) @ (s, i) # filled t bs"

fun ordered :: "'a word \<Rightarrow> ('a word \<times> 'a word \<times> nat) list \<Rightarrow> bool" where
  "ordered e [] = True"
| "ordered e ((s, t, i) # bs) = (e < s \<and> s \<le> t \<and> i < 512 \<and> ordered t bs)"

lemma add_ip_run:
  assumes "bq_ok (ser_bit_queue S)" and "changing (ser_prev_start S) ((if s = ser_prev_end S + 1 then [] else [(ser_prev_end S + 1, 0)]) @ [(s, i)])"
  obtains S' where "add_ip_generic V s t i S = Some S'" "bq_ok (ser_bit_queue S')" "ser_prev_start S' = s" "ser_prev_end S' = t"
    "contents (ser_bit_queue S') = contents (ser_bit_queue S) @
       encode_all (ser_prev_start S) ((if s = ser_prev_end S + 1 then [] else [(ser_prev_end S + 1, 0)]) @ [(s, i)])"
proof (cases "s = ser_prev_end S + 1")
  case True
  obtain q where "add_block V s t i S = Some (S\<lparr>ser_bit_queue := q, ser_prev_start := s, ser_prev_end := t,
      ser_block_count := ser_block_count S + 1\<rparr>)" "bq_ok q" "contents q = contents (ser_bit_queue S) @ encode (ser_prev_start S) (s, i)"
    by (rule add_block_run [OF assms(1)]) (use assms(2) True in auto)
  with True plus_one show thesis by (intro that) (auto simp: add_ip_generic.simps)
next
  case False
  let ?g = "ser_prev_end S + 1"
  obtain q where 1: "add_block V ?g (s - 1) 0 S = Some (S\<lparr>ser_bit_queue := q, ser_prev_start := ?g, ser_prev_end := s - 1,
      ser_block_count := ser_block_count S + 1\<rparr>)" (is "_ = Some ?S") "bq_ok q"
    "contents q = contents (ser_bit_queue S) @ encode (ser_prev_start S) (?g, 0)"
    by (rule add_block_run [OF assms(1), of ?g 0 "s - 1"]) (use assms(2) False in auto)
  then have ok: "bq_ok (ser_bit_queue ?S)" by simp
  obtain q' where 2: "add_block V s t i ?S = Some (?S\<lparr>ser_bit_queue := q', ser_prev_start := s, ser_prev_end := t,
      ser_block_count := ser_block_count ?S + 1\<rparr>)" "bq_ok q'" "contents q' = contents q @ encode ?g (s, i)"
    by (rule add_block_run [OF ok, of s i t]) (use assms(2) False in auto)
  have "add_ip_generic V ?g (s - 1) 0 S = Some ?S"
    by (subst add_ip_generic.simps) (simp add: plus_one 1(1))
  with False 1(3) 2 plus_one minus_one show thesis by (intro that) (auto simp: add_ip_generic.simps [of V s])
qed

lemma changing_append: "changing p (xs @ ys) \<longleftrightarrow> changing p xs \<and> changing (if xs = [] then p else fst (last xs)) ys"
  by (induction xs arbitrary: p) auto

lemma encode_all_append: "encode_all p (xs @ ys) = encode_all p xs @ encode_all (if xs = [] then p else fst (last xs)) ys"
  by (induction xs arbitrary: p) auto

lemma write_run:
  assumes "bq_ok (ser_bit_queue S)" and "changing (ser_prev_start S) (filled (ser_prev_end S) bs)"
  shows "\<exists>S' f. iter_each (\<lambda>(s, t, i). add_ip_generic V s t i) bs S = Some S' \<and> finish_version V S' = Some f \<and> bq_ok (fbq_bit_queue f) \<and>
    contents (fbq_bit_queue f) = contents (ser_bit_queue S) @ encode_all (ser_prev_start S) (filled (ser_prev_end S) bs)"
  using assms
proof (induction bs arbitrary: S)
  case Nil
  show ?case
  proof (cases "ser_prev_end S = - 1")
    case True
    with Nil.prems(1) bounds(2) show ?thesis by (simp add: finish_version_def)
  next
    case False
    obtain S' where "add_ip_generic V (ser_prev_end S + 1) (- 1) 0 S = Some S'" "bq_ok (ser_bit_queue S')"
      "contents (ser_bit_queue S') = contents (ser_bit_queue S) @ encode_all (ser_prev_start S) [(ser_prev_end S + 1, 0)]"
      by (rule add_ip_run [OF Nil.prems(1), of "ser_prev_end S + 1" 0 "- 1"]) (use Nil.prems(2) False in auto)
    with False bounds(2) plus_one show ?thesis by (simp add: finish_version_def)
  qed
next
  case (Cons b bs)
  obtain s t i where b: "b = (s, t, i)" by (cases b)
  let ?new = "(if s = ser_prev_end S + 1 then [] else [(ser_prev_end S + 1, 0)]) @ [(s, i)]"
  have f: "filled (ser_prev_end S) (b # bs) = ?new @ filled t bs" by (simp add: b)
  from Cons.prems(2) have c: "changing (ser_prev_start S) ?new" "changing s (filled t bs)"
    unfolding f by (simp_all add: changing_append split: if_splits)
  obtain S1 where 1: "add_ip_generic V s t i S = Some S1" "bq_ok (ser_bit_queue S1)" "ser_prev_start S1 = s" "ser_prev_end S1 = t"
    "contents (ser_bit_queue S1) = contents (ser_bit_queue S) @ encode_all (ser_prev_start S) ?new"
    using add_ip_run [OF Cons.prems(1) c(1), of t] by metis
  from Cons.IH [OF 1(2)] 1(3,4) c(2) obtain S' g where
    "iter_each (\<lambda>(s, t, i). add_ip_generic V s t i) bs S1 = Some S'" "finish_version V S' = Some g" "bq_ok (fbq_bit_queue g)"
    "contents (fbq_bit_queue g) = contents (ser_bit_queue S1) @ encode_all s (filled t bs)" by auto
  with 1 show ?case unfolding f by (simp add: b encode_all_append)
qed

lemma filled_sorted:
  "ordered e bs \<Longrightarrow> p \<le> e \<Longrightarrow> sorted_wrt (<) (p # map fst (filled e bs)) \<and> changing p (filled e bs)"
proof (induction bs arbitrary: e p)
  case Nil
  then show ?case using next_after(2) [of e] by (auto intro: le_less_trans)
next
  case (Cons b bs)
  obtain s t i where b: "b = (s, t, i)" by (cases b)
  with Cons.prems have o: "e < s" "s \<le> t" "i < 512" "ordered t bs" by simp_all
  from Cons.IH [OF o(4,2)] have IH: "sorted_wrt (<) (s # map fst (filled t bs))" "changing s (filled t bs)" by blast+
  have "p < s" using Cons.prems(2) o(1) by simp
  moreover have "p < e + 1" "s \<noteq> e + 1 \<Longrightarrow> e + 1 < s" using next_after(1) [OF o(1)] Cons.prems(2) by auto
  ultimately show ?case using IH o(3) by (auto simp: b intro: less_trans)
qed

fun country_at :: "'a word \<Rightarrow> 'a word \<times> nat \<Rightarrow> ('a word \<times> nat) list \<Rightarrow> nat" where
  "country_at ip r [] = snd r"
| "country_at ip r (r' # rs) = (if ip < fst r' then snd r else country_at ip r' rs)"

fun listed :: "'a word \<Rightarrow> ('a word \<times> 'a word \<times> nat) list \<Rightarrow> nat" where
  "listed ip [] = 0"
| "listed ip ((s, t, i) # bs) = (if s \<le> ip \<and> ip \<le> t then i else listed ip bs)"

lemma listed_before: "ordered e bs \<Longrightarrow> ip \<le> e \<Longrightarrow> listed ip bs = 0"
  by (induction e bs rule: ordered.induct) (auto simp: not_le)

lemma country_at_filled:
  "ordered e bs \<Longrightarrow> s \<le> ip \<Longrightarrow> country_at ip (s, i) (filled e bs) = (if ip \<le> e then i else listed ip bs)"
proof (induction bs arbitrary: e s i)
  case Nil
  then show ?case using next_after(2) [of e ip] by auto
next
  case (Cons b bs)
  obtain s' t i' where b: "b = (s', t, i')" by (cases b)
  with Cons.prems have o: "e < s'" "s' \<le> t" "ordered t bs" by simp_all
  have "e \<noteq> - 1" using o(1) by auto
  with next_after(2) have e: "ip < e + 1 \<longleftrightarrow> ip \<le> e" by blast
  have "listed ip bs = 0" if "ip < s'" using listed_before [OF o(3)] that o(2) by simp
  with Cons.IH [OF o(3), of s' i'] o(1) e show ?case by (auto simp: b not_less)
qed

lemma binary_search_run:
  assumes "left \<le> k" and "k < right"
    and "\<forall>j. left \<le> j \<and> j < right \<longrightarrow> f (xs ! j) = Some (if j < k then Less else if j = k then Equal else Greater)"
  shows "binary_search_by f xs left right = Some (Inr k)"
  using assms
proof (induction "right - left" arbitrary: left right rule: less_induct)
  case less
  let ?m = "left + (right - left) div 2"
  have m: "left \<le> ?m" "?m < right" using less.prems(1,2) by auto
  then have fm: "f (xs ! ?m) = Some (if ?m < k then Less else if ?m = k then Equal else Greater)" using less.prems(3) by blast
  consider "?m < k" | "?m = k" | "k < ?m" by linarith
  then show ?case
  proof cases
    case 1
    have "binary_search_by f xs (?m + 1) right = Some (Inr k)"
      by (rule less.hyps) (use 1 m less.prems in auto)
    with 1 fm m show ?thesis by (subst binary_search_by.simps) (simp add: Let_def)
  next
    case 2
    with fm m show ?thesis by (subst binary_search_by.simps) (simp add: Let_def)
  next
    case 3
    have "binary_search_by f xs left ?m = Some (Inr k)"
      by (rule less.hyps) (use 3 m less.prems in auto)
    with 3 fm m show ?thesis by (subst binary_search_by.simps) (simp add: Let_def)
  qed
qed

lemma blocks_beyond:
  assumes "sorted_wrt (<) (fst r # map fst rs)" and "ip < fst r" and "j < length (blocks_of cs r rs)"
  shows "ordering_by_range (cb_ip_range (blocks_of cs r rs ! j)) (addr ip) = Some Greater"
  using assms
proof (induction rs arbitrary: r j)
  case Nil
  then show ?case by (simp add: compared compare_with_range_def)
next
  case (Cons r' rs)
  show ?case
  proof (cases j)
    case 0
    with Cons.prems(2) show ?thesis by (simp add: compared compare_with_range_def)
  next
    case (Suc j')
    have "ordering_by_range (cb_ip_range (blocks_of cs r' rs ! j')) (addr ip) = Some Greater"
      by (rule Cons.IH) (use Cons.prems Suc in \<open>auto intro: less_trans\<close>)
    with Suc show ?thesis by simp
  qed
qed

lemma blocks_around:
  assumes "sorted_wrt (<) (fst r # map fst rs)" and "fst r \<le> ip"
  shows "\<exists>k < length (blocks_of cs r rs). cb_country (blocks_of cs r rs ! k) = cs_countries cs ! country_at ip r rs \<and>
    (\<forall>j < length (blocks_of cs r rs). ordering_by_range (cb_ip_range (blocks_of cs r rs ! j)) (addr ip) =
      Some (if j < k then Less else if j = k then Equal else Greater))"
  using assms
proof (induction rs arbitrary: r)
  case Nil
  then show ?case by (simp add: compared compare_with_range_def not_less)
next
  case (Cons r' rs)
  from Cons.prems(1) have r: "fst r < fst r'" "sorted_wrt (<) (fst r' # map fst rs)" by simp_all
  let ?bs = "blocks_of cs r' rs" and ?b = "ordering_by_range (iv_range V (fst r) (fst r' - 1)) (addr ip)"
  have up: "fst r' - 1 < fst r'" "ip < fst r' \<longleftrightarrow> ip \<le> fst r' - 1"
  proof -
    have "fst r' - 1 \<noteq> - 1" using r(1) by auto
    from next_after(2) [OF this] show "fst r' - 1 < fst r'" "ip < fst r' \<longleftrightarrow> ip \<le> fst r' - 1" by simp_all
  qed
  show ?case
  proof (cases "ip < fst r'")
    case True
    then have "?b = Some Equal" using Cons.prems(2) up(2) by (simp add: compared compare_with_range_def not_less)
    moreover have "\<forall>j < length ?bs. ordering_by_range (cb_ip_range (?bs ! j)) (addr ip) = Some Greater"
      using blocks_beyond [OF r(2) True] by blast
    ultimately show ?thesis using True by (intro exI [of _ 0]) (auto simp: nth_Cons split: nat.splits)
  next
    case False
    then have "?b = Some Less" using up Cons.prems(2) by (auto simp: compared compare_with_range_def not_less)
    moreover from False have "fst r' \<le> ip" by simp
    from Cons.IH [OF r(2) this] obtain k where
      "k < length ?bs" "cb_country (?bs ! k) = cs_countries cs ! country_at ip r' rs"
      "\<forall>j < length ?bs. ordering_by_range (cb_ip_range (?bs ! j)) (addr ip) = Some (if j < k then Less else if j = k then Equal else Greater)"
      by blast
    ultimately show ?thesis using False by (intro exI [of _ "Suc k"]) (auto simp: nth_Cons split: nat.splits)
  qed
qed

fun proper :: "('a word \<times> 'a word \<times> nat) list \<Rightarrow> bool" where
  "proper [] = False"
| "proper ((s, t, i) # bs) = (s \<le> t \<and> i < 512 \<and> ordered t bs)"

lemma filled_proper:
  assumes "proper bs"
  obtains r rs where "filled (- 1) bs = r # rs" "fst r = 0" "sorted_wrt (<) (fst r # map fst rs)" "changing (- 2) (r # rs)"
    "\<forall>ip. country_at ip r rs = listed ip bs"
proof -
  obtain s t i bs' where b: "bs = (s, t, i) # bs'" "s \<le> t" "i < 512" "ordered t bs'" using assms by (cases bs rule: proper.cases) auto
  show thesis
  proof (cases "s = 0")
    case True
    have f: "filled (- 1) bs = (0, i) # filled t bs'" by (simp add: b(1) True)
    have "country_at ip (0, i) (filled t bs') = listed ip bs" for ip
      using country_at_filled [OF b(4), of 0 ip i] by (simp add: b(1) True)
    with f filled_sorted [OF b(4), of 0] b(3) bounds(3) show thesis by (intro that [of "(0, i)" "filled t bs'"]) auto
  next
    case False
    have f: "filled (- 1) bs = (0, 0) # (s, i) # filled t bs'" by (simp add: b(1) False)
    have "country_at ip (0, 0) ((s, i) # filled t bs') = listed ip bs" for ip
      using country_at_filled [OF b(4), of s ip i] listed_before [OF b(4), of ip] b(2) by (auto simp: b(1))
    moreover have "sorted_wrt (<) (0 # s # map fst (filled t bs'))"
      using filled_sorted [OF b(4,2)] False by (auto simp: word_neq_0_conv intro: less_trans)
    ultimately show thesis using f filled_sorted [OF b(4,2)] b(3) bounds(3) False
      by (intro that [of "(0, 0)" "(s, i) # filled t bs'"]) auto
  qed
qed

lemma filled_members: "\<forall>(s, t, i) \<in> set bs. i < n \<Longrightarrow> 0 < n \<Longrightarrow> x \<in> set (filled e bs) \<Longrightarrow> snd x < n"
  by (induction e bs rule: filled.induct) (auto split: if_splits)

lemma table_run:
  assumes "proper bs" and "\<forall>(s, t, i) \<in> set bs. i < length (cs_countries cs)" and "cs_countries cs \<noteq> []"
  obtains S f country_data d blocks where
    "iter_each (\<lambda>(s, t, i). add_ip_generic V s t i) bs (ip_serializer_new (- 2) (- 1)) = Some S" "finish_version V S = Some f"
    "generate_country_data (fbq_bit_queue f) = Some country_data" "deserializer_new V country_data cs = Some d"
    "collect_blocks V d = Some blocks"
    "\<forall>ip. \<exists>k. binary_search_by (\<lambda>block. ordering_by_range (cb_ip_range block) (addr ip)) blocks 0 (length blocks) = Some (Inr k) \<and>
       cb_country (blocks ! k) = cs_countries cs ! listed ip bs"
proof -
  let ?S = "ip_serializer_new (- 2) (- 1) :: 'a word ip_serializer"
  obtain r rs where r: "filled (- 1) bs = r # rs" "fst r = 0" "sorted_wrt (<) (fst r # map fst rs)" "changing (- 2) (r # rs)"
    "\<forall>ip. country_at ip r rs = listed ip bs" by (rule filled_proper [OF assms(1)])
  have S: "bq_ok (ser_bit_queue ?S)" "changing (ser_prev_start ?S) (filled (ser_prev_end ?S) bs)"
    using r(1,4) by (simp_all add: ip_serializer_new_def bq_new_ok)
  obtain S' f where 1: "iter_each (\<lambda>(s, t, i). add_ip_generic V s t i) bs ?S = Some S'" "finish_version V S' = Some f" "bq_ok (fbq_bit_queue f)"
    "contents (fbq_bit_queue f) = encode_all (- 2) (r # rs)"
    using write_run [OF S] r(1) by (auto simp: ip_serializer_new_def bq_new_ok)
  obtain country_data q where 2: "generate_country_data (fbq_bit_queue f) = Some country_data"
    "bit_queue_from_country_data country_data = Some q" "bq_ok q" "contents q = encode (- 2) (fst r, snd r) @ encode_all (fst r) rs"
    using country_data_roundtrip [OF 1(3)] 1(4) by auto
  obtain q' where 3: "get_record_generic V q (- 2) = Some (Some \<lparr>sr_start = fst r, sr_country_idx = snd r\<rparr>, q')" "bq_ok q'"
    "contents q' = encode_all (fst r) rs" by (rule get_record_run [OF 2(3,4)]) (use r(4) in auto)
  let ?d = "\<lparr>cbd_countries = cs, cbd_prev_record = \<lparr>sr_start = fst r, sr_country_idx = snd r\<rparr>, cbd_bit_queue = q', cbd_empty = False\<rparr>"
  have 4: "deserializer_new V country_data cs = Some ?d" using 2(2) 3(1) bounds(1) by (simp add: deserializer_new_def)
  have "\<forall>x \<in> set (r # rs). snd x < length (cs_countries cs)"
    using filled_members [OF assms(2), of _ "- 1"] assms(3) r(1) by (metis length_greater_0_conv)
  with collect_run [OF 3(2,3)] r(4) have 5: "collect_blocks V ?d = Some (blocks_of cs r rs)" by simp
  have 6: "\<exists>k. binary_search_by (\<lambda>block. ordering_by_range (cb_ip_range block) (addr ip)) (blocks_of cs r rs) 0 (length (blocks_of cs r rs)) = Some (Inr k) \<and>
       cb_country (blocks_of cs r rs ! k) = cs_countries cs ! listed ip bs" for ip
  proof -
    have "fst r \<le> ip" using r(2) by simp
    then obtain k where k: "k < length (blocks_of cs r rs)" "cb_country (blocks_of cs r rs ! k) = cs_countries cs ! country_at ip r rs"
      "\<forall>j < length (blocks_of cs r rs). ordering_by_range (cb_ip_range (blocks_of cs r rs ! j)) (addr ip) =
        Some (if j < k then Less else if j = k then Equal else Greater)" using blocks_around [OF r(3)] by blast
    have "binary_search_by (\<lambda>block. ordering_by_range (cb_ip_range block) (addr ip)) (blocks_of cs r rs) 0 (length (blocks_of cs r rs)) = Some (Inr k)"
      by (rule binary_search_run) (use k in auto)
    with k(2) r(5) show ?thesis by auto
  qed
  show thesis by (rule that [OF 1(1,2) 2(1) 4 5]) (use 6 in blast)
qed

end

interpretation v4: ip_traits ipv4_version 4 V4
proof
  fix x y :: u32 and z :: u64
  assume "z \<in> set (iv_segments ipv4_version x)"
  then obtain o1 :: u8 where "z = ucast o1" by (auto simp: ipv4_version_def)
  then show "z < 2 ^ iv_segment_bit_count ipv4_version"
    using unsigned_less [of o1, where ?'a = nat] by (simp add: ipv4_version_def word_less_nat_alt unsigned_ucast_eq take_bit_nat_eq_self)
qed (simp_all add: ipv4_version_def ipv4_octets_joined plus_one_ipv4_def minus_one_ipv4_def parts_length comp_def ucast_back)

interpretation v6: ip_traits ipv6_version 8 V6
proof
  fix x y :: u128 and z :: u64
  assume "z \<in> set (iv_segments ipv6_version x)"
  then obtain o1 :: u16 where "z = ucast o1" by (auto simp: ipv6_version_def)
  then show "z < 2 ^ iv_segment_bit_count ipv6_version"
    using unsigned_less [of o1, where ?'a = nat] by (simp add: ipv6_version_def word_less_nat_alt unsigned_ucast_eq take_bit_nat_eq_self)
qed (simp_all add: ipv6_version_def ipv6_segments_joined plus_one_ipv6_def minus_one_ipv6_def parts_length comp_def ucast_back)

section \<open>Countries\<close>

lemma remove_first_length: "length (remove_first P xs) \<le> length xs"
  by (induction xs) auto

lemma countries_new_at:
  assumes "cs = countries_new pairs" and "i < length (cs_countries cs)"
  shows "co_index (cs_countries cs ! i) = i"
  using assms by (cases i) (auto simp: countries_new_def countries_from_def country_new_def Let_def nth_enumerate_eq split_beta)

lemma countries_new_sentinel:
  "cs_countries (countries_new pairs) \<noteq> []" "co_iso3166 (cs_countries (countries_new pairs) ! 0) = ''ZZ''"
  "length (cs_countries (countries_new pairs)) \<le> Suc (length pairs)"
  using remove_first_length [of _ pairs] by (auto simp: countries_new_def countries_from_def country_new_def Let_def)

lemma countries_new_code:
  assumes "cs = countries_new pairs" and "country_from_code cs code = Some (Inr c)"
  shows "co_index c < length (cs_countries cs)" "cs_countries cs ! co_index c = c"
  using assms countries_new_at [OF assms(1)]
  by (auto simp: country_from_code_def country_from_index_def split: option.splits sum.splits if_splits)

section \<open>Both versions\<close>

fun v4_part :: "country_block list \<Rightarrow> (u32 \<times> u32 \<times> nat) list" where
  "v4_part [] = []"
| "v4_part (b # bs) = (case cb_ip_range b of RangeV4 s t \<Rightarrow> (s, t, co_index (cb_country b)) # v4_part bs | _ \<Rightarrow> v4_part bs)"

fun v6_part :: "country_block list \<Rightarrow> (u128 \<times> u128 \<times> nat) list" where
  "v6_part [] = []"
| "v6_part (b # bs) = (case cb_ip_range b of RangeV6 s t \<Rightarrow> (s, t, co_index (cb_country b)) # v6_part bs | _ \<Rightarrow> v6_part bs)"

fun range_ok :: "ip_range \<Rightarrow> bool" where
  "range_ok (RangeV4 s t) = (s \<le> t)"
| "range_ok (RangeV6 s t) = (s \<le> t)"

fun precedes :: "ip_range \<Rightarrow> ip_range \<Rightarrow> bool" where
  "precedes (RangeV4 s t) (RangeV4 s' t') = (t < s')"
| "precedes (RangeV6 s t) (RangeV6 s' t') = (t < s')"
| "precedes _ _ = True"

fun is_v4 :: "ip_range \<Rightarrow> bool" where
  "is_v4 (RangeV4 _ _) = True"
| "is_v4 (RangeV6 _ _) = False"

definition table_ok :: "country_block list \<Rightarrow> bool" where
  "table_ok blocks \<longleftrightarrow> list_all (\<lambda>b. range_ok (cb_ip_range b)) blocks \<and>
     sorted_wrt (\<lambda>b b'. precedes (cb_ip_range b) (cb_ip_range b')) blocks \<and>
     list_ex (\<lambda>b. is_v4 (cb_ip_range b)) blocks \<and> list_ex (\<lambda>b. \<not> is_v4 (cb_ip_range b)) blocks"

lemma v4_ordered:
  assumes "list_all (\<lambda>b. range_ok (cb_ip_range b) \<and> co_index (cb_country b) < 512) bs"
    and "sorted_wrt (\<lambda>b b'. precedes (cb_ip_range b) (cb_ip_range b')) bs" and "\<forall>b \<in> set bs. precedes (RangeV4 s e) (cb_ip_range b)"
  shows "v4.ordered e (v4_part bs)"
  using assms
proof (induction bs arbitrary: s e)
  case (Cons b bs)
  then show ?case by (cases "cb_ip_range b") auto
qed simp

lemma v6_ordered:
  assumes "list_all (\<lambda>b. range_ok (cb_ip_range b) \<and> co_index (cb_country b) < 512) bs"
    and "sorted_wrt (\<lambda>b b'. precedes (cb_ip_range b) (cb_ip_range b')) bs" and "\<forall>b \<in> set bs. precedes (RangeV6 s e) (cb_ip_range b)"
  shows "v6.ordered e (v6_part bs)"
  using assms
proof (induction bs arbitrary: s e)
  case (Cons b bs)
  then show ?case by (cases "cb_ip_range b") auto
qed simp

lemma parts_proper:
  assumes "list_all (\<lambda>b. range_ok (cb_ip_range b) \<and> co_index (cb_country b) < 512) bs"
    and "sorted_wrt (\<lambda>b b'. precedes (cb_ip_range b) (cb_ip_range b')) bs"
  shows "list_ex (\<lambda>b. is_v4 (cb_ip_range b)) bs \<Longrightarrow> v4.proper (v4_part bs)"
    and "list_ex (\<lambda>b. \<not> is_v4 (cb_ip_range b)) bs \<Longrightarrow> v6.proper (v6_part bs)"
  using assms
proof (induction bs)
  case (Cons b bs)
  case 1
  then show ?case using Cons.IH(1) v4_ordered by (cases "cb_ip_range b") auto
next
  case (Cons b bs)
  case 2
  then show ?case using Cons.IH(2) v6_ordered by (cases "cb_ip_range b") auto
qed simp_all

lemma parts_members:
  "(s, t, i) \<in> set (v4_part bs) \<Longrightarrow> \<exists>b \<in> set bs. i = co_index (cb_country b)"
  "(s', t', i) \<in> set (v6_part bs) \<Longrightarrow> \<exists>b \<in> set bs. i = co_index (cb_country b)"
  by (induction bs) (auto split: ip_range.splits)

lemma serializer_add_parts:
  assumes "iter_each (\<lambda>(s, t, i). add_ip_generic ipv4_version s t i) (v4_part bs) (cbs_ipv4 S) = Some S4"
    and "iter_each (\<lambda>(s, t, i). add_ip_generic ipv6_version s t i) (v6_part bs) (cbs_ipv6 S) = Some S6"
  shows "iter_each serializer_add bs S = Some \<lparr>cbs_ipv4 = S4, cbs_ipv6 = S6\<rparr>"
  using assms
proof (induction bs arbitrary: S)
  case (Cons b bs)
  then show ?case by (cases "cb_ip_range b") (auto simp: serializer_add_def bind_eq_Some_conv)
qed simp

lemma ucast_le_up: "(ucast x :: u128) \<le> ucast y \<longleftrightarrow> x \<le> (y :: u32)"
proof -
  have "unat (ucast z :: u128) = unat z" for z :: u32
    using unsigned_less [of z, where ?'a = nat] by (simp add: unsigned_ucast_eq take_bit_nat_eq_self)
  then show ?thesis by (simp add: word_le_nat_alt)
qed

lemma listed_parts:
  "v4.listed ip (v4_part bs) = (case find (\<lambda>b. range_contains (cb_ip_range b) (V4 ip)) bs of None \<Rightarrow> 0 | Some b \<Rightarrow> co_index (cb_country b))"
  "v6.listed ip' (v6_part bs) = (case find (\<lambda>b. range_contains (cb_ip_range b) (V6 ip')) bs of None \<Rightarrow> 0 | Some b \<Rightarrow> co_index (cb_country b))"
  by (induction bs) (auto split: ip_range.splits simp: contains_inner_def ucast_le_up)

lemma serializer_new_parts:
  "cbs_ipv4 serializer_new = ip_serializer_new (- 2) (- 1)" "cbs_ipv6 serializer_new = ip_serializer_new (- 2) (- 1)"
proof -
  have "(0xFFFFFFFE :: u32) = - 2" "(0xFFFFFFFF :: u32) = - 1" "(0xFFFFFFFFFFFFFFFFFFFFFFFFFFFFFFFE :: u128) = - 2"
    "(0xFFFFFFFFFFFFFFFFFFFFFFFFFFFFFFFF :: u128) = - 1" by simp_all
  then show "cbs_ipv4 serializer_new = ip_serializer_new (- 2) (- 1)" "cbs_ipv6 serializer_new = ip_serializer_new (- 2) (- 1)"
    by (simp_all only: serializer_new_def country_block_serializer.simps)
qed

lemma find_country_run:
  assumes "\<forall>ip. \<exists>k. binary_search_by (\<lambda>block. ordering_by_range (cb_ip_range block) (V4 ip)) (ccf_ipv4 finder) 0
        (length (ccf_ipv4 finder)) = Some (Inr k) \<and>
      cb_country (ccf_ipv4 finder ! k) = cs_countries (countries_new pairs) ! v4.listed ip (v4_part blocks)"
    and "\<forall>ip. \<exists>k. binary_search_by (\<lambda>block. ordering_by_range (cb_ip_range block) (V6 ip)) (ccf_ipv6 finder) 0
        (length (ccf_ipv6 finder)) = Some (Inr k) \<and>
      cb_country (ccf_ipv6 finder ! k) = cs_countries (countries_new pairs) ! v6.listed ip (v6_part blocks)"
    and known: "\<And>b. b \<in> set blocks \<Longrightarrow> cs_countries (countries_new pairs) ! co_index (cb_country b) = cb_country b"
  shows "find_country finder ip = Some (case find (\<lambda>b. range_contains (cb_ip_range b) ip) blocks of
      None \<Rightarrow> None | Some b \<Rightarrow> if co_iso3166 (cb_country b) = ''ZZ'' then None else Some (cb_country b))"
proof -
  let ?f = "find (\<lambda>b. range_contains (cb_ip_range b) ip) blocks"
  let ?c = "cs_countries (countries_new pairs) ! (case ?f of None \<Rightarrow> 0 | Some b \<Rightarrow> co_index (cb_country b))"
  have "find_country finder ip = Some (if co_iso3166 ?c = ''ZZ'' then None else Some ?c)"
  proof (cases ip)
    case (V4 x)
    with assms(1) [rule_format, of x] show ?thesis by (auto simp: find_country_def listed_parts)
  next
    case (V6 x)
    with assms(2) [rule_format, of x] show ?thesis by (auto simp: find_country_def listed_parts)
  qed
  moreover have "?c = cb_country b" if "?f = Some b" for b
  proof -
    from that have "b \<in> set blocks" by (auto simp: find_Some_iff)
    with known that show ?thesis by simp
  qed
  ultimately show ?thesis using countries_new_sentinel(2) by (cases ?f) auto
qed

section \<open>Properties\<close>

text \<open>
  C33. The whole way of the table, from the blocks of the data source through the generated numbers to the search: blocks
  that are in order and do not overlap within their version of IP, with countries of the list, are written without a
  panic; the numbers are read back without a panic; and then the search finds for every address the country of
  the block that contains it, and none for an address outside of all blocks or in a block of the sentinel.
\<close>

theorem country_lookup_correct:
  assumes "length pairs < 512" and "table_ok blocks"
    and "\<forall>b \<in> set blocks. \<exists>code. country_from_code (countries_new pairs) code = Some (Inr (cb_country b))"
  shows "\<exists>S f4 f6 data4 data6 finder. iter_each serializer_add blocks serializer_new = Some S \<and> serializer_finish S = Some (f4, f6) \<and>
    generate_country_data (fbq_bit_queue f4) = Some data4 \<and> generate_country_data (fbq_bit_queue f6) = Some data6 \<and>
    finder_new (countries_new pairs) data4 data6 = Some finder \<and>
    (\<forall>ip. find_country finder ip = Some (case find (\<lambda>b. range_contains (cb_ip_range b) ip) blocks of
        None \<Rightarrow> None
      | Some b \<Rightarrow> if co_iso3166 (cb_country b) = ''ZZ'' then None else Some (cb_country b)))"
proof -
  let ?cs = "countries_new pairs"
  have known: "co_index (cb_country b) < length (cs_countries ?cs)" "cs_countries ?cs ! co_index (cb_country b) = cb_country b"
    if "b \<in> set blocks" for b using assms(3) that countries_new_code [OF refl] by metis+
  have cs: "cs_countries ?cs \<noteq> []" "length (cs_countries ?cs) \<le> 512" using countries_new_sentinel [of pairs] assms(1) by auto
  have ok: "list_all (\<lambda>b. range_ok (cb_ip_range b) \<and> co_index (cb_country b) < 512) blocks"
    "sorted_wrt (\<lambda>b b'. precedes (cb_ip_range b) (cb_ip_range b')) blocks"
    using assms(2) known(1) cs(2) by (auto simp: table_ok_def list_all_iff intro: less_le_trans)
  from parts_proper [OF ok] assms(2) have p: "v4.proper (v4_part blocks)" "v6.proper (v6_part blocks)" by (simp_all add: table_ok_def)
  have i: "\<forall>(s, t, i) \<in> set (v4_part blocks). i < length (cs_countries ?cs)" "\<forall>(s, t, i) \<in> set (v6_part blocks). i < length (cs_countries ?cs)"
    using known(1) parts_members by fast+
  obtain S4 f4 data4 d4 blocks4 where 4: "iter_each (\<lambda>(s, t, i). add_ip_generic ipv4_version s t i) (v4_part blocks) (ip_serializer_new (- 2) (- 1)) = Some S4"
    "finish_version ipv4_version S4 = Some f4" "generate_country_data (fbq_bit_queue f4) = Some data4"
    "deserializer_new ipv4_version data4 ?cs = Some d4" "collect_blocks ipv4_version d4 = Some blocks4"
    "\<forall>ip. \<exists>k. binary_search_by (\<lambda>block. ordering_by_range (cb_ip_range block) (V4 ip)) blocks4 0 (length blocks4) = Some (Inr k) \<and>
       cb_country (blocks4 ! k) = cs_countries ?cs ! v4.listed ip (v4_part blocks)"
    by (rule v4.table_run [OF p(1) i(1) cs(1)])
  obtain S6 f6 data6 d6 blocks6 where 6: "iter_each (\<lambda>(s, t, i). add_ip_generic ipv6_version s t i) (v6_part blocks) (ip_serializer_new (- 2) (- 1)) = Some S6"
    "finish_version ipv6_version S6 = Some f6" "generate_country_data (fbq_bit_queue f6) = Some data6"
    "deserializer_new ipv6_version data6 ?cs = Some d6" "collect_blocks ipv6_version d6 = Some blocks6"
    "\<forall>ip. \<exists>k. binary_search_by (\<lambda>block. ordering_by_range (cb_ip_range block) (V6 ip)) blocks6 0 (length blocks6) = Some (Inr k) \<and>
       cb_country (blocks6 ! k) = cs_countries ?cs ! v6.listed ip (v6_part blocks)"
    by (rule v6.table_run [OF p(2) i(2) cs(1)])
  let ?finder = "\<lparr>ccf_countries = ?cs, ccf_ipv4 = blocks4, ccf_ipv6 = blocks6\<rparr>"
  have w: "iter_each serializer_add blocks serializer_new = Some \<lparr>cbs_ipv4 = S4, cbs_ipv6 = S6\<rparr>"
    by (rule serializer_add_parts) (simp_all add: serializer_new_parts 4(1) 6(1))
  have "find_country ?finder ip = Some (case find (\<lambda>b. range_contains (cb_ip_range b) ip) blocks of
        None \<Rightarrow> None | Some b \<Rightarrow> if co_iso3166 (cb_country b) = ''ZZ'' then None else Some (cb_country b))" for ip
    by (rule find_country_run) (use 4(6) 6(6) known(2) in simp_all)
  moreover have "serializer_finish \<lparr>cbs_ipv4 = S4, cbs_ipv6 = S6\<rparr> = Some (f4, f6)" "finder_new ?cs data4 data6 = Some ?finder"
    using 4 6 by (simp_all add: serializer_finish_def finder_new_def)
  ultimately show ?thesis using 4(3) 6(3) w by blast
qed

definition sample_pairs :: "(string \<times> string) list" where
  "sample_pairs = [(''ZZ'', ''Nowhere''), (''CZ'', ''Czechia''), (''AD'', ''Andorra'')]"

definition sample_blocks :: "country_block list" where
  "sample_blocks =
     [\<lparr>cb_ip_range = RangeV4 0x01020304 0x010203FF, cb_country = country_new 1 ''AD'' ''Andorra''\<rparr>,
      \<lparr>cb_ip_range = RangeV6 0 1, cb_country = country_new 2 ''CZ'' ''Czechia''\<rparr>,
      \<lparr>cb_ip_range = RangeV4 0x01020400 0x01020400, cb_country = country_new 2 ''CZ'' ''Czechia''\<rparr>]"

lemma sample_blocks_known:
  "\<forall>b \<in> set sample_blocks. \<exists>code. country_from_code (countries_new sample_pairs) code = Some (Inr (cb_country b))"
proof -
  have "country_from_code (countries_new sample_pairs) ''AD'' = Some (Inr (country_new 1 ''AD'' ''Andorra''))"
    "country_from_code (countries_new sample_pairs) ''cz'' = Some (Inr (country_new 2 ''CZ'' ''Czechia''))"
    by code_simp+
  then show ?thesis by (auto simp: sample_blocks_def)
qed

theorem country_lookup_correct_witness:
  "\<exists>S f4 f6 data4 data6 finder. iter_each serializer_add sample_blocks serializer_new = Some S \<and> serializer_finish S = Some (f4, f6) \<and>
    generate_country_data (fbq_bit_queue f4) = Some data4 \<and> generate_country_data (fbq_bit_queue f6) = Some data6 \<and>
    finder_new (countries_new sample_pairs) data4 data6 = Some finder \<and>
    find_country finder (V4 0x01020305) = Some (Some (country_new 1 ''AD'' ''Andorra'')) \<and> find_country finder (V6 2) = Some None"
proof -
  have "length sample_pairs < 512" "table_ok sample_blocks" by code_simp+
  from country_lookup_correct [OF this sample_blocks_known] obtain S f4 f6 data4 data6 finder where
    w: "iter_each serializer_add sample_blocks serializer_new = Some S" "serializer_finish S = Some (f4, f6)"
    "generate_country_data (fbq_bit_queue f4) = Some data4" "generate_country_data (fbq_bit_queue f6) = Some data6"
    "finder_new (countries_new sample_pairs) data4 data6 = Some finder"
    and found: "\<forall>ip. find_country finder ip = Some (case find (\<lambda>b. range_contains (cb_ip_range b) ip) sample_blocks of
        None \<Rightarrow> None | Some b \<Rightarrow> if co_iso3166 (cb_country b) = ''ZZ'' then None else Some (cb_country b))" by blast
  have "find (\<lambda>b. range_contains (cb_ip_range b) (V4 0x01020305)) sample_blocks = Some (hd sample_blocks)"
    "find (\<lambda>b. range_contains (cb_ip_range b) (V6 2)) sample_blocks = None" by code_simp+
  with found have "find_country finder (V4 0x01020305) = Some (Some (country_new 1 ''AD'' ''Andorra''))" "find_country finder (V6 2) = Some None"
    by (simp_all add: sample_blocks_def country_new_def)
  with w show ?thesis by blast
qed

text \<open>
  The IPv4 example of the comment at the head of \<^verbatim>\<open>country_block_serde.rs\<close>: two records, the first of which starts at 1.2.3.4.
\<close>

definition documented_fields :: "(u64 \<times> nat) list" where
  "documented_fields =
     [(3, 2), (0, 2), (1, 8), (1, 2), (2, 8), (2, 2), (3, 8), (3, 2), (4, 8), (237, 9), (0, 2), (0, 2), (255, 8), (235, 9)]"

definition documented_countries :: countries where
  "documented_countries = \<lparr>cs_countries = map (\<lambda>i. country_new i ''XX'' ''X'') [0..<238], cs_index_by_iso3166 = fmempty\<rparr>"

definition documented_blocks :: "country_block list run" where
  "documented_blocks = do {
     q \<leftarrow> iter_each (\<lambda>(d, n). add_bits d n) documented_fields bq_new;
     country_data \<leftarrow> generate_country_data q;
     d \<leftarrow> deserializer_new ipv4_version country_data documented_countries;
     collect_blocks ipv4_version d }"


end
