(* ===== verification/Big_Integers.thy ===== *)
theory Big_Integers
  imports Prelude "HOL-Library.Signed_Division"
begin

unbundle bit_operations_syntax

text \<open>
  Amounts of money: the conversions of \<^verbatim>\<open>node/src/accountant/mod.rs\<close>, the division of a 128-bit integer into two columns
  of the database in \<^verbatim>\<open>accountant/db_big_integer/big_int_divider.rs\<close>, and the thresholds of debts in
  \<^verbatim>\<open>sub_lib/accountant.rs\<close> and \<^verbatim>\<open>accountant/db_access_objects/utils.rs\<close>, with their check in
  \<^verbatim>\<open>node_configurator/unprivileged_parse_args_configuration.rs\<close>. A signed integer, or an unsigned one that is only a
  quantity of money, is an \<open>int\<close> in the range of its type; where the arithmetic of the source can leave the range,
  what a release build makes of it is written out.
\<close>

section \<open>Conversions\<close>

datatype int_type = I64 | U64 | I128 | U128

fun type_min :: "int_type \<Rightarrow> int" where
  "type_min I64 = - (2 ^ 63)"
| "type_min U64 = 0"
| "type_min I128 = - (2 ^ 127)"
| "type_min U128 = 0"

fun type_max :: "int_type \<Rightarrow> int" where
  "type_max I64 = 2 ^ 63 - 1"
| "type_max U64 = 2 ^ 64 - 1"
| "type_max I128 = 2 ^ 127 - 1"
| "type_max U128 = 2 ^ 128 - 1"

definition in_type :: "int_type \<Rightarrow> int \<Rightarrow> bool" where
  "in_type T n \<longleftrightarrow> type_min T \<le> n \<and> n \<le> type_max T"

definition wrap_i128 :: "int \<Rightarrow> int" where
  "wrap_i128 x = (x + 2 ^ 127) mod 2 ^ 128 - 2 ^ 127"

definition wrap_u128 :: "int \<Rightarrow> int" where
  "wrap_u128 x = x mod 2 ^ 128"

definition sign_conversion :: "int_type \<Rightarrow> int \<Rightarrow> int + int" where
  "sign_conversion S num = (if in_type S num then Inr num else Inl num)"

definition checked_conversion :: "int_type \<Rightarrow> int \<Rightarrow> int run" where
  "checked_conversion S num = (case sign_conversion S num of Inr n \<Rightarrow> ret n | Inl _ \<Rightarrow> panic)"

definition WEIS_IN_GWEI :: int where
  "WEIS_IN_GWEI = 1000000000"

definition gwei_to_wei :: "int \<Rightarrow> int" where
  "gwei_to_wei gwei = gwei * WEIS_IN_GWEI"

definition wei_to_gwei :: "int_type \<Rightarrow> int \<Rightarrow> int run" where
  "wei_to_gwei T wei = checked_conversion T (wei sdiv WEIS_IN_GWEI)"

section \<open>Two columns for one integer\<close>

definition deconstruct_range_check :: "int \<Rightarrow> unit run" where
  "deconstruct_range_check num =
     (let top_two_bits = drop_bit 126 num AND 0b11
      in if top_two_bits = 0b01 then panic else if top_two_bits = 0b10 then panic else ret ())"

definition deconstruct_high_bytes :: "int \<Rightarrow> int run" where
  "deconstruct_high_bytes num = do {
     _ \<leftarrow> deconstruct_range_check num;
     ret (wrap_i64 (drop_bit 63 num)) }"

definition deconstruct_low_bytes :: "int \<Rightarrow> int" where
  "deconstruct_low_bytes num = wrap_i64 (num AND 0x7FFFFFFFFFFFFFFF)"

definition deconstruct :: "int \<Rightarrow> (int \<times> int) run" where
  "deconstruct num = do {
     high_bytes \<leftarrow> deconstruct_high_bytes num;
     ret (high_bytes, deconstruct_low_bytes num) }"

definition reconstitute :: "int \<Rightarrow> int \<Rightarrow> int run" where
  "reconstitute high_bytes low_bytes =
     (if low_bytes < 0 then panic else ret (push_bit 63 high_bytes OR low_bytes))"

text \<open>
  What the functions \<open>slope_drop_high_bytes\<close> and \<open>slope_drop_low_bytes\<close>, which the statements of the database may
  call, make of their three arguments. The cases of the error are its two messages.
\<close>

datatype slope_error = NonnegativeSlope | NegativeTime

definition common_arg_distillation :: "int \<Rightarrow> int \<Rightarrow> int \<Rightarrow> slope_error + int" where
  "common_arg_distillation start_point_to_decrease_from_gwei slope time_parameter =
     (if slope < 0 \<and> 0 < time_parameter
      then Inr (gwei_to_wei start_point_to_decrease_from_gwei + slope * time_parameter)
      else if \<not> slope < 0 then Inl NonnegativeSlope
      else Inl NegativeTime)"

section \<open>Thresholds\<close>

record payment_thresholds =
  debt_threshold_gwei :: u64
  maturity_threshold_sec :: u64
  payment_grace_period_sec :: u64
  permanent_debt_allowed_gwei :: u64
  threshold_interval_sec :: u64
  unban_below_gwei :: u64

definition DEFAULT_PAYMENT_THRESHOLDS :: payment_thresholds where
  "DEFAULT_PAYMENT_THRESHOLDS = \<lparr>debt_threshold_gwei = 0xFFFFFFFFFFFFFFFF, maturity_threshold_sec = 1200,
     payment_grace_period_sec = 1200, permanent_debt_allowed_gwei = 0xFFFFFFFFFFFFFFFF,
     threshold_interval_sec = 21600, unban_below_gwei = 0xFFFFFFFFFFFFFFFF\<rparr>"

definition sugg_and_grace :: "payment_thresholds \<Rightarrow> int \<Rightarrow> int run" where
  "sugg_and_grace t now = do {
     maturity \<leftarrow> checked_conversion I64 (uint (maturity_threshold_sec t));
     grace \<leftarrow> checked_conversion I64 (uint (payment_grace_period_sec t));
     ret (wrap_i64 (wrap_i64 (now - maturity) - grace)) }"

datatype thresholds_error = DebtThresholdNotAbovePermanentDebt | ThresholdIntervalTooLong

definition check_payment_thresholds :: "payment_thresholds \<Rightarrow> thresholds_error + unit" where
  "check_payment_thresholds t =
     (if debt_threshold_gwei t \<le> permanent_debt_allowed_gwei t then Inl DebtThresholdNotAbovePermanentDebt
      else if threshold_interval_sec t > 10 ^ 9 then Inl ThresholdIntervalTooLong
      else Inr ())"

text \<open>Integer division rounds towards zero, and panics if the divisor is zero.\<close>

definition slope :: "payment_thresholds \<Rightarrow> int run" where
  "slope t =
     (if threshold_interval_sec t = 0 then panic
      else ret ((gwei_to_wei (uint (permanent_debt_allowed_gwei t)) - gwei_to_wei (uint (debt_threshold_gwei t)))
        sdiv uint (threshold_interval_sec t)))"

definition compute_theoretical_interception_with_y_axis :: "int \<Rightarrow> int \<Rightarrow> int \<Rightarrow> int" where
  "compute_theoretical_interception_with_y_axis m maturity debt_threshold_wei =
     wrap_i128 (debt_threshold_wei - wrap_i128 (maturity * m))"

definition qualifies_for_permanent_debt_limit :: "u64 \<Rightarrow> payment_thresholds \<Rightarrow> bool" where
  "qualifies_for_permanent_debt_limit debt_age_s t \<longleftrightarrow> debt_age_s > maturity_threshold_sec t + threshold_interval_sec t"

definition calculate_finite_debt_limit_by_age :: "payment_thresholds \<Rightarrow> u64 \<Rightarrow> int run" where
  "calculate_finite_debt_limit_by_age t debt_age_s =
     (if qualifies_for_permanent_debt_limit debt_age_s t then ret (gwei_to_wei (uint (permanent_debt_allowed_gwei t)))
      else do {
        m \<leftarrow> slope t;
        let b = compute_theoretical_interception_with_y_axis m (uint (maturity_threshold_sec t))
          (gwei_to_wei (uint (debt_threshold_gwei t)));
        let y = wrap_i128 (wrap_i128 (m * uint debt_age_s) + b);
        ret (wrap_u128 y) })"

section \<open>The columns hold the integer\<close>

lemma in_type_wrap_i64: "in_type I64 n \<Longrightarrow> wrap_i64 n = n"
  by (simp add: in_type_def wrap_i64_def)

lemma wrap_i128_id: "in_type I128 n \<Longrightarrow> wrap_i128 n = n"
  by (simp add: in_type_def wrap_i128_def)

definition storable :: "int \<Rightarrow> bool" where
  "storable n \<longleftrightarrow> - (2 ^ 126) \<le> n \<and> n < 2 ^ 126"

definition column_ok :: "int \<Rightarrow> int \<Rightarrow> bool" where
  "column_ok high low \<longleftrightarrow> in_type I64 high \<and> 0 \<le> low \<and> low < 2 ^ 63"

lemma low_bytes_eq: "deconstruct_low_bytes n = n mod 2 ^ 63"
proof -
  have "n AND 0x7FFFFFFFFFFFFFFF = take_bit 63 n" by (simp add: take_bit_eq_mask mask_eq_exp_minus_1)
  moreover have "in_type I64 (n mod 2 ^ 63)"
  proof -
    have "0 \<le> n mod 2 ^ 63" "n mod 2 ^ 63 < 2 ^ 63" by simp_all
    then show ?thesis unfolding in_type_def type_min.simps type_max.simps by linarith
  qed
  ultimately show ?thesis by (simp add: deconstruct_low_bytes_def take_bit_eq_mod in_type_wrap_i64)
qed

lemma le_div: "0 < d \<Longrightarrow> a \<le> n div d \<longleftrightarrow> d * a \<le> (n :: int)"
proof
  assume d: "0 < d" and "a \<le> n div d"
  then have "d * a \<le> d * (n div d)" by simp
  then show "d * a \<le> n" using d mult_div_mod_eq [of d n] pos_mod_sign [of d n] by linarith
next
  assume d: "0 < d" and "d * a \<le> n"
  then have "d * a < d * (n div d + 1)"
    using mult_div_mod_eq [of d n] pos_mod_bound [of d n] unfolding distrib_left by linarith
  then show "a \<le> n div d" using d by (simp add: mult_less_cancel_left)
qed

lemma storable_div: "storable n \<longleftrightarrow> - 1 \<le> n div 2 ^ 126 \<and> \<not> 1 \<le> n div 2 ^ 126"
  by (simp add: le_div storable_def not_le)

lemma range_check_run:
  assumes "in_type I128 n"
  shows "deconstruct_range_check n = (if storable n then Some () else None)"
proof -
  let ?q = "n div 2 ^ 126"
  have "(0b11 :: int) = mask 2" by (simp add: mask_eq_exp_minus_1)
  then have "drop_bit 126 n AND 0b11 = ?q mod 4"
    by (simp only: drop_bit_eq_div take_bit_eq_mask [symmetric] take_bit_eq_mod) simp
  moreover have "- 2 \<le> ?q" "?q \<le> 1"
  proof -
    have "(2 :: int) ^ 127 = 2 * 2 ^ 126" by simp
    then have "2 ^ 126 * - 2 \<le> n" "\<not> 2 ^ 126 * 2 \<le> n" using assms unfolding in_type_def type_min.simps type_max.simps by linarith+
    then have "- 2 \<le> ?q" "\<not> 2 \<le> ?q" by (simp_all only: le_div zero_less_power zero_less_numeral if_True simp_thms)
    then show "- 2 \<le> ?q" "?q \<le> 1" by linarith+
  qed
  then have "?q = - 2 \<or> ?q = - 1 \<or> ?q = 0 \<or> ?q = 1" by linarith
  ultimately show ?thesis unfolding storable_div deconstruct_range_check_def Let_def by (elim disjE) simp_all
qed

lemma deconstruct_run:
  assumes "in_type I128 n"
  shows "deconstruct n = (if storable n then Some (n div 2 ^ 63, n mod 2 ^ 63) else None)"
proof -
  have "wrap_i64 (drop_bit 63 n) = n div 2 ^ 63" if "storable n"
    using that by (intro in_type_wrap_i64 [THEN trans]) (auto simp: storable_def in_type_def drop_bit_eq_div)
  then show ?thesis using range_check_run [OF assms]
    by (simp add: deconstruct_def deconstruct_high_bytes_def low_bytes_eq)
qed

lemma reconstitute_run: "column_ok high low \<Longrightarrow> reconstitute high low = Some (high * 2 ^ 63 + low)"
proof -
  assume ok: "column_ok high low"
  then have "take_bit 63 low = low" by (simp add: column_ok_def take_bit_int_eq_self)
  then have "push_bit 63 high OR low = low + push_bit 63 high"
    using concat_bit_eq [of 63 low high] concat_bit_def [of 63 low high] by (simp add: or.commute)
  with ok show ?thesis by (simp add: reconstitute_def column_ok_def push_bit_eq_mult)
qed

lemma deconstruct_SomeD:
  assumes "in_type I128 n" "deconstruct n = Some (h, l)"
  shows "storable n" "h = n div 2 ^ 63" "l = n mod 2 ^ 63" "column_ok h l" "n = h * 2 ^ 63 + l"
proof -
  show s: "storable n" and h: "h = n div 2 ^ 63" and l: "l = n mod 2 ^ 63"
    using assms by (auto simp: deconstruct_run split: if_splits)
  have "2 ^ 63 * - (2 ^ 63) \<le> n" "\<not> 2 ^ 63 * 2 ^ 63 \<le> n" using s by (simp_all add: storable_def)
  then have "- (2 ^ 63) \<le> n div 2 ^ 63" "\<not> 2 ^ 63 \<le> n div 2 ^ 63" by (simp_all only: le_div zero_less_power zero_less_numeral if_True simp_thms)
  then show "column_ok h l" unfolding column_ok_def in_type_def type_min.simps type_max.simps h l by simp
  show "n = h * 2 ^ 63 + l" unfolding h l using div_mult_mod_eq [of n "2 ^ 63"] by simp
qed

lemma columns_less:
  assumes "column_ok h l" "column_ok h' l'"
  shows "h * 2 ^ 63 + l < h' * 2 ^ 63 + l' \<longleftrightarrow> h < h' \<or> h = h' \<and> l < l'"
proof -
  have b: "0 \<le> l" "l < 2 ^ 63" "0 \<le> l'" "l' < 2 ^ 63" using assms by (simp_all add: column_ok_def)
  consider "h < h'" | "h = h'" | "h' < h" by linarith
  then show ?thesis
  proof cases
    case 1
    then have "(h + 1) * 2 ^ 63 \<le> h' * 2 ^ 63" by (intro mult_right_mono) auto
    with 1 b show ?thesis by (simp add: distrib_right)
  next
    case 3
    then have "(h' + 1) * 2 ^ 63 \<le> h * 2 ^ 63" by (intro mult_right_mono) auto
    with 3 b show ?thesis by (simp add: distrib_right)
  qed simp
qed

text \<open>
  C37. Dividing a 128-bit integer into two columns panics exactly when it is outside \<open>-2^126 .. 2^126 - 1\<close>. Otherwise both columns
  are 64-bit integers, the low one is not negative, joining them gives the integer back, and comparing the high columns and
  then the low ones, as the statements of the database do, compares the integers.
\<close>

theorem big_int_columns:
  assumes "in_type I128 n" "in_type I128 m"
  shows "case deconstruct n of
      None \<Rightarrow> n < - (2 ^ 126) \<or> 2 ^ 126 \<le> n
    | Some (h, l) \<Rightarrow> - (2 ^ 126) \<le> n \<and> n < 2 ^ 126 \<and> in_type I64 h \<and> 0 \<le> l \<and> in_type I64 l \<and> reconstitute h l = Some n \<and>
        (case deconstruct m of None \<Rightarrow> True | Some (h', l') \<Rightarrow> (h < h' \<or> h = h' \<and> l < l') = (n < m))"
proof (cases "deconstruct n")
  case None
  then show ?thesis using assms(1) by (auto simp: deconstruct_run storable_def not_le split: if_splits)
next
  case (Some hl)
  obtain h l where hl: "hl = (h, l)" by (cases hl)
  note n = deconstruct_SomeD [OF assms(1) Some [unfolded hl]]
  have "reconstitute h l = Some n" using n(4,5) by (simp add: reconstitute_run)
  moreover have "(h < h' \<or> h = h' \<and> l < l') = (n < m)" if "deconstruct m = Some (h', l')" for h' l'
    using deconstruct_SomeD [OF assms(2) that] n by (metis columns_less)
  moreover have "in_type I64 l" using n(4) unfolding column_ok_def in_type_def type_min.simps type_max.simps by linarith
  ultimately show ?thesis using n(1,4) Some hl by (auto simp: storable_def column_ok_def split: option.split)
qed

theorem big_int_columns_witness:
  "deconstruct (- 1) = Some (- 1, 9223372036854775807) \<and> reconstitute (- 1) 9223372036854775807 = Some (- 1) \<and>
    deconstruct 5 = Some (0, 5)"
proof -
  have d: "deconstruct (- 1) = Some (- 1, 9223372036854775807)" "deconstruct 5 = Some (0, 5)" by code_simp+
  have "in_type I128 (- 1)" "in_type I128 5" by code_simp+
  from big_int_columns [OF this] d show ?thesis by simp
qed

section \<open>The limit of a debt of an age\<close>

lemma sdiv_neg: "0 \<le> x \<Longrightarrow> 0 < d \<Longrightarrow> (- x) sdiv d = - (x div (d::int))"
  by (auto simp: signed_divide_int_def sgn_if)

lemma wrap_i128_add [simp]: "wrap_i128 (wrap_i128 x + y) = wrap_i128 (x + y)" "wrap_i128 (x + wrap_i128 y) = wrap_i128 (x + y)"
  by (simp_all add: wrap_i128_def mod_simps algebra_simps)

lemma wrap_i128_diff [simp]: "wrap_i128 (x - wrap_i128 y) = wrap_i128 (x - y)"
  by (simp add: wrap_i128_def mod_simps algebra_simps)

text \<open>The line between the two limits, in exact arithmetic.\<close>

definition debt_line :: "payment_thresholds \<Rightarrow> int \<Rightarrow> int" where
  "debt_line t age = gwei_to_wei (uint (debt_threshold_gwei t)) -
     (gwei_to_wei (uint (debt_threshold_gwei t)) - gwei_to_wei (uint (permanent_debt_allowed_gwei t))) div uint (threshold_interval_sec t) *
     (age - uint (maturity_threshold_sec t))"

lemma checked_thresholds:
  assumes "check_payment_thresholds t = Inr ()" "threshold_interval_sec t \<noteq> 0"
  defines "D \<equiv> gwei_to_wei (uint (debt_threshold_gwei t))" and "P \<equiv> gwei_to_wei (uint (permanent_debt_allowed_gwei t))"
    and "I \<equiv> uint (threshold_interval_sec t)"
  shows "0 \<le> P" "P + 10 ^ 9 \<le> D" "D < 2 ^ 94" "0 < I" "I \<le> 10 ^ 9" "1 \<le> (D - P) div I" "slope t = Some (- ((D - P) div I))"
proof -
  have d: "\<not> debt_threshold_gwei t \<le> permanent_debt_allowed_gwei t" "threshold_interval_sec t \<le> 10 ^ 9"
    using assms(1) by (auto simp: check_payment_thresholds_def not_less split: if_splits)
  have lt: "uint (permanent_debt_allowed_gwei t) + 1 \<le> uint (debt_threshold_gwei t)" using d(1) by (simp add: not_le word_less_def)
  have "uint (debt_threshold_gwei t) < 2 ^ 64" using unsigned_less [of "debt_threshold_gwei t", where ?'a = int] by simp
  then show "D < 2 ^ 94" by (simp add: D_def gwei_to_wei_def WEIS_IN_GWEI_def)
  show P: "0 \<le> P" by (simp add: P_def gwei_to_wei_def WEIS_IN_GWEI_def)
  show PD: "P + 10 ^ 9 \<le> D" using lt by (simp add: D_def P_def gwei_to_wei_def WEIS_IN_GWEI_def)
  show I: "0 < I" using assms(2) unfolding I_def by (simp add: uint_0_iff less_le)
  show I9: "I \<le> 10 ^ 9" using d(2) unfolding I_def by (simp add: word_le_def)
  have "I * 1 \<le> D - P" using PD I9 by linarith
  then show "1 \<le> (D - P) div I" using I by (simp only: le_div)
  have "(P - D) sdiv I = - ((D - P) div I)" using sdiv_neg [of "D - P" I] PD I by simp
  then show "slope t = Some (- ((D - P) div I))" using assms(2) by (simp add: slope_def D_def P_def I_def)
qed

lemma debt_line_bounds:
  assumes "check_payment_thresholds t = Inr ()" "threshold_interval_sec t \<noteq> 0"
    and age: "uint (maturity_threshold_sec t) \<le> age" "age \<le> uint (maturity_threshold_sec t) + uint (threshold_interval_sec t)"
  shows "gwei_to_wei (uint (permanent_debt_allowed_gwei t)) \<le> debt_line t age" "debt_line t age \<le> gwei_to_wei (uint (debt_threshold_gwei t))"
    "age < age' \<Longrightarrow> debt_line t age' < debt_line t age"
proof -
  note c = checked_thresholds [OF assms(1,2)]
  define D P I where "D = gwei_to_wei (uint (debt_threshold_gwei t))" and "P = gwei_to_wei (uint (permanent_debt_allowed_gwei t))"
    and "I = uint (threshold_interval_sec t)"
  define s x where "s = (D - P) div I" and "x = age - uint (maturity_threshold_sec t)"
  have s: "1 \<le> s" "0 < I" using c(4,6) by (simp_all add: s_def D_def P_def I_def)
  have x: "0 \<le> x" "x \<le> I" using age by (simp_all add: x_def I_def)
  have "s * x \<le> s * I" using s x by (intro mult_left_mono) auto
  also have "s * I \<le> D - P" using s(2) le_div [of I s "D - P"] by (simp add: s_def mult.commute)
  finally have u: "s * x \<le> D - P" .
  have l: "0 \<le> s * x" using s x by simp
  have line: "debt_line t age = D - s * x" by (simp add: debt_line_def s_def x_def D_def P_def I_def)
  show "gwei_to_wei (uint (permanent_debt_allowed_gwei t)) \<le> debt_line t age" using u line unfolding P_def [symmetric] by linarith
  show "debt_line t age \<le> gwei_to_wei (uint (debt_threshold_gwei t))" using l line unfolding D_def [symmetric] by linarith
  show "debt_line t age' < debt_line t age" if "age < age'"
  proof -
    have "s * x < s * (age' - uint (maturity_threshold_sec t))" using that s by (intro mult_strict_left_mono) (auto simp: x_def)
    then show ?thesis unfolding line by (simp add: debt_line_def s_def D_def P_def I_def)
  qed
qed

lemma debt_limit_run:
  assumes "check_payment_thresholds t = Inr ()" "threshold_interval_sec t \<noteq> 0"
    and sum: "uint (maturity_threshold_sec t) + uint (threshold_interval_sec t) < 2 ^ 64" and age: "maturity_threshold_sec t \<le> age"
  shows "calculate_finite_debt_limit_by_age t age =
    Some (if uint (maturity_threshold_sec t) + uint (threshold_interval_sec t) < uint age
      then gwei_to_wei (uint (permanent_debt_allowed_gwei t)) else debt_line t (uint age))"
proof -
  note c = checked_thresholds [OF assms(1,2)]
  have u: "uint (maturity_threshold_sec t + threshold_interval_sec t) = uint (maturity_threshold_sec t) + uint (threshold_interval_sec t)"
    using sum by (simp add: uint_plus_if')
  have q: "qualifies_for_permanent_debt_limit age t \<longleftrightarrow> uint (maturity_threshold_sec t) + uint (threshold_interval_sec t) < uint age"
    unfolding qualifies_for_permanent_debt_limit_def word_less_def u ..
  show ?thesis
  proof (cases "qualifies_for_permanent_debt_limit age t")
    case True
    then show ?thesis using q by (simp add: calculate_finite_debt_limit_by_age_def)
  next
    case False
    have "gwei_to_wei (uint (permanent_debt_allowed_gwei t)) \<le> debt_line t (uint age)"
      "debt_line t (uint age) \<le> gwei_to_wei (uint (debt_threshold_gwei t))"
      using debt_line_bounds(1,2) [OF assms(1,2), of "uint age"] False age q by (simp_all add: word_le_def)
    then have r: "0 \<le> debt_line t (uint age)" "debt_line t (uint age) < 2 ^ 94" using c(1,3) by linarith+
    then have "in_type I128 (debt_line t (uint age))" by (simp add: in_type_def)
    moreover have "wrap_u128 (debt_line t (uint age)) = debt_line t (uint age)" using r by (simp add: wrap_u128_def)
    ultimately show ?thesis using False q c(7)
      by (simp add: calculate_finite_debt_limit_by_age_def compute_theoretical_interception_with_y_axis_def wrap_i128_id debt_line_def algebra_simps)
  qed
qed

text \<open>
  C38. With thresholds that the configurator accepts, a positive interval, and times that do not overflow, the limit of a debt
  is computed without a panic for every age from maturity on, lies between the permanent debt that is allowed and the threshold of debt, and never
  grows with the age. Before the end of the interval it falls with every second.
\<close>

theorem debt_limit_falls_between_the_thresholds:
  assumes "check_payment_thresholds t = Inr ()" "threshold_interval_sec t \<noteq> 0"
    and "uint (maturity_threshold_sec t) + uint (threshold_interval_sec t) < 2 ^ 64"
    and "maturity_threshold_sec t \<le> age" "age < age'"
  shows "\<exists>limit limit'. calculate_finite_debt_limit_by_age t age = Some limit \<and> calculate_finite_debt_limit_by_age t age' = Some limit' \<and>
    gwei_to_wei (uint (permanent_debt_allowed_gwei t)) \<le> limit' \<and> limit' \<le> limit \<and> limit \<le> gwei_to_wei (uint (debt_threshold_gwei t)) \<and>
    (uint age' \<le> uint (maturity_threshold_sec t) + uint (threshold_interval_sec t) \<longrightarrow> limit' < limit)"
proof -
  note run = debt_limit_run [OF assms(1-3)] and c = checked_thresholds [OF assms(1,2)]
  have a: "uint (maturity_threshold_sec t) \<le> uint age" "uint age < uint age'" using assms(4,5) by (simp_all add: word_le_def word_less_def)
  note b = debt_line_bounds [OF assms(1,2)]
  show ?thesis
  proof (cases "uint (maturity_threshold_sec t) + uint (threshold_interval_sec t) < uint age'")
    case True
    then show ?thesis using run [OF assms(4)] run [of age'] assms(4,5) b(1,2) [of "uint age"] a c(1,2) by auto
  next
    case False
    then show ?thesis using run [OF assms(4)] run [of age'] assms(4,5) b(1,2) [of "uint age"] b(1,2) [of "uint age'"] b(3) [of "uint age" "uint age'"] a by auto
  qed
qed

theorem debt_limit_falls_between_the_thresholds_witness:
  "\<exists>limit limit'. calculate_finite_debt_limit_by_age \<lparr>debt_threshold_gwei = 1000000000, maturity_threshold_sec = 1200,
      payment_grace_period_sec = 1200, permanent_debt_allowed_gwei = 500000000, threshold_interval_sec = 21600,
      unban_below_gwei = 500000000\<rparr> 1300 = Some limit \<and>
    calculate_finite_debt_limit_by_age \<lparr>debt_threshold_gwei = 1000000000, maturity_threshold_sec = 1200,
      payment_grace_period_sec = 1200, permanent_debt_allowed_gwei = 500000000, threshold_interval_sec = 21600,
      unban_below_gwei = 500000000\<rparr> 1400 = Some limit' \<and> limit' < limit \<and> limit \<le> 10 ^ 18"
proof -
  let ?t = "\<lparr>debt_threshold_gwei = 1000000000, maturity_threshold_sec = 1200, payment_grace_period_sec = 1200,
    permanent_debt_allowed_gwei = 500000000, threshold_interval_sec = 21600, unban_below_gwei = 500000000\<rparr>"
  have "check_payment_thresholds ?t = Inr ()" "threshold_interval_sec ?t \<noteq> 0"
    "uint (maturity_threshold_sec ?t) + uint (threshold_interval_sec ?t) < 2 ^ 64" "maturity_threshold_sec ?t \<le> 1300"
    "(1300 :: u64) < 1400"
    by (simp_all add: check_payment_thresholds_def)
  from debt_limit_falls_between_the_thresholds [OF this] show ?thesis by (auto simp: gwei_to_wei_def WEIS_IN_GWEI_def)
qed

end
