(* ===== verification/Accounts.thy ===== *)
theory Accounts
  imports Big_Integers Cryptde
begin

text \<open>
  The accounts: the processor of big integers of \<^verbatim>\<open>accountant/db_big_integer/big_int_db_processor.rs\<close> and the data access
  objects of \<^verbatim>\<open>accountant/db_access_objects\<close> over the tables that \<^verbatim>\<open>database/db_initializer.rs\<close> creates. A table is the
  list of its rows, and a statement of SQL is what it does to that list; the columns of \<open>payable\<close> and \<open>receivable\<close>
  are strict, so a sum that leaves the 64 bits of a column makes the statement fail with the code that the processor waits for. That
  the database itself fails (a full disk, a corrupt file) is not modelled, and times are whole seconds.
\<close>

section \<open>Tables\<close>

type_synonym h256 = "256 word"

record receivable_row =
  rr_wallet_address :: address
  rr_balance_high_b :: int
  rr_balance_low_b :: int
  rr_last_received_timestamp :: int

record payable_row =
  py_wallet_address :: address
  py_balance_high_b :: int
  py_balance_low_b :: int
  py_last_paid_timestamp :: int
  py_pending_payable_rowid :: "int option"

record pending_payable_row =
  pp_rowid :: int
  pp_transaction_hash :: h256
  pp_amount_high_b :: int
  pp_amount_low_b :: int
  pp_payable_timestamp :: int
  pp_attempt :: int
  pp_process_error :: "string option"

text \<open>The cache of banned wallets is a static of \<^verbatim>\<open>banned_dao.rs\<close>, and the start block is a row of the table \<open>config\<close>.\<close>

record accounts =
  ac_receivable :: "receivable_row list"
  ac_payable :: "payable_row list"
  ac_pending_payable :: "pending_payable_row list"
  ac_banned :: "address list"
  ac_ban_cache :: "wallet fset"
  ac_start_block :: "u64 option"

definition to_time_t :: "int \<Rightarrow> int run" where
  "to_time_t system_time =
     (if system_time < 0 then panic
      else case sign_conversion I64 system_time of Inr t \<Rightarrow> ret t | Inl _ \<Rightarrow> panic)"

definition from_time_t :: "int \<Rightarrow> int" where
  "from_time_t time_t = time_t mod 2 ^ 64"

section \<open>The processor of big integers\<close>

datatype big_int_database_error = General | RowChangeMismatch nat

datatype wei_change_direction = Addition | Subtraction

definition wei_change_as_high_and_low_bytes :: "int \<Rightarrow> wei_change_direction \<Rightarrow> (int \<times> int) run" where
  "wei_change_as_high_and_low_bytes amount_to_change direction = do {
     size_checked_amount \<leftarrow> checked_conversion I128 amount_to_change;
     deconstruct (case direction of Addition \<Rightarrow> size_checked_amount | Subtraction \<Rightarrow> - size_checked_amount) }"

text \<open>
  A configured pair of statements: the rows that the key selects, the two columns, what the statements set in a row
  along with the columns, the row that the first one inserts when there is none with the key, and the change.
\<close>

record 'r big_int_sql_config =
  bi_key :: "'r \<Rightarrow> bool"
  bi_bytes :: "'r \<Rightarrow> int \<times> int"
  bi_set :: "int \<times> int \<Rightarrow> 'r \<Rightarrow> 'r"
  bi_insert :: "'r option"
  bi_change :: "int \<times> int"

definition sql_add :: "int \<Rightarrow> int \<Rightarrow> int option" where
  "sql_add x y = (if in_type I64 (x + y) then Some (x + y) else None)"

definition sql_update :: "'r big_int_sql_config \<Rightarrow> 'r \<Rightarrow> 'r option" where
  "sql_update config r = do {
     high \<leftarrow> sql_add (fst (bi_bytes config r)) (fst (bi_change config));
     low \<leftarrow> sql_add (snd (bi_bytes config r)) (snd (bi_change config));
     Some (bi_set config (high, low) r) }"

definition correct_bytes :: "int \<times> int \<Rightarrow> int \<times> int \<Rightarrow> int \<times> int" where
  "correct_bytes former requested_wei_change =
     (wrap_i64 (wrap_i64 (fst former + fst requested_wei_change) + 1),
      (snd former + snd requested_wei_change) AND 0x7FFFFFFFFFFFFFFF)"

definition update_with_overflow :: "'r big_int_sql_config \<Rightarrow> 'r list \<Rightarrow> ((big_int_database_error + unit) \<times> 'r list) run" where
  "update_with_overflow config rows =
     (case filter (bi_key config) rows of
        [] \<Rightarrow> ret (Inl General, rows)
      | r # others \<Rightarrow>
          if others \<noteq> [] then panic
          else ret (Inr (), map (\<lambda>r'. if bi_key config r'
            then bi_set config (correct_bytes (bi_bytes config r) (bi_change config)) r' else r') rows))"

definition execute :: "'r big_int_sql_config \<Rightarrow> 'r list \<Rightarrow> ((big_int_database_error + unit) \<times> 'r list) run" where
  "execute config rows =
     (let changed = filter (bi_key config) rows
      in if changed = [] then
           ret (case bi_insert config of
              Some r \<Rightarrow> (Inr (), rows @ [r])
            | None \<Rightarrow> (Inl (RowChangeMismatch 0), rows))
         else case those (map (\<lambda>r. if bi_key config r then sql_update config r else Some r) rows) of
            Some rows' \<Rightarrow> ret (if length changed = 1 then Inr () else Inl (RowChangeMismatch (length changed)), rows')
          | None \<Rightarrow> update_with_overflow config rows)"

section \<open>Receivables\<close>

record receivable_account =
  ra_wallet :: address
  ra_balance_wei :: int
  ra_last_received_timestamp :: int

record blockchain_transaction =
  bt_block_number :: u64
  bt_from :: wallet
  bt_wei_amount :: int

abbreviation receivable_config :: "address \<Rightarrow> (receivable_row \<Rightarrow> receivable_row) \<Rightarrow> receivable_row option \<Rightarrow> int \<times> int \<Rightarrow>
    receivable_row big_int_sql_config" where
  "receivable_config wallet other insertion change \<equiv> \<lparr>bi_key = (\<lambda>r. rr_wallet_address r = wallet),
     bi_bytes = (\<lambda>r. (rr_balance_high_b r, rr_balance_low_b r)),
     bi_set = (\<lambda>(high, low) r. other (r\<lparr>rr_balance_high_b := high, rr_balance_low_b := low\<rparr>)),
     bi_insert = insertion, bi_change = change\<rparr>"

definition more_money_receivable :: "int \<Rightarrow> address \<Rightarrow> int \<Rightarrow> accounts \<Rightarrow> ((big_int_database_error + unit) \<times> accounts) run" where
  "more_money_receivable timestamp wallet amount db = do {
     last_received_timestamp \<leftarrow> to_time_t timestamp;
     (high, low) \<leftarrow> wei_change_as_high_and_low_bytes amount Addition;
     (res, rows) \<leftarrow> execute (receivable_config wallet id
       (Some \<lparr>rr_wallet_address = wallet, rr_balance_high_b = high, rr_balance_low_b = low,
         rr_last_received_timestamp = last_received_timestamp\<rparr>) (high, low)) (ac_receivable db);
     ret (res, db\<lparr>ac_receivable := rows\<rparr>) }"

text \<open>One payment of \<open>process_received_payments_and_return_txn\<close>: money from an unknown wallet is only logged.\<close>

definition process_received_payment :: "wallet_ops \<Rightarrow> int \<Rightarrow> blockchain_transaction \<Rightarrow> receivable_row list \<Rightarrow> receivable_row list run" where
  "process_received_payment W timestamp received_payment rows = do {
     last_received_timestamp \<leftarrow> to_time_t timestamp;
     wallet \<leftarrow> wallet_address W (bt_from received_payment);
     (high, low) \<leftarrow> wei_change_as_high_and_low_bytes (bt_wei_amount received_payment) Subtraction;
     (res, rows1) \<leftarrow> execute (receivable_config wallet (rr_last_received_timestamp_update (\<lambda>_. last_received_timestamp)) None (high, low)) rows;
     (case res of
        Inr _ \<Rightarrow> ret rows1
      | Inl General \<Rightarrow> panic
      | Inl (RowChangeMismatch _) \<Rightarrow>
          if list_ex (\<lambda>r. rr_wallet_address r = wallet) rows1 then panic else ret rows1) }"

text \<open>The transaction of the database that is committed by the caller; an error in it is a panic.\<close>

definition more_money_received :: "wallet_ops \<Rightarrow> int \<Rightarrow> blockchain_transaction list \<Rightarrow> receivable_row list \<Rightarrow> receivable_row list run" where
  "more_money_received W timestamp received_payments rows =
     iter_each (process_received_payment W timestamp) received_payments rows"

definition create_receivable_account :: "receivable_row \<Rightarrow> receivable_account run" where
  "create_receivable_account r = do {
     balance \<leftarrow> reconstitute (rr_balance_high_b r) (rr_balance_low_b r);
     ret \<lparr>ra_wallet = rr_wallet_address r, ra_balance_wei = balance,
       ra_last_received_timestamp = from_time_t (rr_last_received_timestamp r)\<rparr> }"

text \<open>The condition of the statement that finds new delinquencies, from left to right. An error of a function in it is a panic.\<close>

definition is_delinquent_row :: "int \<Rightarrow> int \<Rightarrow> int \<Rightarrow> int \<Rightarrow> int \<Rightarrow> address list \<Rightarrow> receivable_row \<Rightarrow> bool run" where
  "is_delinquent_row debt_threshold slope_i64 sugg permanent_high permanent_low banned r =
     (if \<not> rr_last_received_timestamp r < sugg then ret False
      else case common_arg_distillation debt_threshold slope_i64 (sugg - rr_last_received_timestamp r) of
         Inl _ \<Rightarrow> panic
       | Inr limit \<Rightarrow> do {
           high \<leftarrow> deconstruct_high_bytes limit;
           let low = deconstruct_low_bytes limit;
           ret ((rr_balance_high_b r > high \<or> rr_balance_high_b r = high \<and> rr_balance_low_b r > low) \<and>
             (rr_balance_high_b r > permanent_high \<or> rr_balance_high_b r = 0 \<and> rr_balance_low_b r > permanent_low) \<and>
             rr_wallet_address r \<notin> set banned) })"

fun select_where :: "('r \<Rightarrow> bool run) \<Rightarrow> 'r list \<Rightarrow> 'r list run" where
  "select_where P [] = ret []"
| "select_where P (r # rs) = do {
     b \<leftarrow> P r;
     rs' \<leftarrow> select_where P rs;
     ret (if b then r # rs' else rs') }"

definition new_delinquencies :: "int \<Rightarrow> payment_thresholds \<Rightarrow> accounts \<Rightarrow> receivable_account list run" where
  "new_delinquencies now t db = do {
     m \<leftarrow> slope t;
     (permanent_high, permanent_low) \<leftarrow> deconstruct (gwei_to_wei (uint (permanent_debt_allowed_gwei t)));
     debt_threshold \<leftarrow> checked_conversion I64 (uint (debt_threshold_gwei t));
     time_t \<leftarrow> to_time_t now;
     sugg \<leftarrow> sugg_and_grace t time_t;
     rows \<leftarrow> select_where (is_delinquent_row debt_threshold (wrap_i64 m) sugg permanent_high permanent_low (ac_banned db)) (ac_receivable db);
     those (map create_receivable_account rows) }"

definition paid_delinquencies :: "payment_thresholds \<Rightarrow> accounts \<Rightarrow> receivable_account list run" where
  "paid_delinquencies t db = do {
     (unban_high, unban_low) \<leftarrow> deconstruct (uint (unban_below_gwei t) * WEIS_IN_GWEI);
     those (map create_receivable_account (filter (\<lambda>r. rr_wallet_address r \<in> set (ac_banned db) \<and>
       (rr_balance_high_b r < unban_high \<or> rr_balance_high_b r = unban_high \<and> rr_balance_low_b r \<le> unban_low)) (ac_receivable db))) }"

definition receivable_total :: "accounts \<Rightarrow> int run" where
  "receivable_total db = do {
     balances \<leftarrow> those (map (\<lambda>r. reconstitute (rr_balance_high_b r) (rr_balance_low_b r)) (ac_receivable db));
     ret (wrap_i128 (sum_list balances)) }"

section \<open>Payables\<close>

record pending_payable_id =
  pi_rowid :: u64
  pi_hash :: h256

record payable_account =
  pa_wallet :: address
  pa_balance_wei :: int
  pa_last_paid_timestamp :: int
  pa_pending_payable_opt :: "pending_payable_id option"

record pending_payable_fingerprint =
  fp_rowid :: u64
  fp_timestamp :: int
  fp_hash :: h256
  fp_attempt :: int
  fp_amount :: int
  fp_process_error :: "string option"

abbreviation payable_config :: "(payable_row \<Rightarrow> bool) \<Rightarrow> (payable_row \<Rightarrow> payable_row) \<Rightarrow> payable_row option \<Rightarrow> int \<times> int \<Rightarrow>
    payable_row big_int_sql_config" where
  "payable_config key other insertion change \<equiv> \<lparr>bi_key = key,
     bi_bytes = (\<lambda>r. (py_balance_high_b r, py_balance_low_b r)),
     bi_set = (\<lambda>(high, low) r. other (r\<lparr>py_balance_high_b := high, py_balance_low_b := low\<rparr>)),
     bi_insert = insertion, bi_change = change\<rparr>"

definition more_money_payable :: "int \<Rightarrow> address \<Rightarrow> int \<Rightarrow> accounts \<Rightarrow> ((big_int_database_error + unit) \<times> accounts) run" where
  "more_money_payable timestamp wallet amount db = do {
     last_paid_timestamp \<leftarrow> to_time_t timestamp;
     (high, low) \<leftarrow> wei_change_as_high_and_low_bytes amount Addition;
     (res, rows) \<leftarrow> execute (payable_config (\<lambda>r. py_wallet_address r = wallet) id
       (Some \<lparr>py_wallet_address = wallet, py_balance_high_b = high, py_balance_low_b = low,
         py_last_paid_timestamp = last_paid_timestamp, py_pending_payable_rowid = None\<rparr>) (high, low)) (ac_payable db);
     ret (res, db\<lparr>ac_payable := rows\<rparr>) }"

text \<open>
  The \<open>case\<close> expression takes the row id of the first pair with the wallet. Every row that is changed gets a row id, so the count of
  valid rows is the count of changed ones.
\<close>

definition mark_pending_payables_rowids :: "(address \<times> u64) list \<Rightarrow> accounts \<Rightarrow> accounts run" where
  "mark_pending_payables_rowids wallets_and_rowids db =
     (if wallets_and_rowids = [] then panic
      else let hit = (\<lambda>r. py_pending_payable_rowid r = None \<and> py_wallet_address r \<in> fst ` set wallets_and_rowids)
       in if length (filter hit (ac_payable db)) \<noteq> length wallets_and_rowids then panic
          else ret (db\<lparr>ac_payable := map (\<lambda>r. if hit r
            then r\<lparr>py_pending_payable_rowid := map_option uint (map_of wallets_and_rowids (py_wallet_address r))\<rparr> else r) (ac_payable db)\<rparr>))"

definition transaction_confirmed :: "pending_payable_fingerprint \<Rightarrow> accounts \<Rightarrow> ((big_int_database_error + unit) \<times> accounts) run" where
  "transaction_confirmed fingerprint db = do {
     i64_rowid \<leftarrow> checked_conversion I64 (uint (fp_rowid fingerprint));
     last_paid \<leftarrow> to_time_t (fp_timestamp fingerprint);
     change \<leftarrow> wei_change_as_high_and_low_bytes (fp_amount fingerprint) Subtraction;
     (res, rows) \<leftarrow> execute (payable_config (\<lambda>r. py_pending_payable_rowid r = Some i64_rowid)
       (\<lambda>r. r\<lparr>py_last_paid_timestamp := last_paid, py_pending_payable_rowid := None\<rparr>) None change) (ac_payable db);
     ret (res, db\<lparr>ac_payable := rows\<rparr>) }"

fun transactions_confirmed :: "pending_payable_fingerprint list \<Rightarrow> accounts \<Rightarrow> ((big_int_database_error + unit) \<times> accounts) run" where
  "transactions_confirmed [] db = ret (Inr (), db)"
| "transactions_confirmed (fp # fps) db = do {
     (res, db1) \<leftarrow> transaction_confirmed fp db;
     (case res of Inl e \<Rightarrow> ret (Inl e, db1) | Inr _ \<Rightarrow> transactions_confirmed fps db1) }"

definition payable_of_row :: "payable_row \<Rightarrow> payable_account run" where
  "payable_of_row r = do {
     n \<leftarrow> reconstitute (py_balance_high_b r) (py_balance_low_b r);
     balance \<leftarrow> checked_conversion U128 n;
     ret \<lparr>pa_wallet = py_wallet_address r, pa_balance_wei = balance, pa_last_paid_timestamp = from_time_t (py_last_paid_timestamp r),
       pa_pending_payable_opt = None\<rparr> }"

definition non_pending_payables :: "accounts \<Rightarrow> payable_account list run" where
  "non_pending_payables db = those (map payable_of_row (filter (\<lambda>r. py_pending_payable_rowid r = None) (ac_payable db)))"

definition payable_total :: "accounts \<Rightarrow> int run" where
  "payable_total db = do {
     balances \<leftarrow> those (map (\<lambda>r. do {
       n \<leftarrow> reconstitute (py_balance_high_b r) (py_balance_low_b r);
       if py_balance_high_b r < 0 then panic else ret n }) (ac_payable db));
     (case sign_conversion U128 (wrap_i128 (sum_list balances)) of Inr n \<Rightarrow> ret n | Inl _ \<Rightarrow> panic) }"

section \<open>Pending payables\<close>

record transaction_hashes =
  th_rowid_results :: "(u64 \<times> h256) list"
  th_no_rowid_results :: "h256 list"

record hash_and_amount =
  ha_hash :: h256
  ha_amount :: int

definition fingerprints_rowids :: "h256 list \<Rightarrow> accounts \<Rightarrow> transaction_hashes" where
  "fingerprints_rowids hashes db =
     (let found = filter (\<lambda>r. pp_transaction_hash r \<in> set hashes) (ac_pending_payable db)
      in \<lparr>th_rowid_results = map (\<lambda>r. (of_int (pp_rowid r), pp_transaction_hash r)) found,
        th_no_rowid_results = filter (\<lambda>h. h \<notin> pp_transaction_hash ` set found) hashes\<rparr>)"

definition fingerprint_of_row :: "pending_payable_row \<Rightarrow> pending_payable_fingerprint run" where
  "fingerprint_of_row r =
     (if pp_attempt r < 0 \<or> 2 ^ 16 \<le> pp_attempt r then panic else do {
        n \<leftarrow> reconstitute (pp_amount_high_b r) (pp_amount_low_b r);
        amount \<leftarrow> checked_conversion U128 n;
        ret \<lparr>fp_rowid = of_int (pp_rowid r), fp_timestamp = from_time_t (pp_payable_timestamp r), fp_hash = pp_transaction_hash r,
          fp_attempt = pp_attempt r, fp_amount = amount, fp_process_error = None\<rparr> })"

definition return_all_errorless_fingerprints :: "accounts \<Rightarrow> pending_payable_fingerprint list run" where
  "return_all_errorless_fingerprints db =
     those (map fingerprint_of_row (filter (\<lambda>r. pp_process_error r = None) (ac_pending_payable db)))"

text \<open>
  SQLite gives a new row the id after the greatest one. A hash that is there already, or twice in the input, violates the unique
  index and nothing is inserted. Without values the statement cannot be prepared.
\<close>

fun next_rowid :: "pending_payable_row list \<Rightarrow> int" where
  "next_rowid rows = foldr max (map pp_rowid rows) 0 + 1"

fun insert_rows :: "int \<Rightarrow> int \<Rightarrow> (h256 \<times> int \<times> int) list \<Rightarrow> pending_payable_row list" where
  "insert_rows rowid time_t [] = []"
| "insert_rows rowid time_t ((h, high, low) # values) =
     \<lparr>pp_rowid = rowid, pp_transaction_hash = h, pp_amount_high_b = high, pp_amount_low_b = low, pp_payable_timestamp = time_t,
       pp_attempt = 1, pp_process_error = None\<rparr> # insert_rows (rowid + 1) time_t values"

definition fingerprint_values :: "hash_and_amount \<Rightarrow> (h256 \<times> int \<times> int) run" where
  "fingerprint_values hash_and_amount = do {
     amount_checked \<leftarrow> checked_conversion I128 (ha_amount hash_and_amount);
     (high, low) \<leftarrow> deconstruct amount_checked;
     ret (ha_hash hash_and_amount, high, low) }"

datatype pending_payable_dao_error = InsertionFailed

definition insert_new_fingerprints ::
  "hash_and_amount list \<Rightarrow> int \<Rightarrow> accounts \<Rightarrow> ((pending_payable_dao_error + unit) \<times> accounts) run" where
  "insert_new_fingerprints hashes_and_amounts batch_wide_timestamp db = do {
     time_t \<leftarrow> to_time_t batch_wide_timestamp;
     values \<leftarrow> those (map fingerprint_values hashes_and_amounts);
     if values = [] then panic
     else if distinct (map ha_hash hashes_and_amounts) \<and>
       ha_hash ` set hashes_and_amounts \<inter> pp_transaction_hash ` set (ac_pending_payable db) = {}
     then ret (Inr (), db\<lparr>ac_pending_payable := ac_pending_payable db @
       insert_rows (next_rowid (ac_pending_payable db)) time_t values\<rparr>)
     else ret (Inl InsertionFailed, db) }"

text \<open>The three statements on the rows with given ids expect to change as many rows as there are ids.\<close>

definition change_fingerprints ::
  "(pending_payable_row \<Rightarrow> pending_payable_row option) \<Rightarrow> u64 list \<Rightarrow> accounts \<Rightarrow> accounts run" where
  "change_fingerprints f ids db =
     (let hit = (\<lambda>r. pp_rowid r \<in> uint ` set ids)
      in if length (filter hit (ac_pending_payable db)) \<noteq> length ids then panic
         else ret (db\<lparr>ac_pending_payable := List.map_filter (\<lambda>r. if hit r then f r else Some r) (ac_pending_payable db)\<rparr>))"

definition delete_fingerprints :: "u64 list \<Rightarrow> accounts \<Rightarrow> accounts run" where
  "delete_fingerprints ids db = change_fingerprints (\<lambda>_. None) ids db"

definition increment_scan_attempts :: "u64 list \<Rightarrow> accounts \<Rightarrow> accounts run" where
  "increment_scan_attempts ids db = change_fingerprints (\<lambda>r. Some (r\<lparr>pp_attempt := pp_attempt r + 1\<rparr>)) ids db"

definition mark_failures :: "u64 list \<Rightarrow> accounts \<Rightarrow> accounts run" where
  "mark_failures ids db = change_fingerprints (\<lambda>r. Some (r\<lparr>pp_process_error := Some ''ERROR''\<rparr>)) ids db"

section \<open>Banned wallets\<close>

definition ban_list :: "accounts \<Rightarrow> wallet list" where
  "ban_list db = map WalletAddress (ac_banned db)"

definition is_banned :: "address \<Rightarrow> accounts \<Rightarrow> bool" where
  "is_banned wallet db \<longleftrightarrow> WalletAddress wallet |\<in>| ac_ban_cache db"

definition ban :: "address \<Rightarrow> accounts \<Rightarrow> accounts" where
  "ban wallet db =
     (if is_banned wallet db then db
      else db\<lparr>ac_banned := (if wallet \<in> set (ac_banned db) then ac_banned db else ac_banned db @ [wallet]),
        ac_ban_cache := finsert (WalletAddress wallet) (ac_ban_cache db)\<rparr>)"

definition unban :: "address \<Rightarrow> accounts \<Rightarrow> accounts" where
  "unban wallet db =
     (if \<not> is_banned wallet db then db
      else db\<lparr>ac_banned := filter (\<lambda>w. w \<noteq> wallet) (ac_banned db),
        ac_ban_cache := ac_ban_cache db |-| {|WalletAddress wallet|}\<rparr>)"

definition load_ban_cache :: "accounts \<Rightarrow> accounts" where
  "load_ban_cache db = db\<lparr>ac_ban_cache := ac_ban_cache db |\<union>| fset_of_list (ban_list db)\<rparr>"

section \<open>The balance of a wallet\<close>

lemma those_map_eq: "(\<And>x. x \<in> set xs \<Longrightarrow> f x = Some (g x)) \<Longrightarrow> those (map f xs) = Some (map g xs)"
  by (induction xs) auto

lemma those_map_None: "x \<in> set xs \<Longrightarrow> f x = None \<Longrightarrow> those (map f xs) = None"
  by (induction xs) (auto split: option.splits)

lemma to_time_t_run: "0 \<le> ts \<Longrightarrow> ts < 2 ^ 63 \<Longrightarrow> to_time_t ts = Some ts"
  by (simp add: to_time_t_def sign_conversion_def in_type_def)

lemma wei_change_run:
  assumes "0 \<le> n" "n < 2 ^ 126"
  shows "wei_change_as_high_and_low_bytes n Addition = Some (n div 2 ^ 63, n mod 2 ^ 63)"
    "wei_change_as_high_and_low_bytes n Subtraction = Some (- n div 2 ^ 63, - n mod 2 ^ 63)"
proof -
  have t: "in_type I128 n" "in_type I128 (- n)" and s: "storable n" "storable (- n)"
    using assms by (simp_all add: in_type_def storable_def)
  then show "wei_change_as_high_and_low_bytes n Addition = Some (n div 2 ^ 63, n mod 2 ^ 63)"
    "wei_change_as_high_and_low_bytes n Subtraction = Some (- n div 2 ^ 63, - n mod 2 ^ 63)"
    by (simp_all add: wei_change_as_high_and_low_bytes_def checked_conversion_def sign_conversion_def deconstruct_run)
qed

definition wei_of :: "int \<times> int \<Rightarrow> int" where
  "wei_of columns = fst columns * 2 ^ 63 + snd columns"

definition columns_of :: "int \<Rightarrow> int \<times> int" where
  "columns_of n = (n div 2 ^ 63, n mod 2 ^ 63)"

lemma wei_of_columns_of [simp]: "wei_of (columns_of n) = n"
  using div_mult_mod_eq [of n "2 ^ 63"] by (simp add: wei_of_def columns_of_def)

lemma columns_of_ok: "storable n \<Longrightarrow> column_ok (fst (columns_of n)) (snd (columns_of n))"
  using deconstruct_SomeD(4) [of n "n div 2 ^ 63" "n mod 2 ^ 63"]
  by (simp add: columns_of_def deconstruct_run in_type_def storable_def)

lemma columns_of_sum:
  assumes "column_ok h l" "column_ok dh dl" "wei_of (h, l) + wei_of (dh, dl) = v"
  shows "columns_of v = (if l + dl < 2 ^ 63 then (h + dh, l + dl) else (h + dh + 1, l + dl - 2 ^ 63))"
proof -
  have b: "0 \<le> l" "l < 2 ^ 63" "0 \<le> dl" "dl < 2 ^ 63" using assms by (simp_all add: column_ok_def)
  have u: "v div 2 ^ 63 = q \<and> v mod 2 ^ 63 = r" if "v = q * 2 ^ 63 + r" "0 \<le> r" "r < 2 ^ 63" for q r :: int
    using that by (simp add: div_mult_self3 div_pos_pos_trivial)
  show ?thesis
  proof (cases "l + dl < 2 ^ 63")
    case True
    then show ?thesis using u [of "h + dh" "l + dl"] assms(3) b by (simp add: columns_of_def wei_of_def algebra_simps)
  next
    case False
    then show ?thesis using u [of "h + dh + 1" "l + dl - 2 ^ 63"] assms(3) b by (simp add: columns_of_def wei_of_def algebra_simps)
  qed
qed

lemma wrap_i64_add: "wrap_i64 (wrap_i64 x + y) = wrap_i64 (x + y)"
  by (simp add: wrap_i64_def mod_simps algebra_simps)

text \<open>Either both sums fit into their columns, or the low one does not and the corrected columns carry.\<close>

lemma new_columns:
  assumes c: "column_ok h l" "column_ok dh dl" "wei_of (h, l) + wei_of (dh, dl) = v" "storable v"
  shows "sql_add h dh = Some (fst (columns_of v)) \<and> sql_add l dl = Some (snd (columns_of v)) \<or>
    sql_add l dl = None \<and> correct_bytes (h, l) (dh, dl) = columns_of v"
proof -
  note s = columns_of_sum [OF c(1-3)]
  have ok: "in_type I64 (fst (columns_of v))" "0 \<le> snd (columns_of v)" "snd (columns_of v) < 2 ^ 63"
    using columns_of_ok [OF c(4)] by (simp_all add: column_ok_def)
  have b: "0 \<le> l" "l < 2 ^ 63" "0 \<le> dl" "dl < 2 ^ 63" using c by (simp_all add: column_ok_def)
  show ?thesis
  proof (cases "l + dl < 2 ^ 63")
    case True
    then show ?thesis using ok b by (simp add: s sql_add_def in_type_def)
  next
    case False
    have "correct_bytes (h, l) (dh, dl) = columns_of v"
    proof -
      have "wrap_i64 (h + dh + 1) = h + dh + 1" using ok(1) False by (simp add: s in_type_wrap_i64)
      moreover have "(l + dl) AND 0x7FFFFFFFFFFFFFFF = l + dl - 2 ^ 63"
      proof -
        have "(l + dl) AND 0x7FFFFFFFFFFFFFFF = take_bit 63 (l + dl)" by (simp add: take_bit_eq_mask mask_eq_exp_minus_1)
        also have "\<dots> = (l + dl - 2 ^ 63) mod 2 ^ 63" by (simp add: take_bit_eq_mod)
        also have "\<dots> = l + dl - 2 ^ 63" using False b by (intro mod_pos_pos_trivial) auto
        finally show ?thesis .
      qed
      ultimately show ?thesis using False by (simp add: s correct_bytes_def wrap_i64_add)
    qed
    moreover have "sql_add l dl = None" using False by (simp add: sql_add_def in_type_def)
    ultimately show ?thesis by simp
  qed
qed

lemma execute_hit:
  assumes one: "filter (bi_key c) rows = [r]" and cols: "column_ok (fst (bi_bytes c r)) (snd (bi_bytes c r))"
    "column_ok (fst (bi_change c)) (snd (bi_change c))" and v: "wei_of (bi_bytes c r) + wei_of (bi_change c) = v" "storable v"
  shows "execute c rows = Some (Inr (), map (\<lambda>r'. if bi_key c r' then bi_set c (columns_of v) r' else r') rows)"
proof -
  have "r \<in> set (filter (bi_key c) rows)" by (simp add: one)
  then have r: "r \<in> set rows" "bi_key c r" by simp_all
  have only: "x = r" if "x \<in> set rows" "bi_key c x" for x
  proof -
    have "x \<in> set (filter (bi_key c) rows)" using that by simp
    then show ?thesis by (simp add: one)
  qed
  have "wei_of (fst (bi_bytes c r), snd (bi_bytes c r)) + wei_of (fst (bi_change c), snd (bi_change c)) = v" using v(1) by simp
  from new_columns [OF cols this v(2)] show ?thesis
  proof (elim disjE conjE)
    assume a: "sql_add (fst (bi_bytes c r)) (fst (bi_change c)) = Some (fst (columns_of v))"
      "sql_add (snd (bi_bytes c r)) (snd (bi_change c)) = Some (snd (columns_of v))"
    have "those (map (\<lambda>r. if bi_key c r then sql_update c r else Some r) rows) =
      Some (map (\<lambda>r'. if bi_key c r' then bi_set c (columns_of v) r' else r') rows)"
    proof (rule those_map_eq)
      fix x
      assume "x \<in> set rows"
      moreover have "sql_update c r = Some (bi_set c (columns_of v) r)" by (simp add: sql_update_def a)
      ultimately show "(if bi_key c x then sql_update c x else Some x) = Some (if bi_key c x then bi_set c (columns_of v) x else x)"
        using only [of x] by (cases "bi_key c x") simp_all
    qed
    then show ?thesis by (simp add: execute_def one)
  next
    assume a: "sql_add (snd (bi_bytes c r)) (snd (bi_change c)) = None"
      "correct_bytes (fst (bi_bytes c r), snd (bi_bytes c r)) (fst (bi_change c), snd (bi_change c)) = columns_of v"
    have "those (map (\<lambda>r. if bi_key c r then sql_update c r else Some r) rows) = None"
    proof (rule those_map_None [of r])
      show "(if bi_key c r then sql_update c r else Some r) = None"
        using r(2) by (cases "sql_add (fst (bi_bytes c r)) (fst (bi_change c))") (simp_all add: sql_update_def a(1))
    qed (rule r(1))
    moreover have "correct_bytes (bi_bytes c r) (bi_change c) = columns_of v" using a(2) unfolding prod.collapse .
    ultimately show ?thesis unfolding execute_def update_with_overflow_def one Let_def
      by (simp only: list.case option.case list.simps if_False if_True refl simp_thms)
  qed
qed

text \<open>The book of a table: the balance of every wallet, zero for one without an account.\<close>

definition book :: "('r \<Rightarrow> address) \<Rightarrow> ('r \<Rightarrow> int \<times> int) \<Rightarrow> 'r list \<Rightarrow> address \<Rightarrow> int" where
  "book wallet columns rows w = (case filter (\<lambda>r. wallet r = w) rows of [] \<Rightarrow> 0 | r # _ \<Rightarrow> wei_of (columns r))"

definition table_ok :: "('r \<Rightarrow> address) \<Rightarrow> ('r \<Rightarrow> int \<times> int) \<Rightarrow> 'r list \<Rightarrow> bool" where
  "table_ok wallet columns rows \<longleftrightarrow> distinct (map wallet rows) \<and> (\<forall>r\<in>set rows. column_ok (fst (columns r)) (snd (columns r)))"

lemma filter_key_cases:
  assumes "distinct (map wallet rows)"
  obtains "filter (\<lambda>r. wallet r = w) rows = []" "w \<notin> wallet ` set rows"
    | r where "filter (\<lambda>r. wallet r = w) rows = [r]" "r \<in> set rows" "wallet r = w"
proof (cases "w \<in> wallet ` set rows")
  case True
  then obtain r where r: "r \<in> set rows" "wallet r = w" by auto
  have "filter (\<lambda>x. wallet x = wallet r) rows = [r]" if "distinct (map wallet rows)" "r \<in> set rows" for rows
    using that
  proof (induction rows)
    case (Cons x rows)
    show ?case
    proof (cases "x = r")
      case True
      then have "filter (\<lambda>x. wallet x = wallet r) rows = []" using Cons.prems(1) by (auto simp: filter_empty_conv image_iff)
      then show ?thesis using True by simp
    qed (use Cons in force)
  qed simp
  from this [OF assms r(1)] r that(2) show thesis by simp
next
  case False
  then have "filter (\<lambda>r. wallet r = w) rows = []" by (auto simp: filter_empty_conv)
  with False that(1) show thesis by simp
qed

lemma book_map:
  assumes "\<And>r. wallet (f r) = wallet r" "\<And>r. r \<in> set rows \<Longrightarrow> wallet r \<noteq> w \<Longrightarrow> columns (f r) = columns r"
    "filter (\<lambda>r. wallet r = w) rows = [r]" "wei_of (columns (f r)) = v"
  shows "book wallet columns (map f rows) = (book wallet columns rows)(w := v)"
proof
  fix x
  have "filter (\<lambda>r. wallet r = x) (map f rows) = map f (filter (\<lambda>r. wallet r = x) rows)"
    by (simp add: filter_map o_def assms(1))
  then show "book wallet columns (map f rows) x = ((book wallet columns rows)(w := v)) x"
    using assms(2-4) by (cases "filter (\<lambda>r. wallet r = x) rows") (auto simp: book_def dest: filter_eq_ConsD)
qed

lemma book_append: "w \<notin> wallet ` set rows \<Longrightarrow> wallet r = w \<Longrightarrow>
    book wallet columns (rows @ [r]) = (book wallet columns rows)(w := wei_of (columns r))"
  using filter_empty_conv [of "\<lambda>ra. wallet ra = w" rows]
  by (intro ext) (auto simp: book_def image_iff split: list.split)

lemma book_storable:
  assumes "table_ok wallet columns rows"
  shows "storable (book wallet columns rows w)"
proof -
  have "storable (wei_of (h, l))" if "column_ok h l" for h l
  proof -
    have b: "- (2 ^ 63) \<le> h" "h \<le> 2 ^ 63 - 1" "0 \<le> l" "l < 2 ^ 63" using that by (simp_all add: column_ok_def in_type_def)
    have "- (2 ^ 63) * 2 ^ 63 \<le> h * 2 ^ 63" "h * 2 ^ 63 \<le> (2 ^ 63 - 1) * 2 ^ 63" using b(1,2) by (intro mult_right_mono; simp)+
    then show ?thesis using b(3,4) by (simp add: storable_def wei_of_def)
  qed
  then have "storable (wei_of (columns r))" if "r \<in> set rows" for r
    using that assms by (metis table_ok_def prod.collapse)
  moreover have "storable 0" by (simp add: storable_def)
  ultimately show ?thesis by (auto simp: book_def split: list.split dest!: filter_eq_ConsD)
qed


text \<open>
  What the data access objects rely on: a table with a column for the wallet and two for the balance, and the
  configurations of their statements, which change the row of a wallet.
\<close>

locale account_table =
  fixes wallet :: "'r \<Rightarrow> address" and columns :: "'r \<Rightarrow> int \<times> int"
    and config :: "address \<Rightarrow> ('r \<Rightarrow> 'r) \<Rightarrow> 'r option \<Rightarrow> int \<times> int \<Rightarrow> 'r big_int_sql_config"
  assumes config_key: "bi_key (config w other insertion change) = (\<lambda>r. wallet r = w)"
    and config_bytes: "bi_bytes (config w other insertion change) = columns"
    and config_insert: "bi_insert (config w other insertion change) = insertion"
    and config_change: "bi_change (config w other insertion change) = change"
    and config_wallet: "\<forall>r. wallet (other r) = wallet r \<Longrightarrow> wallet (bi_set (config w other insertion change) p r) = wallet r"
    and config_columns: "\<forall>r. columns (other r) = columns r \<Longrightarrow> columns (bi_set (config w other insertion change) p r) = p"
begin

lemma change_present:
  assumes ok: "table_ok wallet columns rows" and "w \<in> wallet ` set rows"
    and other: "\<forall>r. wallet (other r) = wallet r" "\<forall>r. columns (other r) = columns r"
    and n: "storable n" "storable (book wallet columns rows w + n)"
  shows "\<exists>rows'. execute (config w other insertion (columns_of n)) rows = Some (Inr (), rows') \<and> table_ok wallet columns rows' \<and>
    wallet ` set rows' = wallet ` set rows \<and>
    book wallet columns rows' = (book wallet columns rows)(w := book wallet columns rows w + n)"
proof -
  define c where "c = config w other insertion (columns_of n)"
  define v where "v = book wallet columns rows w + n"
  define f where "f = (\<lambda>r'. if bi_key c r' then bi_set c (columns_of v) r' else r')"
  note config = config_key config_bytes config_change config_wallet [OF other(1)] config_columns [OF other(2)]
  have f: "wallet (f r) = wallet r" "columns (f r) = (if wallet r = w then columns_of v else columns r)" for r
    by (simp_all add: f_def c_def config)
  have "distinct (map wallet rows)" using ok by (simp add: table_ok_def)
  then obtain r where r: "filter (\<lambda>r. wallet r = w) rows = [r]" "r \<in> set rows" "wallet r = w"
    by (rule filter_key_cases [of _ _ w]) (use assms(2) in simp_all)
  have "v = wei_of (columns r) + n" by (simp add: v_def book_def r(1))
  then have "execute c rows = Some (Inr (), map f rows)"
    using ok r columns_of_ok [OF n(1)] n(2) unfolding f_def v_def [symmetric]
    by (intro execute_hit [of _ _ r]) (simp_all add: config c_def table_ok_def)
  moreover have "table_ok wallet columns (map f rows)"
    using ok columns_of_ok [OF n(2)] by (auto simp: table_ok_def f v_def o_def)
  moreover have "book wallet columns (map f rows) = (book wallet columns rows)(w := v)"
    using r by (intro book_map [of _ _ _ _ _ r]) (simp_all add: f)
  moreover have "wallet ` set (map f rows) = wallet ` set rows" by (simp add: image_image f)
  ultimately show ?thesis unfolding c_def v_def by blast
qed

lemma change_absent:
  assumes "w \<notin> wallet ` set rows"
  shows "execute (config w other insertion change) rows = Some (case insertion of
    Some r \<Rightarrow> (Inr (), rows @ [r]) | None \<Rightarrow> (Inl (RowChangeMismatch 0), rows))"
proof -
  have "filter (\<lambda>r. wallet r = w) rows = []" using assms by (auto simp: filter_empty_conv)
  then show ?thesis by (simp add: execute_def config_key config_insert split: option.split)
qed

lemma change_or_insert:
  assumes ok: "table_ok wallet columns rows" and ins: "wallet new = w" "columns new = columns_of n"
    and other: "\<forall>r. wallet (other r) = wallet r" "\<forall>r. columns (other r) = columns r"
    and n: "storable n" "storable (book wallet columns rows w + n)"
  shows "\<exists>rows'. execute (config w other (Some new) (columns_of n)) rows = Some (Inr (), rows') \<and> table_ok wallet columns rows' \<and>
    book wallet columns rows' = (book wallet columns rows)(w := book wallet columns rows w + n)"
proof (cases "w \<in> wallet ` set rows")
  case True
  then show ?thesis using change_present [OF ok True other n] by blast
next
  case False
  then have "book wallet columns rows w = 0" by (auto simp: book_def filter_empty_conv split: list.split dest: filter_eq_ConsD)
  moreover have "table_ok wallet columns (rows @ [new])" using ok False ins columns_of_ok [OF n(1)] by (auto simp: table_ok_def)
  ultimately show ?thesis using change_absent [OF False, of other "Some new"] book_append [OF False ins(1), of columns] ins by simp
qed

end

abbreviation rr_columns :: "receivable_row \<Rightarrow> int \<times> int" where
  "rr_columns r \<equiv> (rr_balance_high_b r, rr_balance_low_b r)"

abbreviation py_columns :: "payable_row \<Rightarrow> int \<times> int" where
  "py_columns r \<equiv> (py_balance_high_b r, py_balance_low_b r)"

interpretation receivables: account_table rr_wallet_address rr_columns receivable_config
  by unfold_locales auto

interpretation payables: account_table py_wallet_address py_columns "\<lambda>w. payable_config (\<lambda>r. py_wallet_address r = w)"
  by unfold_locales auto

abbreviation receivable_book :: "accounts \<Rightarrow> address \<Rightarrow> int" where
  "receivable_book db \<equiv> book rr_wallet_address rr_columns (ac_receivable db)"

abbreviation payable_book :: "accounts \<Rightarrow> address \<Rightarrow> int" where
  "payable_book db \<equiv> book py_wallet_address py_columns (ac_payable db)"

abbreviation receivables_ok :: "accounts \<Rightarrow> bool" where
  "receivables_ok db \<equiv> table_ok rr_wallet_address rr_columns (ac_receivable db)"

abbreviation payables_ok :: "accounts \<Rightarrow> bool" where
  "payables_ok db \<equiv> table_ok py_wallet_address py_columns (ac_payable db)"

lemma storable_nonneg: "0 \<le> n \<Longrightarrow> n < 2 ^ 126 \<Longrightarrow> storable n" "0 \<le> n \<Longrightarrow> n < 2 ^ 126 \<Longrightarrow> storable (- n)"
  by (simp_all add: storable_def)

lemma more_money_receivable_run:
  assumes "receivables_ok db" "0 \<le> ts" "ts < 2 ^ 63" "0 \<le> n" "n < 2 ^ 126" "receivable_book db w + n < 2 ^ 126"
  shows "\<exists>rows. more_money_receivable ts w n db = Some (Inr (), db\<lparr>ac_receivable := rows\<rparr>) \<and>
    table_ok rr_wallet_address rr_columns rows \<and>
    book rr_wallet_address rr_columns rows = (receivable_book db)(w := receivable_book db w + n)"
proof -
  have "storable (receivable_book db w + n)" using assms(4,6) book_storable [OF assms(1), of w] by (simp add: storable_def)
  from receivables.change_or_insert [OF assms(1) _ _ _ _ storable_nonneg(1) [OF assms(4,5)] this,
      of "\<lparr>rr_wallet_address = w, rr_balance_high_b = n div 2 ^ 63, rr_balance_low_b = n mod 2 ^ 63, rr_last_received_timestamp = ts\<rparr>" id]
  obtain rows where "execute (receivable_config w id (Some \<lparr>rr_wallet_address = w, rr_balance_high_b = n div 2 ^ 63,
      rr_balance_low_b = n mod 2 ^ 63, rr_last_received_timestamp = ts\<rparr>) (columns_of n)) (ac_receivable db) = Some (Inr (), rows)"
    "table_ok rr_wallet_address rr_columns rows"
    "book rr_wallet_address rr_columns rows = (receivable_book db)(w := receivable_book db w + n)"
    by (auto simp: columns_of_def)
  then show ?thesis using assms(2-5)
    by (intro exI [of _ rows]) (simp add: more_money_receivable_def to_time_t_run wei_change_run columns_of_def)
qed

lemma more_money_payable_run:
  assumes "payables_ok db" "0 \<le> ts" "ts < 2 ^ 63" "0 \<le> n" "n < 2 ^ 126" "payable_book db w + n < 2 ^ 126"
  shows "\<exists>rows. more_money_payable ts w n db = Some (Inr (), db\<lparr>ac_payable := rows\<rparr>) \<and>
    table_ok py_wallet_address py_columns rows \<and>
    book py_wallet_address py_columns rows = (payable_book db)(w := payable_book db w + n)"
proof -
  let ?new = "\<lparr>py_wallet_address = w, py_balance_high_b = n div 2 ^ 63, py_balance_low_b = n mod 2 ^ 63, py_last_paid_timestamp = ts,
    py_pending_payable_rowid = None\<rparr>"
  have "storable (payable_book db w + n)" using assms(4,6) book_storable [OF assms(1), of w] by (simp add: storable_def)
  from payables.change_or_insert [OF assms(1) _ _ _ _ storable_nonneg(1) [OF assms(4,5)] this, of ?new id]
  obtain rows where "execute (payable_config (\<lambda>r. py_wallet_address r = w) id (Some ?new) (columns_of n)) (ac_payable db) = Some (Inr (), rows)"
    "table_ok py_wallet_address py_columns rows"
    "book py_wallet_address py_columns rows = (payable_book db)(w := payable_book db w + n)"
    by (auto simp: columns_of_def)
  then show ?thesis using assms(2-5)
    by (intro exI [of _ rows]) (simp add: more_money_payable_def to_time_t_run wei_change_run columns_of_def)
qed

text \<open>A payment from a wallet without an account changes nothing.\<close>

lemma process_received_payment_run:
  assumes "table_ok rr_wallet_address rr_columns rows" "0 \<le> ts" "ts < 2 ^ 63" "0 \<le> n" "n < 2 ^ 126"
    and "wallet_address W (bt_from tx) = Some w" "bt_wei_amount tx = n" "- (2 ^ 126) \<le> book rr_wallet_address rr_columns rows w - n"
  shows "\<exists>rows'. process_received_payment W ts tx rows = Some rows' \<and> table_ok rr_wallet_address rr_columns rows' \<and>
    rr_wallet_address ` set rows' = rr_wallet_address ` set rows \<and>
    book rr_wallet_address rr_columns rows' = (if w \<in> rr_wallet_address ` set rows
      then (book rr_wallet_address rr_columns rows)(w := book rr_wallet_address rr_columns rows w - n)
      else book rr_wallet_address rr_columns rows)"
proof (cases "w \<in> rr_wallet_address ` set rows")
  case True
  have "storable (book rr_wallet_address rr_columns rows w + - n)" using assms(4,8) book_storable [OF assms(1), of w] by (simp add: storable_def)
  from receivables.change_present [OF assms(1) True _ _ storable_nonneg(2) [OF assms(4,5)] this,
      of "rr_last_received_timestamp_update (\<lambda>_. ts)" None]
  obtain rows' where "execute (receivable_config w (rr_last_received_timestamp_update (\<lambda>_. ts)) None (columns_of (- n))) rows =
      Some (Inr (), rows')" "table_ok rr_wallet_address rr_columns rows'" "rr_wallet_address ` set rows' = rr_wallet_address ` set rows"
    "book rr_wallet_address rr_columns rows' = (book rr_wallet_address rr_columns rows)(w := book rr_wallet_address rr_columns rows w - n)"
    by auto
  then show ?thesis using assms(2-7) True
    by (simp add: process_received_payment_def to_time_t_run wei_change_run columns_of_def)
next
  case False
  then have "\<not> list_ex (\<lambda>r. rr_wallet_address r = w) rows" by (auto simp: list_ex_iff)
  then show ?thesis using assms(1-7) False receivables.change_absent [OF False]
    by (simp add: process_received_payment_def to_time_t_run wei_change_run)
qed

section \<open>Delinquencies\<close>

lemma select_where_run: "(\<And>r. r \<in> set rs \<Longrightarrow> P r = Some (Q r)) \<Longrightarrow> select_where P rs = Some (filter Q rs)"
  by (induction rs) auto

lemma columns_le:
  assumes "column_ok h l" "column_ok h' l'"
  shows "h * 2 ^ 63 + l \<le> h' * 2 ^ 63 + l' \<longleftrightarrow> h < h' \<or> h = h' \<and> l \<le> l'"
  using columns_less [OF assms(2,1)] by (auto simp: not_less [symmetric])

text \<open>Who is delinquent, in exact arithmetic: the grace period is taken off the age of the debt.\<close>

definition delinquent :: "int \<Rightarrow> payment_thresholds \<Rightarrow> accounts \<Rightarrow> receivable_row \<Rightarrow> bool" where
  "delinquent now t db r \<longleftrightarrow>
     (let age = now - rr_last_received_timestamp r - uint (payment_grace_period_sec t)
      in uint (maturity_threshold_sec t) < age \<and> debt_line t age < wei_of (rr_columns r) \<and>
         gwei_to_wei (uint (permanent_debt_allowed_gwei t)) < wei_of (rr_columns r) \<and> rr_wallet_address r \<notin> set (ac_banned db))"

definition receivable_of_row :: "receivable_row \<Rightarrow> receivable_account" where
  "receivable_of_row r = \<lparr>ra_wallet = rr_wallet_address r, ra_balance_wei = wei_of (rr_columns r),
     ra_last_received_timestamp = rr_last_received_timestamp r\<rparr>"

lemma line_storable:
  assumes D: "0 \<le> D" "D < 2 ^ 94" and m: "1 \<le> s" "s \<le> 2 ^ 63" and x: "0 < x" "x < 2 ^ 63"
  shows "storable (D - s * x)"
proof -
  have "s * x \<le> 2 ^ 63 * x" using m x by (intro mult_right_mono) auto
  also have "\<dots> \<le> 2 ^ 63 * 2 ^ 63" using x by (intro mult_left_mono) auto
  finally have "s * x \<le> 2 ^ 63 * 2 ^ 63" .
  moreover have "0 \<le> s * x" using m x by simp
  ultimately show ?thesis using D by (simp add: storable_def)
qed

lemma high_bytes_run: "storable n \<Longrightarrow> deconstruct_high_bytes n = Some (fst (columns_of n))" "deconstruct_low_bytes n = snd (columns_of n)"
proof -
  assume s: "storable n"
  then have "in_type I128 n" by (simp add: in_type_def storable_def)
  from deconstruct_run [OF this] s show "deconstruct_high_bytes n = Some (fst (columns_of n))"
    by (cases "deconstruct_high_bytes n") (simp_all add: deconstruct_def columns_of_def)
qed (simp add: low_bytes_eq columns_of_def)

lemma columns_gt:
  assumes "storable n" "column_ok h l"
  shows "(h > fst (columns_of n) \<or> h = fst (columns_of n) \<and> l > snd (columns_of n)) \<longleftrightarrow> n < wei_of (h, l)"
  using columns_less [OF columns_of_ok [OF assms(1)] assms(2)] wei_of_columns_of [of n] unfolding wei_of_def by auto

lemma checked_u64: "uint (x :: u64) < 2 ^ 63 \<Longrightarrow> checked_conversion I64 (uint x) = Some (uint x)"
proof -
  assume "uint x < 2 ^ 63"
  then have "in_type I64 (uint x)"
    using unsigned_greater_eq [of x, where ?'a = int] unfolding in_type_def type_min.simps type_max.simps by linarith
  then show ?thesis by (simp add: checked_conversion_def sign_conversion_def)
qed

text \<open>Thresholds with which nothing in the search for delinquencies leaves its type.\<close>

definition thresholds_fit :: "payment_thresholds \<Rightarrow> bool" where
  "thresholds_fit t \<longleftrightarrow> check_payment_thresholds t = Inr () \<and> threshold_interval_sec t \<noteq> 0 \<and> uint (debt_threshold_gwei t) < 2 ^ 63 \<and>
     (gwei_to_wei (uint (debt_threshold_gwei t)) - gwei_to_wei (uint (permanent_debt_allowed_gwei t))) div uint (threshold_interval_sec t) < 2 ^ 63 \<and>
     uint (maturity_threshold_sec t) + uint (payment_grace_period_sec t) < 2 ^ 63"

lemma delinquent_row_run:
  assumes fit: "thresholds_fit t" and P: "gwei_to_wei (uint (permanent_debt_allowed_gwei t)) < 2 ^ 63" and now: "now < 2 ^ 63"
    and r: "0 \<le> rr_last_received_timestamp r" "column_ok (rr_balance_high_b r) (rr_balance_low_b r)"
  defines "s \<equiv> (gwei_to_wei (uint (debt_threshold_gwei t)) - gwei_to_wei (uint (permanent_debt_allowed_gwei t))) div uint (threshold_interval_sec t)"
    and "sugg \<equiv> now - uint (maturity_threshold_sec t) - uint (payment_grace_period_sec t)"
  shows "is_delinquent_row (uint (debt_threshold_gwei t)) (- s) sugg 0 (gwei_to_wei (uint (permanent_debt_allowed_gwei t))) (ac_banned db) r =
    Some (delinquent now t db r)"
proof (cases "rr_last_received_timestamp r < sugg")
  case False
  then show ?thesis by (simp add: is_delinquent_row_def delinquent_def sugg_def Let_def)
next
  case True
  let ?x = "sugg - rr_last_received_timestamp r" and ?P = "gwei_to_wei (uint (permanent_debt_allowed_gwei t))"
  let ?line = "gwei_to_wei (uint (debt_threshold_gwei t)) - s * ?x"
  note c = checked_thresholds [of t]
  have fit': "check_payment_thresholds t = Inr ()" "threshold_interval_sec t \<noteq> 0" "s < 2 ^ 63" using fit by (simp_all add: thresholds_fit_def s_def)
  have s: "1 \<le> s" using c(6) [OF fit'(1,2)] by (simp add: s_def)
  have x: "0 < ?x" "?x < 2 ^ 63" using True now r(1) by (simp_all add: sugg_def)
      (use unsigned_greater_eq [of "maturity_threshold_sec t", where ?'a = int] unsigned_greater_eq [of "payment_grace_period_sec t", where ?'a = int] in linarith)
  have st: "storable ?line" using c(1-3) [OF fit'(1,2)] s fit'(3) x by (intro line_storable) simp_all
  have line: "?line = debt_line t (now - rr_last_received_timestamp r - uint (payment_grace_period_sec t))"
    by (simp add: debt_line_def s_def sugg_def algebra_simps)
  have P0: "storable ?P" "columns_of ?P = (0, ?P)" using P c(1) [OF fit'(1,2)] by (simp_all add: storable_def columns_of_def)
  have "common_arg_distillation (uint (debt_threshold_gwei t)) (- s) ?x = Inr ?line" using s x by (simp add: common_arg_distillation_def)
  then have "is_delinquent_row (uint (debt_threshold_gwei t)) (- s) sugg 0 ?P (ac_banned db) r =
      Some (?line < wei_of (rr_columns r) \<and> ?P < wei_of (rr_columns r) \<and> rr_wallet_address r \<notin> set (ac_banned db))"
    using True columns_gt [OF st r(2)] columns_gt [OF P0(1) r(2)] unfolding P0(2)
    by (simp add: is_delinquent_row_def high_bytes_run(1) [OF st] high_bytes_run(2))
  then show ?thesis unfolding line using x(1) by (simp add: delinquent_def sugg_def Let_def)
qed

lemma new_delinquencies_run:
  assumes "thresholds_fit t" "gwei_to_wei (uint (permanent_debt_allowed_gwei t)) < 2 ^ 63" "0 \<le> now" "now < 2 ^ 63"
    and "receivables_ok db" "\<forall>r\<in>set (ac_receivable db). 0 \<le> rr_last_received_timestamp r"
  shows "new_delinquencies now t db = Some (map receivable_of_row (filter (delinquent now t db) (ac_receivable db)))"
proof -
  define s where "s = (gwei_to_wei (uint (debt_threshold_gwei t)) - gwei_to_wei (uint (permanent_debt_allowed_gwei t))) div uint (threshold_interval_sec t)"
  define sugg where "sugg = now - uint (maturity_threshold_sec t) - uint (payment_grace_period_sec t)"
  let ?P = "gwei_to_wei (uint (permanent_debt_allowed_gwei t))"
  have fit: "check_payment_thresholds t = Inr ()" "threshold_interval_sec t \<noteq> 0" "s < 2 ^ 63" "uint (debt_threshold_gwei t) < 2 ^ 63"
    "uint (maturity_threshold_sec t) + uint (payment_grace_period_sec t) < 2 ^ 63" using assms(1) by (simp_all add: thresholds_fit_def s_def)
  note c = checked_thresholds [OF fit(1,2)]
  have slope: "slope t = Some (- s)" "wrap_i64 (- s) = - s" using c(6,7) fit(3) by (simp_all add: s_def in_type_wrap_i64 in_type_def)
  have P: "deconstruct ?P = Some (0, ?P)" using c(1) assms(2) by (subst deconstruct_run) (simp_all add: in_type_def storable_def)
  have pos: "0 \<le> uint (maturity_threshold_sec t)" "0 \<le> uint (payment_grace_period_sec t)" "0 \<le> uint (debt_threshold_gwei t)" by simp_all
  have D: "checked_conversion I64 (uint (debt_threshold_gwei t)) = Some (uint (debt_threshold_gwei t))"
    using fit(4) by (rule checked_u64)
  have sg: "sugg_and_grace t now = Some sugg"
  proof -
    have "uint (maturity_threshold_sec t) < 2 ^ 63" "uint (payment_grace_period_sec t) < 2 ^ 63" using fit(5) pos by linarith+
    moreover have "in_type I64 (now - uint (maturity_threshold_sec t))" "in_type I64 sugg"
      using fit(5) assms(3,4) pos unfolding sugg_def in_type_def type_min.simps type_max.simps by linarith+
    ultimately show ?thesis by (simp add: sugg_and_grace_def checked_u64 in_type_wrap_i64 sugg_def)
  qed
  have cols: "column_ok (rr_balance_high_b r) (rr_balance_low_b r)" if "r \<in> set (ac_receivable db)" for r
    using that assms(5) by (simp add: table_ok_def)
  have sel: "select_where (is_delinquent_row (uint (debt_threshold_gwei t)) (- s) sugg 0 ?P (ac_banned db)) (ac_receivable db) =
      Some (filter (delinquent now t db) (ac_receivable db))"
    using delinquent_row_run [OF assms(1,2,4)] assms(6) cols by (intro select_where_run) (simp add: s_def sugg_def)
  have acc: "create_receivable_account r = Some (receivable_of_row r)" if "r \<in> set (filter (delinquent now t db) (ac_receivable db))" for r
  proof -
    have "uint (maturity_threshold_sec t) < now - rr_last_received_timestamp r - uint (payment_grace_period_sec t)"
      using that by (simp add: delinquent_def Let_def)
    then have "rr_last_received_timestamp r < 2 ^ 63" using assms(4) pos by linarith
    then have "rr_last_received_timestamp r < 2 ^ 64" by simp
    then have "from_time_t (rr_last_received_timestamp r) = rr_last_received_timestamp r" using that assms(6) by (simp add: from_time_t_def)
    then show ?thesis using cols [of r] that by (simp add: create_receivable_account_def reconstitute_run receivable_of_row_def wei_of_def)
  qed
  have "to_time_t now = Some now" using assms(3,4) by (rule to_time_t_run)
  moreover have "those (map create_receivable_account (filter (delinquent now t db) (ac_receivable db))) =
      Some (map receivable_of_row (filter (delinquent now t db) (ac_receivable db)))" by (rule those_map_eq) (rule acc)
  ultimately show ?thesis by (simp add: new_delinquencies_def slope P D sg sel)
qed


lemma new_delinquencies_panic:
  assumes "threshold_interval_sec t = 0 \<or> 2 ^ 63 \<le> uint (debt_threshold_gwei t)"
  shows "new_delinquencies now t db = None"
proof -
  have "checked_conversion I64 (uint (debt_threshold_gwei t)) = None" if "2 ^ 63 \<le> uint (debt_threshold_gwei t)"
    using that by (simp add: checked_conversion_def sign_conversion_def in_type_def)
  then show ?thesis using assms
    by (cases "slope t"; cases "deconstruct (gwei_to_wei (uint (permanent_debt_allowed_gwei t)))")
      (auto simp: new_delinquencies_def slope_def split: if_splits)
qed

definition reformed :: "payment_thresholds \<Rightarrow> accounts \<Rightarrow> receivable_row \<Rightarrow> bool" where
  "reformed t db r \<longleftrightarrow> rr_wallet_address r \<in> set (ac_banned db) \<and> wei_of (rr_columns r) \<le> gwei_to_wei (uint (unban_below_gwei t))"

lemma paid_delinquencies_run:
  assumes "receivables_ok db" "\<forall>r\<in>set (ac_receivable db). 0 \<le> rr_last_received_timestamp r \<and> rr_last_received_timestamp r < 2 ^ 63"
  shows "paid_delinquencies t db = Some (map receivable_of_row (filter (reformed t db) (ac_receivable db)))"
proof -
  let ?U = "gwei_to_wei (uint (unban_below_gwei t))"
  have "uint (unban_below_gwei t) < 2 ^ 64" using unsigned_less [of "unban_below_gwei t", where ?'a = int] by simp
  then have "?U < 2 ^ 94" "0 \<le> ?U" by (simp_all add: gwei_to_wei_def WEIS_IN_GWEI_def)
  then have U: "storable ?U" "in_type I128 ?U" by (simp_all add: storable_def in_type_def)
  have cols: "column_ok (rr_balance_high_b r) (rr_balance_low_b r)" if "r \<in> set (ac_receivable db)" for r
    using that assms(1) by (simp add: table_ok_def)
  have sel: "filter (\<lambda>r. rr_wallet_address r \<in> set (ac_banned db) \<and> (rr_balance_high_b r < fst (columns_of ?U) \<or>
      rr_balance_high_b r = fst (columns_of ?U) \<and> rr_balance_low_b r \<le> snd (columns_of ?U))) (ac_receivable db) =
    filter (reformed t db) (ac_receivable db)"
    using columns_le [OF cols columns_of_ok [OF U(1)]] wei_of_columns_of [of ?U] unfolding wei_of_def fst_conv snd_conv
    by (intro filter_cong) (auto simp: reformed_def wei_of_def)
  have "those (map create_receivable_account (filter (reformed t db) (ac_receivable db))) =
      Some (map receivable_of_row (filter (reformed t db) (ac_receivable db)))"
    using assms(2) cols by (intro those_map_eq)
      (auto simp: create_receivable_account_def reconstitute_run receivable_of_row_def wei_of_def from_time_t_def)
  then show ?thesis using sel deconstruct_run [OF U(2)] U(1)
    by (simp add: paid_delinquencies_def columns_of_def gwei_to_wei_def)
qed



end
