(* ===== verification/Accountant.thy ===== *)
theory Accountant
  imports Accounts Hopper
begin

text \<open>
  The actor that keeps the books: \<^verbatim>\<open>node/src/accountant/mod.rs\<close> with the scanners of
  \<^verbatim>\<open>accountant/scanners/mod.rs\<close> and \<^verbatim>\<open>scanners_utils.rs\<close>. Every handler takes the time that the clock shows when the message is
  handled. Messages to other actors, to the actor itself and to the scheduler are returned in the order in which they are
  sent. The payables that travel obfuscated through the blockchain bridge are carried as they are, and
  the agent of the bridge is opaque. The ages that are only computed for the log are left out, and so are the queries of the
  financials command and the crash command of the tests.
\<close>

section \<open>State and messages\<close>

datatype scan_type = Payables | PendingPayables | Receivables

record response_skeleton =
  rsk_client_id :: u64
  rsk_context_id :: u64

record financial_statistics =
  total_paid_payable_wei :: int
  total_paid_receivable_wei :: int

text \<open>The three scanners share the books and the thresholds; each has the time of the scan that is running.\<close>

record accountant =
  at_suppress_initial_scans :: bool
  at_consuming_wallet_opt :: "wallet option"
  at_earning_wallet :: wallet
  at_db :: accounts
  at_payment_thresholds :: payment_thresholds
  at_payable_initiated_at_opt :: "int option"
  at_pending_payable_initiated_at_opt :: "int option"
  at_receivable_initiated_at_opt :: "int option"
  at_financial_statistics :: financial_statistics
  at_bound :: bool

record pending_payable =
  pe_recipient_wallet :: wallet
  pe_hash :: h256

datatype processed_payable_fallible = Correct pending_payable | FailedPayable wallet h256

datatype payable_transaction_error =
    MissingConsumingWallet
  | GasPriceQueryFailed
  | TransactionID
  | UnusableWallet
  | Signing
  | Sending "h256 list"
  | UninitializedBlockchainInterface

datatype payable_transacting_error = LocallyCausedError payable_transaction_error | RemotelyCausedErrors "h256 list"

datatype tx_status = TxFailed | TxPending | TxSucceeded

datatype transaction_receipt_result = RpcResponse tx_status | LocalError

datatype block_marker = BlockUninitialized | BlockValue u64

record routing_service_consumed =
  rsc_earning_wallet :: wallet
  rsc_service_rate :: u64
  rsc_byte_rate :: u64

record exit_service_consumed =
  esc_earning_wallet :: wallet
  esc_payload_size :: nat
  esc_service_rate :: u64
  esc_byte_rate :: u64

datatype acc_ui_body = UiScanResponse u64 | UiScanError u64 scan_type

datatype 'g accountant_output =
    QualifiedPayables "payable_account list" wallet "response_skeleton option"
  | RequestTransactionReceipts "pending_payable_fingerprint list" "response_skeleton option"
  | RetrieveTransactions wallet "response_skeleton option"
  | OutboundPaymentsInstructions "payable_account list" 'g "response_skeleton option"
  | AccToUi u64 acc_ui_body
  | NotifySelf scan_type
  | ScheduleScan scan_type

datatype begin_scan_error = NothingToProcess | NoConsumingWalletFound | ScanAlreadyRunning int

section \<open>Recording services\<close>

definition our_wallet :: "wallet_ops \<Rightarrow> accountant \<Rightarrow> wallet \<Rightarrow> bool run" where
  "our_wallet W a wallet = do {
     consumed \<leftarrow> (case at_consuming_wallet_opt a of
        None \<Rightarrow> ret False
      | Some consuming \<Rightarrow> do {
          c \<leftarrow> wallet_address W consuming;
          w \<leftarrow> wallet_address W wallet;
          ret (c = w) });
     if consumed then ret True
     else do {
       w \<leftarrow> wallet_address W wallet;
       e \<leftarrow> wallet_address W (at_earning_wallet a);
       ret (w = e) } }"

definition total_charge :: "u64 \<Rightarrow> u64 \<Rightarrow> nat \<Rightarrow> int" where
  "total_charge service_rate byte_rate payload_size = wrap_u128 (uint service_rate + wrap_u128 (uint byte_rate * int payload_size))"

text \<open>
  The error that is only logged, an overflow of the amount, is never given by the data access objects, which panic on
  it; every error that they do give is a panic here.
\<close>

definition record_service_provided ::
  "wallet_ops \<Rightarrow> u64 \<Rightarrow> u64 \<Rightarrow> int \<Rightarrow> nat \<Rightarrow> wallet \<Rightarrow> accountant \<Rightarrow> accountant run" where
  "record_service_provided W service_rate byte_rate timestamp payload_size wallet a = do {
     ours \<leftarrow> our_wallet W a wallet;
     if ours then ret a
     else do {
       address \<leftarrow> wallet_address W wallet;
       (res, db) \<leftarrow> more_money_receivable timestamp address (total_charge service_rate byte_rate payload_size) (at_db a);
       (case res of Inr _ \<Rightarrow> ret (a\<lparr>at_db := db\<rparr>) | Inl _ \<Rightarrow> panic) } }"

definition record_service_consumed ::
  "wallet_ops \<Rightarrow> u64 \<Rightarrow> u64 \<Rightarrow> int \<Rightarrow> nat \<Rightarrow> wallet \<Rightarrow> accountant \<Rightarrow> accountant run" where
  "record_service_consumed W service_rate byte_rate timestamp payload_size wallet a = do {
     ours \<leftarrow> our_wallet W a wallet;
     if ours then ret a
     else do {
       address \<leftarrow> wallet_address W wallet;
       (res, db) \<leftarrow> more_money_payable timestamp address (total_charge service_rate byte_rate payload_size) (at_db a);
       (case res of Inr _ \<Rightarrow> ret (a\<lparr>at_db := db\<rparr>) | Inl _ \<Rightarrow> panic) } }"

text \<open>The reports of the two kinds of service have the same fields and are handled alike.\<close>

definition handle_report_service_provided ::
  "wallet_ops \<Rightarrow> report_routing_service_provided \<Rightarrow> accountant \<Rightarrow> accountant run" where
  "handle_report_service_provided W msg a =
     record_service_provided W (rrs_service_rate msg) (rrs_byte_rate msg) (rrs_timestamp msg) (rrs_payload_size msg) (rrs_paying_wallet msg) a"

definition handle_report_services_consumed ::
  "wallet_ops \<Rightarrow> int \<Rightarrow> exit_service_consumed \<Rightarrow> nat \<Rightarrow> routing_service_consumed list \<Rightarrow> accountant \<Rightarrow> accountant run" where
  "handle_report_services_consumed W timestamp exit routing_payload_size routing a = do {
     a1 \<leftarrow> record_service_consumed W (esc_service_rate exit) (esc_byte_rate exit) timestamp (esc_payload_size exit) (esc_earning_wallet exit) a;
     iter_each (\<lambda>routing_service a'. record_service_consumed W (rsc_service_rate routing_service) (rsc_byte_rate routing_service) timestamp
       routing_payload_size (rsc_earning_wallet routing_service) a') routing a1 }"

section \<open>The scan for payables\<close>

text \<open>\<open>signal_scanner_completion\<close>: the clock must not have gone back since the scan began.\<close>

definition signal_scanner_completion :: "int \<Rightarrow> int option \<Rightarrow> unit run" where
  "signal_scanner_completion now initiated_at_opt =
     (case initiated_at_opt of None \<Rightarrow> ret () | Some timestamp \<Rightarrow> if now < timestamp then panic else ret ())"

definition is_innocent_age :: "u64 \<Rightarrow> u64 \<Rightarrow> bool" where
  "is_innocent_age age limit \<longleftrightarrow> age \<le> limit"

definition is_innocent_balance :: "int \<Rightarrow> int \<Rightarrow> bool" where
  "is_innocent_balance balance limit \<longleftrightarrow> balance \<le> limit"

definition payable_exceeded_threshold :: "payment_thresholds \<Rightarrow> payable_account \<Rightarrow> int \<Rightarrow> int option run" where
  "payable_exceeded_threshold t payable now =
     (if now < pa_last_paid_timestamp payable then panic
      else let debt_age = of_int (now - pa_last_paid_timestamp payable) :: u64
       in if is_innocent_age debt_age (maturity_threshold_sec t) then ret None
          else if is_innocent_balance (pa_balance_wei payable) (gwei_to_wei (uint (permanent_debt_allowed_gwei t))) then ret None
          else do {
            threshold \<leftarrow> calculate_finite_debt_limit_by_age t debt_age;
            ret (if pa_balance_wei payable > threshold then Some threshold else None) })"

definition sniff_out_alarming_payables :: "payment_thresholds \<Rightarrow> int \<Rightarrow> payable_account list \<Rightarrow> payable_account list run" where
  "sniff_out_alarming_payables t now payables =
     select_where (\<lambda>p. do { threshold_opt \<leftarrow> payable_exceeded_threshold t p now; ret (threshold_opt \<noteq> None) }) payables"

definition begin_payable_scan ::
  "wallet \<Rightarrow> int \<Rightarrow> response_skeleton option \<Rightarrow> accountant \<Rightarrow> ((begin_scan_error + 'g accountant_output) \<times> accountant) run" where
  "begin_payable_scan consuming_wallet now response_skeleton_opt a =
     (case at_payable_initiated_at_opt a of
        Some timestamp \<Rightarrow> ret (Inl (ScanAlreadyRunning timestamp), a)
      | None \<Rightarrow> do {
          all_non_pending_payables \<leftarrow> non_pending_payables (at_db a);
          qualified_payables \<leftarrow> sniff_out_alarming_payables (at_payment_thresholds a) now all_non_pending_payables;
          if qualified_payables = [] then do {
            _ \<leftarrow> signal_scanner_completion now (Some now);
            ret (Inl NothingToProcess, a\<lparr>at_payable_initiated_at_opt := None\<rparr>) }
          else ret (Inr (QualifiedPayables qualified_payables consuming_wallet response_skeleton_opt),
            a\<lparr>at_payable_initiated_at_opt := Some now\<rparr>) })"

definition add_rpc_result ::
  "processed_payable_fallible \<Rightarrow> pending_payable list \<times> h256 list \<Rightarrow> pending_payable list \<times> h256 list" where
  "add_rpc_result rpc_result acc =
     (case rpc_result of
        Correct pending \<Rightarrow> (fst acc @ [pending], snd acc)
      | FailedPayable _ h \<Rightarrow> (fst acc, snd acc @ [h]))"

definition separate_errors ::
  "payable_transaction_error + processed_payable_fallible list \<Rightarrow> (pending_payable list \<times> payable_transacting_error option) run" where
  "separate_errors payment_procedure_result =
     (case payment_procedure_result of
        Inr individual_batch_responses \<Rightarrow>
          if individual_batch_responses = [] then panic
          else let (oks, errs) = fold add_rpc_result individual_batch_responses ([], [])
            in ret (oks, if errs \<noteq> [] then Some (RemotelyCausedErrors errs) else None)
      | Inl e \<Rightarrow> ret ([], Some (LocallyCausedError e)))"

text \<open>Taking the wallet of each hash out of the map of sent payables; a hash that is not in it any more is a panic.\<close>

fun take_wallets :: "h256 list \<Rightarrow> (h256, wallet) fmap \<Rightarrow> (wallet list \<times> (h256, wallet) fmap) run" where
  "take_wallets [] sent = ret ([], sent)"
| "take_wallets (h # hs) sent =
     (case fmlookup sent h of
        None \<Rightarrow> panic
      | Some wallet \<Rightarrow> do {
          (wallets, sent') \<leftarrow> take_wallets hs (fmdrop h sent);
          ret (wallet # wallets, sent') })"

definition separate_existent_and_nonexistent_fingerprints ::
  "pending_payable list \<Rightarrow> accounts \<Rightarrow> ((wallet \<times> u64) list \<times> wallet list) run" where
  "separate_existent_and_nonexistent_fingerprints sent_payables db =
     (let hashes = map pe_hash sent_payables;
          sent = fmap_of_list (rev (map (\<lambda>p. (pe_hash p, pe_recipient_wallet p)) sent_payables));
          th = fingerprints_rowids hashes db
      in if set hashes \<noteq> set (map snd (th_rowid_results th)) \<union> set (th_no_rowid_results th) then panic
         else do {
           (with_rowid, sent1) \<leftarrow> take_wallets (map snd (th_rowid_results th)) sent;
           (without_rowid, _) \<leftarrow> take_wallets (th_no_rowid_results th) sent1;
           ret (zip with_rowid (map fst (th_rowid_results th)), without_rowid) })"

definition mark_pending_payable :: "wallet_ops \<Rightarrow> pending_payable list \<Rightarrow> accounts \<Rightarrow> accounts run" where
  "mark_pending_payable W sent_payments db = do {
     (existent, nonexistent) \<leftarrow> separate_existent_and_nonexistent_fingerprints sent_payments db;
     db1 \<leftarrow> (if existent = [] then ret db
       else do {
         addresses \<leftarrow> those (map (\<lambda>(w, _). wallet_address W w) existent);
         mark_pending_payables_rowids (zip addresses (map snd existent)) db });
     if nonexistent \<noteq> [] then panic else ret db1 }"

definition discard_failed_transactions :: "h256 list \<Rightarrow> accounts \<Rightarrow> accounts run" where
  "discard_failed_transactions hashes_of_failed db =
     (let th = fingerprints_rowids hashes_of_failed db
      in do {
        db1 \<leftarrow> (if th_rowid_results th = [] then ret db else delete_fingerprints (map fst (th_rowid_results th)) db);
        if th_no_rowid_results th \<noteq> [] then panic else ret db1 })"

definition handle_sent_payable_errors :: "payable_transacting_error option \<Rightarrow> accounts \<Rightarrow> accounts run" where
  "handle_sent_payable_errors err_opt db =
     (case err_opt of
        Some (LocallyCausedError (Sending hashes)) \<Rightarrow> discard_failed_transactions hashes db
      | Some (RemotelyCausedErrors hashes) \<Rightarrow> discard_failed_transactions hashes db
      | _ \<Rightarrow> ret db)"

definition scan_response :: "response_skeleton option \<Rightarrow> 'g accountant_output list" where
  "scan_response response_skeleton_opt =
     (case response_skeleton_opt of
        None \<Rightarrow> []
      | Some response_skeleton \<Rightarrow> [AccToUi (rsk_client_id response_skeleton) (UiScanResponse (rsk_context_id response_skeleton))])"

definition finish_payable_scan ::
  "wallet_ops \<Rightarrow> int \<Rightarrow> payable_transaction_error + processed_payable_fallible list \<Rightarrow> response_skeleton option \<Rightarrow> accountant \<Rightarrow>
     ('g accountant_output list \<times> accountant) run" where
  "finish_payable_scan W now payment_procedure_result response_skeleton_opt a = do {
     (sent_payables, err_opt) \<leftarrow> separate_errors payment_procedure_result;
     db1 \<leftarrow> (if sent_payables = [] then ret (at_db a) else mark_pending_payable W sent_payables (at_db a));
     db2 \<leftarrow> handle_sent_payable_errors err_opt db1;
     _ \<leftarrow> signal_scanner_completion now (at_payable_initiated_at_opt a);
     ret (scan_response response_skeleton_opt, a\<lparr>at_db := db2, at_payable_initiated_at_opt := None\<rparr>) }"

text \<open>No adjustment of payments is ever found indispensable, so the payables are passed on.\<close>

definition search_for_indispensable_adjustment :: "payable_account list \<Rightarrow> unit option" where
  "search_for_indispensable_adjustment payables = None"

definition handle_payable_payment_setup :: "payable_account list \<Rightarrow> 'g \<Rightarrow> response_skeleton option \<Rightarrow> accountant \<Rightarrow>
     ('g accountant_output list \<times> accountant) run" where
  "handle_payable_payment_setup payables agent response_skeleton_opt a =
     (case search_for_indispensable_adjustment payables of
        None \<Rightarrow> if at_bound a then ret ([OutboundPaymentsInstructions payables agent response_skeleton_opt], a) else panic
      | Some _ \<Rightarrow> panic)"

section \<open>The scan for pending payables\<close>

definition begin_pending_payable_scan ::
  "int \<Rightarrow> response_skeleton option \<Rightarrow> accountant \<Rightarrow> ((begin_scan_error + 'g accountant_output) \<times> accountant) run" where
  "begin_pending_payable_scan now response_skeleton_opt a =
     (case at_pending_payable_initiated_at_opt a of
        Some timestamp \<Rightarrow> ret (Inl (ScanAlreadyRunning timestamp), a)
      | None \<Rightarrow> do {
          filtered_pending_payable \<leftarrow> return_all_errorless_fingerprints (at_db a);
          if filtered_pending_payable = [] then do {
            _ \<leftarrow> signal_scanner_completion now (Some now);
            ret (Inl NothingToProcess, a\<lparr>at_pending_payable_initiated_at_opt := None\<rparr>) }
          else ret (Inr (RequestTransactionReceipts filtered_pending_payable response_skeleton_opt),
            a\<lparr>at_pending_payable_initiated_at_opt := Some now\<rparr>) })"

record pending_payable_scan_report =
  psr_still_pending :: "u64 list"
  psr_failures :: "u64 list"
  psr_confirmed :: "pending_payable_fingerprint list"

text \<open>Only the row ids of \<open>PendingPayableId\<close> are used; the hashes are for the log.\<close>

definition handle_receipt ::
  "transaction_receipt_result \<times> pending_payable_fingerprint \<Rightarrow> pending_payable_scan_report \<Rightarrow> pending_payable_scan_report" where
  "handle_receipt receipt_and_fingerprint report =
     (let fp = snd receipt_and_fingerprint
      in case fst receipt_and_fingerprint of
        RpcResponse TxPending \<Rightarrow> report\<lparr>psr_still_pending := psr_still_pending report @ [fp_rowid fp]\<rparr>
      | RpcResponse TxFailed \<Rightarrow> report\<lparr>psr_failures := psr_failures report @ [fp_rowid fp]\<rparr>
      | RpcResponse TxSucceeded \<Rightarrow> report\<lparr>psr_confirmed := psr_confirmed report @ [fp]\<rparr>
      | LocalError \<Rightarrow> report\<lparr>psr_still_pending := psr_still_pending report @ [fp_rowid fp]\<rparr>)"

definition handle_receipts_for_pending_transactions ::
  "(transaction_receipt_result \<times> pending_payable_fingerprint) list \<Rightarrow> pending_payable_scan_report" where
  "handle_receipts_for_pending_transactions fingerprints_with_receipts =
     fold handle_receipt fingerprints_with_receipts \<lparr>psr_still_pending = [], psr_failures = [], psr_confirmed = []\<rparr>"

definition add_to_the_total_of_paid_payable :: "pending_payable_fingerprint list \<Rightarrow> financial_statistics \<Rightarrow> financial_statistics" where
  "add_to_the_total_of_paid_payable fingerprints stats =
     fold (\<lambda>fp s. s\<lparr>total_paid_payable_wei := wrap_u128 (total_paid_payable_wei s + fp_amount fp)\<rparr>) fingerprints stats"

definition confirm_transactions :: "pending_payable_fingerprint list \<Rightarrow> accountant \<Rightarrow> accountant run" where
  "confirm_transactions fingerprints a =
     (if fingerprints = [] then ret a
      else do {
        (res, db1) \<leftarrow> transactions_confirmed fingerprints (at_db a);
        (case res of
           Inl _ \<Rightarrow> panic
         | Inr _ \<Rightarrow> do {
             db2 \<leftarrow> delete_fingerprints (map fp_rowid fingerprints) db1;
             ret (a\<lparr>at_db := db2, at_financial_statistics := add_to_the_total_of_paid_payable fingerprints (at_financial_statistics a)\<rparr>) }) })"

definition cancel_failed_transactions :: "u64 list \<Rightarrow> accountant \<Rightarrow> accountant run" where
  "cancel_failed_transactions ids a =
     (if ids = [] then ret a else do { db \<leftarrow> mark_failures ids (at_db a); ret (a\<lparr>at_db := db\<rparr>) })"

definition update_remaining_fingerprints :: "u64 list \<Rightarrow> accountant \<Rightarrow> accountant run" where
  "update_remaining_fingerprints ids a =
     (if ids = [] then ret a else do { db \<leftarrow> increment_scan_attempts ids (at_db a); ret (a\<lparr>at_db := db\<rparr>) })"

definition process_transactions_by_reported_state :: "pending_payable_scan_report \<Rightarrow> accountant \<Rightarrow> accountant run" where
  "process_transactions_by_reported_state report a = do {
     a1 \<leftarrow> confirm_transactions (psr_confirmed report) a;
     a2 \<leftarrow> cancel_failed_transactions (psr_failures report) a1;
     update_remaining_fingerprints (psr_still_pending report) a2 }"

definition finish_pending_payable_scan ::
  "int \<Rightarrow> (transaction_receipt_result \<times> pending_payable_fingerprint) list \<Rightarrow> response_skeleton option \<Rightarrow> accountant \<Rightarrow>
     ('g accountant_output list \<times> accountant) run" where
  "finish_pending_payable_scan now fingerprints_with_receipts response_skeleton_opt a = do {
     a1 \<leftarrow> (if fingerprints_with_receipts = [] then ret a
       else process_transactions_by_reported_state (handle_receipts_for_pending_transactions fingerprints_with_receipts) a);
     _ \<leftarrow> signal_scanner_completion now (at_pending_payable_initiated_at_opt a1);
     ret (scan_response response_skeleton_opt, a1\<lparr>at_pending_payable_initiated_at_opt := None\<rparr>) }"

section \<open>The scan for receivables\<close>

text \<open>\<open>balance_and_age\<close> is for the log, but converts the balance, which panics if it does not fit.\<close>

definition find_and_ban_delinquents :: "int \<Rightarrow> payment_thresholds \<Rightarrow> accounts \<Rightarrow> accounts run" where
  "find_and_ban_delinquents timestamp t db = do {
     delinquents \<leftarrow> new_delinquencies timestamp t db;
     iter_each (\<lambda>account db'. do {
       _ \<leftarrow> wei_to_gwei I64 (ra_balance_wei account);
       ret (ban (ra_wallet account) db') }) delinquents db }"

definition find_and_unban_reformed_nodes :: "payment_thresholds \<Rightarrow> accounts \<Rightarrow> accounts run" where
  "find_and_unban_reformed_nodes t db = do {
     reformed \<leftarrow> paid_delinquencies t db;
     iter_each (\<lambda>account db'. do {
       _ \<leftarrow> wei_to_gwei I64 (ra_balance_wei account);
       ret (unban (ra_wallet account) db') }) reformed db }"

definition scan_for_delinquencies :: "int \<Rightarrow> payment_thresholds \<Rightarrow> accounts \<Rightarrow> accounts run" where
  "scan_for_delinquencies timestamp t db = do {
     db1 \<leftarrow> find_and_ban_delinquents timestamp t db;
     find_and_unban_reformed_nodes t db1 }"

definition begin_receivable_scan ::
  "wallet \<Rightarrow> int \<Rightarrow> response_skeleton option \<Rightarrow> accountant \<Rightarrow> ((begin_scan_error + 'g accountant_output) \<times> accountant) run" where
  "begin_receivable_scan earning now response_skeleton_opt a =
     (case at_receivable_initiated_at_opt a of
        Some timestamp \<Rightarrow> ret (Inl (ScanAlreadyRunning timestamp), a)
      | None \<Rightarrow> do {
          db \<leftarrow> scan_for_delinquencies now (at_payment_thresholds a) (at_db a);
          ret (Inr (RetrieveTransactions earning response_skeleton_opt),
            a\<lparr>at_db := db, at_receivable_initiated_at_opt := Some now\<rparr>) })"

definition handle_new_received_payments ::
  "wallet_ops \<Rightarrow> int \<Rightarrow> block_marker \<Rightarrow> blockchain_transaction list \<Rightarrow> accountant \<Rightarrow> accountant run" where
  "handle_new_received_payments W timestamp new_start_block transactions a =
     (if transactions = [] then
        ret (case new_start_block of
           BlockValue start_block_number \<Rightarrow> a\<lparr>at_db := (at_db a)\<lparr>ac_start_block := Some start_block_number\<rparr>\<rparr>
         | BlockUninitialized \<Rightarrow> a)
      else do {
        rows \<leftarrow> more_money_received W timestamp transactions (ac_receivable (at_db a));
        (case new_start_block of
           BlockUninitialized \<Rightarrow> panic
         | BlockValue start_block_number \<Rightarrow>
             let total = fold (\<lambda>tx n. wrap_u128 (n + bt_wei_amount tx)) transactions 0; stats = at_financial_statistics a
             in ret (a\<lparr>at_db := (at_db a)\<lparr>ac_receivable := rows, ac_start_block := Some start_block_number\<rparr>,
               at_financial_statistics := stats\<lparr>total_paid_receivable_wei := wrap_u128 (total_paid_receivable_wei stats + total)\<rparr>\<rparr>)) })"

definition finish_receivable_scan ::
  "wallet_ops \<Rightarrow> int \<Rightarrow> int \<Rightarrow> block_marker \<Rightarrow> blockchain_transaction list \<Rightarrow> response_skeleton option \<Rightarrow> accountant \<Rightarrow>
     ('g accountant_output list \<times> accountant) run" where
  "finish_receivable_scan W now timestamp new_start_block transactions response_skeleton_opt a = do {
     a1 \<leftarrow> handle_new_received_payments W timestamp new_start_block transactions a;
     _ \<leftarrow> signal_scanner_completion now (at_receivable_initiated_at_opt a1);
     ret (scan_response response_skeleton_opt, a1\<lparr>at_receivable_initiated_at_opt := None\<rparr>) }"

section \<open>Handlers\<close>

definition accountant_new :: "bool \<Rightarrow> wallet option \<Rightarrow> wallet \<Rightarrow> payment_thresholds \<Rightarrow> accounts \<Rightarrow> accountant" where
  "accountant_new suppress_initial_scans consuming_opt earning t db =
     \<lparr>at_suppress_initial_scans = suppress_initial_scans, at_consuming_wallet_opt = consuming_opt,
       at_earning_wallet = earning, at_db = db, at_payment_thresholds = t, at_payable_initiated_at_opt = None,
       at_pending_payable_initiated_at_opt = None, at_receivable_initiated_at_opt = None,
       at_financial_statistics = \<lparr>total_paid_payable_wei = 0, total_paid_receivable_wei = 0\<rparr>, at_bound = False\<rparr>"

text \<open>An error at the beginning of a scan is only logged.\<close>

definition send_scan_message ::
  "accountant \<Rightarrow> begin_scan_error + 'g accountant_output \<Rightarrow> 'g accountant_output list run" where
  "send_scan_message a result =
     (case result of Inl _ \<Rightarrow> ret [] | Inr msg \<Rightarrow> if at_bound a then ret [msg] else panic)"

definition handle_request_of_scan_for_payable ::
  "int \<Rightarrow> response_skeleton option \<Rightarrow> accountant \<Rightarrow> ('g accountant_output list \<times> accountant) run" where
  "handle_request_of_scan_for_payable now response_skeleton_opt a = do {
     (result, a1) \<leftarrow> (case at_consuming_wallet_opt a of
        Some consuming_wallet \<Rightarrow> begin_payable_scan consuming_wallet now response_skeleton_opt a
      | None \<Rightarrow> ret (Inl NoConsumingWalletFound, a));
     out \<leftarrow> send_scan_message a1 result;
     ret (out, a1) }"

definition handle_request_of_scan_for_pending_payable ::
  "int \<Rightarrow> response_skeleton option \<Rightarrow> accountant \<Rightarrow> ('g accountant_output list \<times> accountant) run" where
  "handle_request_of_scan_for_pending_payable now response_skeleton_opt a = do {
     (result, a1) \<leftarrow> (case at_consuming_wallet_opt a of
        Some _ \<Rightarrow> begin_pending_payable_scan now response_skeleton_opt a
      | None \<Rightarrow> ret (Inl NoConsumingWalletFound, a));
     out \<leftarrow> send_scan_message a1 result;
     ret (out, a1) }"

definition handle_request_of_scan_for_receivable ::
  "int \<Rightarrow> response_skeleton option \<Rightarrow> accountant \<Rightarrow> ('g accountant_output list \<times> accountant) run" where
  "handle_request_of_scan_for_receivable now response_skeleton_opt a = do {
     (result, a1) \<leftarrow> begin_receivable_scan (at_earning_wallet a) now response_skeleton_opt a;
     out \<leftarrow> send_scan_message a1 result;
     ret (out, a1) }"

definition handle_request_of_scan ::
  "scan_type \<Rightarrow> int \<Rightarrow> response_skeleton option \<Rightarrow> accountant \<Rightarrow> ('g accountant_output list \<times> accountant) run" where
  "handle_request_of_scan scan_type now response_skeleton_opt a =
     (case scan_type of
        Payables \<Rightarrow> handle_request_of_scan_for_payable now response_skeleton_opt a
      | PendingPayables \<Rightarrow> handle_request_of_scan_for_pending_payable now response_skeleton_opt a
      | Receivables \<Rightarrow> handle_request_of_scan_for_receivable now response_skeleton_opt a)"

definition handle_accountant_start :: "accountant \<Rightarrow> 'g accountant_output list" where
  "handle_accountant_start a =
     (if at_suppress_initial_scans a then [] else [NotifySelf PendingPayables, NotifySelf Payables, NotifySelf Receivables])"

definition handle_scan_error ::
  "int \<Rightarrow> scan_type \<Rightarrow> response_skeleton option \<Rightarrow> accountant \<Rightarrow> ('g accountant_output list \<times> accountant) run" where
  "handle_scan_error now scan_type response_skeleton_opt a = do {
     a1 \<leftarrow> (case scan_type of
        Payables \<Rightarrow> do {
          _ \<leftarrow> signal_scanner_completion now (at_payable_initiated_at_opt a); ret (a\<lparr>at_payable_initiated_at_opt := None\<rparr>) }
      | PendingPayables \<Rightarrow> do {
          _ \<leftarrow> signal_scanner_completion now (at_pending_payable_initiated_at_opt a); ret (a\<lparr>at_pending_payable_initiated_at_opt := None\<rparr>) }
      | Receivables \<Rightarrow> do {
          _ \<leftarrow> signal_scanner_completion now (at_receivable_initiated_at_opt a); ret (a\<lparr>at_receivable_initiated_at_opt := None\<rparr>) });
     (case response_skeleton_opt of
        None \<Rightarrow> ret ([], a1)
      | Some response_skeleton \<Rightarrow>
          if at_bound a1
          then ret ([AccToUi (rsk_client_id response_skeleton) (UiScanError (rsk_context_id response_skeleton) scan_type)], a1)
          else panic) }"

definition handle_wallets_update :: "wallet \<Rightarrow> wallet \<Rightarrow> accountant \<Rightarrow> accountant" where
  "handle_wallets_update consuming earning a =
     a\<lparr>at_earning_wallet := earning, at_consuming_wallet_opt := Some consuming\<rparr>"

definition handle_new_pending_payable_fingerprints :: "int \<Rightarrow> hash_and_amount list \<Rightarrow> accountant \<Rightarrow> accountant run" where
  "handle_new_pending_payable_fingerprints batch_wide_timestamp hashes_and_balances a = do {
     (_, db) \<leftarrow> insert_new_fingerprints hashes_and_balances batch_wide_timestamp (at_db a);
     ret (a\<lparr>at_db := db\<rparr>) }"

datatype 'g accountant_message =
    AccBind
  | AccStart
  | UpdateWallets wallet wallet
  | OtherConfigChange
  | ReceivedPayments int block_marker "blockchain_transaction list" "response_skeleton option"
  | BlockchainAgentWithContext "payable_account list" 'g "response_skeleton option"
  | SentPayables "payable_transaction_error + processed_payable_fallible list" "response_skeleton option"
  | ScanFor scan_type "response_skeleton option"
  | UiScanRequest scan_type response_skeleton
  | ScanError scan_type "response_skeleton option"
  | ReportRoutingServiceProvided report_routing_service_provided
  | ReportExitServiceProvided report_routing_service_provided
  | ReportServicesConsumed int exit_service_consumed nat "routing_service_consumed list"
  | ReportTransactionReceipts "(transaction_receipt_result \<times> pending_payable_fingerprint) list" "response_skeleton option"
  | PendingPayableFingerprintSeeds int "hash_and_amount list"

text \<open>A response to the UI needs the gateway to be bound.\<close>

definition respond :: "('g accountant_output list \<times> accountant) run \<Rightarrow> ('g accountant_output list \<times> accountant) run" where
  "respond m = do { (out, a) \<leftarrow> m; if out \<noteq> [] \<and> \<not> at_bound a then panic else ret (out, a) }"

fun accountant_handle ::
  "wallet_ops \<Rightarrow> int \<Rightarrow> 'g accountant_message \<Rightarrow> accountant \<Rightarrow> ('g accountant_output list \<times> accountant) run" where
  "accountant_handle W now AccBind a = ret ([], a\<lparr>at_bound := True\<rparr>)"
| "accountant_handle W now AccStart a = ret (handle_accountant_start a, a)"
| "accountant_handle W now (UpdateWallets consuming earning) a = ret ([], handle_wallets_update consuming earning a)"
| "accountant_handle W now OtherConfigChange a = ret ([], a)"
| "accountant_handle W now (ReceivedPayments timestamp marker transactions skeleton_opt) a =
     respond (finish_receivable_scan W now timestamp marker transactions skeleton_opt a)"
| "accountant_handle W now (BlockchainAgentWithContext payables agent skeleton_opt) a =
     handle_payable_payment_setup payables agent skeleton_opt a"
| "accountant_handle W now (SentPayables result skeleton_opt) a = respond (finish_payable_scan W now result skeleton_opt a)"
| "accountant_handle W now (ScanFor scan_type skeleton_opt) a = do {
     (out, a1) \<leftarrow> handle_request_of_scan scan_type now skeleton_opt a;
     ret (out @ [ScheduleScan scan_type], a1) }"
| "accountant_handle W now (UiScanRequest scan_type skeleton) a = handle_request_of_scan scan_type now (Some skeleton) a"
| "accountant_handle W now (ScanError scan_type skeleton_opt) a = handle_scan_error now scan_type skeleton_opt a"
| "accountant_handle W now (ReportRoutingServiceProvided msg) a = do { a1 \<leftarrow> handle_report_service_provided W msg a; ret ([], a1) }"
| "accountant_handle W now (ReportExitServiceProvided msg) a = do { a1 \<leftarrow> handle_report_service_provided W msg a; ret ([], a1) }"
| "accountant_handle W now (ReportServicesConsumed timestamp exit payload_size routing) a = do {
     a1 \<leftarrow> handle_report_services_consumed W timestamp exit payload_size routing a; ret ([], a1) }"
| "accountant_handle W now (ReportTransactionReceipts receipts skeleton_opt) a =
     respond (finish_pending_payable_scan now receipts skeleton_opt a)"
| "accountant_handle W now (PendingPayableFingerprintSeeds timestamp hashes) a = do {
     a1 \<leftarrow> handle_new_pending_payable_fingerprints timestamp hashes a; ret ([], a1) }"

text \<open>A run of the actor: every message with the time at which it is handled.\<close>

fun accountant_run :: "wallet_ops \<Rightarrow> (int \<times> 'g accountant_message) list \<Rightarrow> accountant \<Rightarrow> ('g accountant_output list \<times> accountant) run" where
  "accountant_run W [] a = ret ([], a)"
| "accountant_run W ((now, m) # ms) a = do {
     (out, a1) \<leftarrow> accountant_handle W now m a;
     (outs, a2) \<leftarrow> accountant_run W ms a1;
     ret (out @ outs, a2) }"

lemma accountant_run_ConsE:
  assumes "accountant_run W ((now, m) # ms) a = Some (outs, a')"
  obtains out a1 outs1 where "accountant_handle W now m a = Some (out, a1)" "accountant_run W ms a1 = Some (outs1, a')" "outs = out @ outs1"
  using assms by (auto split: bind_splits)

end
