(* ===== verification/Payments.thy ===== *)
theory Payments
  imports Accountant
begin

text \<open>
  What the scans for payables and pending payables guarantee together: a debt that is being paid is not offered for payment
  again, whatever messages the accountant handles in between.
\<close>

section \<open>Pending payments\<close>

definition pending_in :: "payable_row list \<Rightarrow> address \<Rightarrow> int \<Rightarrow> bool" where
  "pending_in rows w i \<longleftrightarrow> (\<exists>r\<in>set rows. py_wallet_address r = w \<and> py_pending_payable_rowid r = Some i)"

definition pendings_ok :: "(address \<times> int) set \<Rightarrow> payable_row list \<Rightarrow> bool" where
  "pendings_ok S rows \<longleftrightarrow> distinct (map py_wallet_address rows) \<and> (\<forall>(w, i)\<in>S. pending_in rows w i)"

abbreviation pendings :: "(address \<times> int) set \<Rightarrow> accountant \<Rightarrow> bool" where
  "pendings S a \<equiv> pendings_ok S (ac_payable (at_db a))"

text \<open>What a statement does to a table: nothing, a new row, or a change of rows with the key.\<close>

lemma those_all2: "those (map f xs) = Some ys \<Longrightarrow> list_all2 (\<lambda>x y. f x = Some y) xs ys"
  by (induction xs arbitrary: ys) (auto split: option.splits)

lemma execute_rows:
  assumes "execute c rows = Some (res, rows')"
  shows "list_all2 (\<lambda>r r'. r' = r \<or> bi_key c r \<and> (\<exists>p. r' = bi_set c p r)) rows rows' \<or>
    (\<exists>new. bi_insert c = Some new \<and> rows' = rows @ [new] \<and> (\<forall>r\<in>set rows. \<not> bi_key c r))"
proof -
  let ?R = "\<lambda>r r'. r' = r \<or> bi_key c r \<and> (\<exists>p. r' = bi_set c p r)"
  have refl: "list_all2 ?R rows rows" by (simp add: list.rel_refl)
  show ?thesis
  proof (cases "filter (bi_key c) rows")
    case Nil
    then show ?thesis using assms refl by (auto simp: execute_def filter_empty_conv split: option.splits)
  next
    case (Cons r rs)
    show ?thesis
    proof (cases "those (map (\<lambda>r. if bi_key c r then sql_update c r else Some r) rows)")
      case None
      then have "rows' = rows \<or> rows' = map (\<lambda>r'. if bi_key c r' then bi_set c (correct_bytes (bi_bytes c r) (bi_change c)) r' else r') rows"
        using assms Cons by (auto simp: execute_def update_with_overflow_def split: if_splits)
      then show ?thesis using refl by (elim disjE) (auto simp: list_all2_conv_all_nth simp del: split_paired_Ex)
    next
      case (Some rows1)
      then have "rows' = rows1" using assms Cons by (simp add: execute_def)
      moreover have "list_all2 ?R rows rows1" using those_all2 [OF Some]
        by (rule list_all2_mono) (auto simp: sql_update_def simp del: split_paired_Ex split: if_splits bind_splits)
      ultimately show ?thesis by simp
    qed
  qed
qed

lemma all2_wallets:
  assumes "list_all2 R rows rows'" "\<And>r r'. R r r' \<Longrightarrow> wallet r' = wallet r"
  shows "map wallet rows' = map wallet rows"
  using assms by (induction) auto

lemma pendings_all2:
  assumes "pendings_ok S rows" "list_all2 R rows rows'" "\<And>r r'. R r r' \<Longrightarrow> py_wallet_address r' = py_wallet_address r"
    "\<And>r r' i. R r r' \<Longrightarrow> py_pending_payable_rowid r = Some i \<Longrightarrow> (py_wallet_address r, i) \<in> S \<Longrightarrow> py_pending_payable_rowid r' = Some i"
  shows "pendings_ok S rows'"
proof -
  have "pending_in rows' w i" if "(w, i) \<in> S" for w i
  proof -
    have "pending_in rows w i" using that assms(1) unfolding pendings_ok_def by blast
    then obtain k where k: "k < length rows" "py_wallet_address (rows ! k) = w" "py_pending_payable_rowid (rows ! k) = Some i"
      by (auto simp: pending_in_def in_set_conv_nth)
    then have "R (rows ! k) (rows' ! k)" "k < length rows'" using assms(2) by (auto simp: list_all2_conv_all_nth)
    then show ?thesis using assms(3,4) [of "rows ! k" "rows' ! k"] k that by (auto simp: pending_in_def intro!: bexI [of _ "rows' ! k"])
  qed
  then show ?thesis using assms(1) all2_wallets [OF assms(2,3)] by (auto simp: pendings_ok_def)
qed

lemma pendings_append:
  assumes "pendings_ok S rows" "\<forall>r\<in>set rows. py_wallet_address r \<noteq> py_wallet_address new"
  shows "pendings_ok S (rows @ [new])"
proof -
  have "pending_in (rows @ [new]) w i" if "pending_in rows w i" for w i using that by (auto simp: pending_in_def)
  then show ?thesis using assms by (auto simp: pendings_ok_def image_iff)
qed

lemma execute_pendings:
  assumes "execute c rows = Some (res, rows')" "pendings_ok S rows"
    "\<And>p r. py_wallet_address (bi_set c p r) = py_wallet_address r"
    "\<And>p r i. bi_key c r \<Longrightarrow> py_pending_payable_rowid r = Some i \<Longrightarrow> (py_wallet_address r, i) \<in> S \<Longrightarrow>
      py_pending_payable_rowid (bi_set c p r) = Some i"
    "\<And>new r. bi_insert c = Some new \<Longrightarrow> \<not> bi_key c r \<Longrightarrow> py_wallet_address r \<noteq> py_wallet_address new"
  shows "pendings_ok S rows'"
  using execute_rows [OF assms(1)]
proof (elim disjE exE conjE)
  fix new
  assume "bi_insert c = Some new" "rows' = rows @ [new]" "\<forall>r\<in>set rows. \<not> bi_key c r"
  then show ?thesis using assms(2,5) by (simp add: pendings_append)
next
  assume a: "list_all2 (\<lambda>r r'. r' = r \<or> bi_key c r \<and> (\<exists>p. r' = bi_set c p r)) rows rows'"
  show ?thesis
  proof (rule pendings_all2 [OF assms(2) a])
    fix r r'
    assume "r' = r \<or> bi_key c r \<and> (\<exists>p. r' = bi_set c p r)"
    then show "py_wallet_address r' = py_wallet_address r" using assms(3) by blast
  next
    fix r r' i
    assume "r' = r \<or> bi_key c r \<and> (\<exists>p. r' = bi_set c p r)" "py_pending_payable_rowid r = Some i" "(py_wallet_address r, i) \<in> S"
    then show "py_pending_payable_rowid r' = Some i" using assms(4) by blast
  qed
qed

lemma more_money_payable_pendings:
  assumes "more_money_payable ts w n db = Some (res, db')" "pendings_ok S (ac_payable db)"
  shows "pendings_ok S (ac_payable db')"
proof -
  from assms(1) obtain t h l rows' where ex: "execute (payable_config (\<lambda>r. py_wallet_address r = w) id
      (Some \<lparr>py_wallet_address = w, py_balance_high_b = h, py_balance_low_b = l, py_last_paid_timestamp = t, py_pending_payable_rowid = None\<rparr>)
      (h, l)) (ac_payable db) = Some (res, rows')" and db': "db' = db\<lparr>ac_payable := rows'\<rparr>"
    by (auto simp: more_money_payable_def split: bind_splits)
  have "pendings_ok S rows'" by (rule execute_pendings [OF ex assms(2)]) auto
  then show ?thesis by (simp add: db')
qed

lemma transaction_confirmed_pendings:
  assumes "transaction_confirmed fp db = Some (res, db')" "pendings_ok S (ac_payable db)" "\<forall>(w, i)\<in>S. i \<noteq> uint (fp_rowid fp)"
  shows "pendings_ok S (ac_payable db')"
proof -
  from assms(1) obtain t ch rows' where ex: "execute (payable_config (\<lambda>r. py_pending_payable_rowid r = Some (uint (fp_rowid fp)))
      (\<lambda>r. r\<lparr>py_last_paid_timestamp := t, py_pending_payable_rowid := None\<rparr>) None ch) (ac_payable db) = Some (res, rows')"
    and db': "db' = db\<lparr>ac_payable := rows'\<rparr>"
    by (auto simp: transaction_confirmed_def checked_conversion_def sign_conversion_def split: bind_splits if_splits)
  have "pendings_ok S rows'" by (rule execute_pendings [OF ex assms(2)]) (use assms(3) in auto)
  then show ?thesis by (simp add: db')
qed

lemma transactions_confirmed_pendings:
  assumes "transactions_confirmed fps db = Some (res, db')" "pendings_ok S (ac_payable db)"
    "\<forall>fp\<in>set fps. \<forall>(w, i)\<in>S. i \<noteq> uint (fp_rowid fp)"
  shows "pendings_ok S (ac_payable db')"
  using assms
proof (induction fps arbitrary: db)
  case (Cons fp fps)
  from Cons.prems(1) obtain res1 db1 where db1: "transaction_confirmed fp db = Some (res1, db1)"
    and rest: "(case res1 of Inl e \<Rightarrow> ret (Inl e, db1) | Inr _ \<Rightarrow> transactions_confirmed fps db1) = Some (res, db')"
    by (auto split: bind_splits)
  have "pendings_ok S (ac_payable db1)" using transaction_confirmed_pendings [OF db1 Cons.prems(2)] Cons.prems(3) by simp
  with rest Cons.IH [of db1] Cons.prems(3) show ?case by (auto split: sum.splits)
qed simp

lemma mark_pending_payables_pendings:
  assumes "mark_pending_payables_rowids prs db = Some db'" "pendings_ok S (ac_payable db)"
  shows "pendings_ok S (ac_payable db')"
proof -
  let ?R = "\<lambda>r r'. r' = r \<or> py_pending_payable_rowid r = None \<and> (\<exists>i. r' = r\<lparr>py_pending_payable_rowid := i\<rparr>)"
  have "list_all2 ?R (ac_payable db) (ac_payable db')"
    using assms(1) by (auto simp: mark_pending_payables_rowids_def Let_def list_all2_conv_all_nth simp del: split_paired_Ex split: if_splits)
  then show ?thesis by (rule pendings_all2 [OF assms(2)]) auto
qed

lemma fingerprints_payable:
  "change_fingerprints f ids db = Some db' \<Longrightarrow> ac_payable db' = ac_payable db"
  "insert_new_fingerprints hs ts db = Some (res, db') \<Longrightarrow> ac_payable db' = ac_payable db"
  "discard_failed_transactions hashes db = Some db' \<Longrightarrow> ac_payable db' = ac_payable db"
  by (auto simp: change_fingerprints_def insert_new_fingerprints_def discard_failed_transactions_def delete_fingerprints_def Let_def
    split: if_splits bind_splits)

lemma receivables_payable:
  "more_money_receivable ts w n db = Some (res, db') \<Longrightarrow> ac_payable db' = ac_payable db"
  "ac_payable (ban w db) = ac_payable db" "ac_payable (unban w db) = ac_payable db"
  by (auto simp: more_money_receivable_def ban_def unban_def split: bind_splits)

lemma scan_for_delinquencies_payable:
  "find_and_ban_delinquents ts t db = Some db' \<Longrightarrow> ac_payable db' = ac_payable db"
  "find_and_unban_reformed_nodes t db = Some db' \<Longrightarrow> ac_payable db' = ac_payable db"
  "scan_for_delinquencies ts t db = Some db' \<Longrightarrow> ac_payable db' = ac_payable db"
proof -
  show b: "ac_payable db' = ac_payable db" if "find_and_ban_delinquents ts t db = Some db'" for db db'
    using that unfolding find_and_ban_delinquents_def
    by (auto split: bind_splits elim!: iter_each_invD [where I = "\<lambda>d. ac_payable d = ac_payable db"] simp: receivables_payable)
  show u: "ac_payable db' = ac_payable db" if "find_and_unban_reformed_nodes t db = Some db'" for db db'
    using that unfolding find_and_unban_reformed_nodes_def
    by (auto split: bind_splits elim!: iter_each_invD [where I = "\<lambda>d. ac_payable d = ac_payable db"] simp: receivables_payable)
  show "scan_for_delinquencies ts t db = Some db' \<Longrightarrow> ac_payable db' = ac_payable db"
    by (auto simp: scan_for_delinquencies_def dest!: b u split: bind_splits)
qed

section \<open>The handlers and the pending payments\<close>

lemma record_service_consumed_pendings:
  "record_service_consumed W s b ts n w a = Some a' \<Longrightarrow> pendings S a \<Longrightarrow> pendings S a'"
  by (auto simp: record_service_consumed_def split: bind_splits if_splits sum.splits elim!: more_money_payable_pendings)

lemma handle_report_services_consumed_pendings:
  assumes "handle_report_services_consumed W ts exit n routing a = Some a'" "pendings S a"
  shows "pendings S a'"
proof -
  from assms(1) obtain a1 where a1: "record_service_consumed W (esc_service_rate exit) (esc_byte_rate exit) ts (esc_payload_size exit)
      (esc_earning_wallet exit) a = Some a1"
    and rest: "iter_each (\<lambda>routing_service a'. record_service_consumed W (rsc_service_rate routing_service) (rsc_byte_rate routing_service) ts
       n (rsc_earning_wallet routing_service) a') routing a1 = Some a'"
    unfolding handle_report_services_consumed_def by (cases "record_service_consumed W (esc_service_rate exit) (esc_byte_rate exit) ts (esc_payload_size exit)
      (esc_earning_wallet exit) a") auto
  have "pendings S a1" using record_service_consumed_pendings [OF a1 assms(2)] .
  with rest show ?thesis by (rule iter_each_invD [where I = "pendings S"]) (rule record_service_consumed_pendings)
qed

lemma handle_report_service_provided_pendings:
  "handle_report_service_provided W msg a = Some a' \<Longrightarrow> ac_payable (at_db a') = ac_payable (at_db a)"
  by (auto simp: handle_report_service_provided_def record_service_provided_def split: bind_splits if_splits sum.splits dest!: receivables_payable(1))

lemma mark_pending_payable_pendings:
  "mark_pending_payable W sent db = Some db' \<Longrightarrow> pendings_ok S (ac_payable db) \<Longrightarrow> pendings_ok S (ac_payable db')"
  by (auto simp: mark_pending_payable_def split: bind_splits if_splits elim: mark_pending_payables_pendings)

lemma handle_sent_payable_errors_payable: "handle_sent_payable_errors e db = Some db' \<Longrightarrow> ac_payable db' = ac_payable db"
  by (auto simp: handle_sent_payable_errors_def split: option.splits payable_transacting_error.splits payable_transaction_error.splits
    dest: fingerprints_payable(3))

lemma finish_payable_scan_pendings:
  "finish_payable_scan W now result sk a = Some (out, a') \<Longrightarrow> pendings S a \<Longrightarrow> pendings S a'"
  by (auto simp: finish_payable_scan_def split: bind_splits if_splits dest!: handle_sent_payable_errors_payable elim!: mark_pending_payable_pendings)

lemma delete_fingerprints_payable: "delete_fingerprints ids db = Some db' \<Longrightarrow> ac_payable db' = ac_payable db"
  "mark_failures ids db = Some db' \<Longrightarrow> ac_payable db' = ac_payable db"
  "increment_scan_attempts ids db = Some db' \<Longrightarrow> ac_payable db' = ac_payable db"
  by (simp_all add: delete_fingerprints_def mark_failures_def increment_scan_attempts_def fingerprints_payable)

lemma psr_confirmed_fold:
  "psr_confirmed (fold handle_receipt rs report) = psr_confirmed report @ map snd (filter (\<lambda>r. fst r = RpcResponse TxSucceeded) rs)"
  by (induction rs arbitrary: report)
    (auto simp: handle_receipt_def Let_def split: transaction_receipt_result.splits tx_status.splits)

lemma finish_pending_payable_scan_pendings:
  assumes "finish_pending_payable_scan now rs sk a = Some (out, a')" "pendings S a"
    and no: "\<And>fp w i. (RpcResponse TxSucceeded, fp) \<in> set rs \<Longrightarrow> (w, i) \<in> S \<Longrightarrow> i \<noteq> uint (fp_rowid fp)"
  shows "pendings S a'"
proof -
  let ?fps = "map snd (filter (\<lambda>r. fst r = RpcResponse TxSucceeded) rs)"
  have "psr_confirmed (handle_receipts_for_pending_transactions rs) = ?fps"
    by (simp add: handle_receipts_for_pending_transactions_def psr_confirmed_fold)
  moreover have "\<forall>fp\<in>set ?fps. \<forall>(w, i)\<in>S. i \<noteq> uint (fp_rowid fp)" using no by auto
  note conf = transactions_confirmed_pendings [OF _ assms(2) this]
  ultimately have confirm: "pendings S a2" if "confirm_transactions (psr_confirmed (handle_receipts_for_pending_transactions rs)) a = Some a2" for a2
    using that assms(2) by (auto simp: confirm_transactions_def split: bind_splits if_splits sum.splits
      dest!: delete_fingerprints_payable(1) dest: conf)
  show ?thesis using assms(1,2)
    by (auto simp: finish_pending_payable_scan_def process_transactions_by_reported_state_def cancel_failed_transactions_def
      update_remaining_fingerprints_def dest!: confirm delete_fingerprints_payable(2,3) split: bind_splits if_splits)
qed

lemma handle_request_pendings:
  assumes "handle_request_of_scan st now sk a = Some (out, a')"
  shows "ac_payable (at_db a') = ac_payable (at_db a)"
  using assms
  by (cases st) (auto simp: handle_request_of_scan_def handle_request_of_scan_for_payable_def handle_request_of_scan_for_pending_payable_def
    handle_request_of_scan_for_receivable_def begin_payable_scan_def begin_pending_payable_scan_def begin_receivable_scan_def
    split: bind_splits option.splits if_splits dest!: scan_for_delinquencies_payable(3))

lemma finish_receivable_scan_payable:
  "finish_receivable_scan W now ts marker txs sk a = Some (out, a') \<Longrightarrow> ac_payable (at_db a') = ac_payable (at_db a)"
  by (auto simp: finish_receivable_scan_def handle_new_received_payments_def Let_def split: bind_splits if_splits block_marker.splits)

text \<open>The messages that end the payment with a row id, and those that end a scan for payables.\<close>

fun confirms :: "'g accountant_message \<Rightarrow> int \<Rightarrow> bool" where
  "confirms (ReportTransactionReceipts rs _) i \<longleftrightarrow> (\<exists>fp. (RpcResponse TxSucceeded, fp) \<in> set rs \<and> uint (fp_rowid fp) = i)"
| "confirms _ i \<longleftrightarrow> False"

fun ends_payable_scan :: "'g accountant_message \<Rightarrow> bool" where
  "ends_payable_scan (SentPayables _ _) \<longleftrightarrow> True"
| "ends_payable_scan (ScanError st _) \<longleftrightarrow> st = Payables"
| "ends_payable_scan _ \<longleftrightarrow> False"

lemma respond_SomeD: "respond m = Some (out, a) \<Longrightarrow> m = Some (out, a)"
  by (auto simp: respond_def split: bind_splits if_splits)

lemma handle_pendings:
  assumes "accountant_handle W now m a = Some (out, a')" "pendings S a" "\<And>w i. (w, i) \<in> S \<Longrightarrow> \<not> confirms m i"
  shows "pendings S a'"
  using assms
proof (cases m)
  case (ReportTransactionReceipts rs sk)
  then have "finish_pending_payable_scan now rs sk a = Some (out, a')" using assms(1) by (auto dest: respond_SomeD)
  then show ?thesis by (rule finish_pending_payable_scan_pendings [OF _ assms(2)]) (use assms(3) ReportTransactionReceipts in auto)
next
  case (SentPayables result sk)
  then show ?thesis using assms(1,2) by (auto dest!: respond_SomeD elim!: finish_payable_scan_pendings)
next
  case (ReportServicesConsumed ts ex n routing)
  then show ?thesis using assms(1,2) by (auto split: bind_splits elim!: handle_report_services_consumed_pendings)
next
  case (ReceivedPayments ts marker txs sk)
  then show ?thesis using assms(1,2) by (auto dest!: respond_SomeD finish_receivable_scan_payable)
next
  case (ScanError st sk)
  then show ?thesis using assms(1,2) by (cases st) (auto simp: handle_scan_error_def split: bind_splits option.splits if_splits)
next
  case (ScanFor st sk)
  then show ?thesis using assms(1,2) by (auto split: bind_splits dest!: handle_request_pendings)
next
  case (UiScanRequest st sk)
  then show ?thesis using assms(1,2) by (auto dest!: handle_request_pendings)
next
  case (PendingPayableFingerprintSeeds ts hs)
  then show ?thesis using assms(1,2)
    by (auto simp: handle_new_pending_payable_fingerprints_def split: bind_splits dest!: fingerprints_payable(2))
qed (auto split: bind_splits if_splits dest!: handle_report_service_provided_pendings
  simp: handle_wallets_update_def handle_payable_payment_setup_def search_for_indispensable_adjustment_def)

lemma sniffed_subset: "sniff_out_alarming_payables t now ps = Some qs \<Longrightarrow> q \<in> set qs \<Longrightarrow> q \<in> set ps"
  unfolding sniff_out_alarming_payables_def
proof (induction ps arbitrary: qs)
  case (Cons p ps)
  then show ?case by (fastforce split: bind_splits if_splits)
qed simp

lemma non_pending_payables_wallets:
  assumes "non_pending_payables db = Some ps" "pendings_ok S (ac_payable db)" "p \<in> set ps" "(w, i) \<in> S"
  shows "pa_wallet p \<noteq> w"
proof -
  from assms(1,3) obtain r where r: "r \<in> set (ac_payable db)" "py_pending_payable_rowid r = None" "payable_of_row r = Some p"
    unfolding non_pending_payables_def by (auto dest!: those_member)
  obtain r' where r': "r' \<in> set (ac_payable db)" "py_wallet_address r' = w" "py_pending_payable_rowid r' = Some i"
    using assms(2,4) by (auto simp: pendings_ok_def pending_in_def)
  have "py_wallet_address r \<noteq> py_wallet_address r'"
    using r(1,2) r'(1,3) assms(2) by (auto simp: pendings_ok_def distinct_map inj_on_def)
  then show ?thesis using r(3) r'(2) by (auto simp: payable_of_row_def split: bind_splits)
qed

text \<open>A message for the bridge with payables to be paid comes only from a scan that begins while none is running.\<close>

lemma handle_qualified:
  assumes "accountant_handle W now m a = Some (out, a')" "QualifiedPayables ps c sk \<in> set out"
  shows "at_payable_initiated_at_opt a = None \<and> (\<exists>all. non_pending_payables (at_db a) = Some all \<and> (\<forall>p\<in>set ps. p \<in> set all))"
proof -
  have b: "at_payable_initiated_at_opt a = None \<and> (\<exists>all. non_pending_payables (at_db a) = Some all \<and> (\<forall>p\<in>set ps. p \<in> set all))"
    if "handle_request_of_scan st now sko a = Some (out', a1)" "QualifiedPayables ps c sk \<in> set out'" for st sko out' a1
    using that by (cases st) (auto simp: handle_request_of_scan_def handle_request_of_scan_for_payable_def handle_request_of_scan_for_pending_payable_def
      handle_request_of_scan_for_receivable_def begin_payable_scan_def begin_pending_payable_scan_def begin_receivable_scan_def send_scan_message_def
      split: bind_splits option.splits if_splits sum.splits elim!: sniffed_subset)
  show ?thesis using assms
    by (cases m) (auto split: bind_splits if_splits option.splits elim!: b simp: respond_def handle_accountant_start_def handle_scan_error_def
      handle_payable_payment_setup_def search_for_indispensable_adjustment_def finish_payable_scan_def finish_pending_payable_scan_def
      finish_receivable_scan_def scan_response_def)
qed

lemma scan_running_kept:
  "handle_request_of_scan st now sko a = Some (out, a') \<Longrightarrow> at_payable_initiated_at_opt a = Some t \<Longrightarrow> at_payable_initiated_at_opt a' = Some t"
  "record_service_consumed W s b ts n w a = Some a' \<Longrightarrow> at_payable_initiated_at_opt a' = at_payable_initiated_at_opt a"
  "record_service_provided W s b ts n w a = Some a' \<Longrightarrow> at_payable_initiated_at_opt a' = at_payable_initiated_at_opt a"
  "finish_pending_payable_scan now rs sk a = Some (out, a') \<Longrightarrow> at_payable_initiated_at_opt a' = at_payable_initiated_at_opt a"
  "finish_receivable_scan W now ts marker txs sk a = Some (out, a') \<Longrightarrow> at_payable_initiated_at_opt a' = at_payable_initiated_at_opt a"
  by (cases st; auto simp: handle_request_of_scan_def handle_request_of_scan_for_payable_def handle_request_of_scan_for_pending_payable_def
      handle_request_of_scan_for_receivable_def begin_payable_scan_def begin_pending_payable_scan_def begin_receivable_scan_def send_scan_message_def
      split: bind_splits option.splits if_splits sum.splits)
    (auto simp: record_service_consumed_def record_service_provided_def finish_pending_payable_scan_def process_transactions_by_reported_state_def
      confirm_transactions_def cancel_failed_transactions_def update_remaining_fingerprints_def finish_receivable_scan_def
      handle_new_received_payments_def Let_def split: bind_splits if_splits sum.splits block_marker.splits)

lemma handle_report_services_consumed_running:
  assumes "handle_report_services_consumed W ts exit n routing a = Some a'"
  shows "at_payable_initiated_at_opt a' = at_payable_initiated_at_opt a"
proof -
  let ?I = "\<lambda>x. at_payable_initiated_at_opt x = at_payable_initiated_at_opt a"
  from assms show ?thesis unfolding handle_report_services_consumed_def
    by (auto split: bind_splits dest!: scan_running_kept(2) elim!: iter_each_invD [where I = ?I])
qed

lemma handle_scan_running:
  assumes "accountant_handle W now m a = Some (out, a')" "at_payable_initiated_at_opt a = Some t" "\<not> ends_payable_scan m"
  shows "at_payable_initiated_at_opt a' = Some t"
proof (cases m)
  case (ScanError st sk)
  then show ?thesis using assms by (cases st) (auto simp: handle_scan_error_def split: bind_splits option.splits if_splits)
next
  case (UpdateWallets c e)
  then show ?thesis using assms by (auto simp: handle_wallets_update_def)
qed (use assms in \<open>auto split: bind_splits if_splits dest!: respond_SomeD handle_report_services_consumed_running scan_running_kept(4,5)
    elim: scan_running_kept(1)
    simp: handle_report_service_provided_def scan_running_kept(3) handle_payable_payment_setup_def search_for_indispensable_adjustment_def
      handle_new_pending_payable_fingerprints_def\<close>)

lemma run_pendings:
  assumes "accountant_run W ms a = Some (outs, a')" "pendings S a" "\<forall>(now, m)\<in>set ms. \<forall>(w, i)\<in>S. \<not> confirms m i"
  shows "pendings S a' \<and> (\<forall>ps c sk w i. QualifiedPayables ps c sk \<in> set outs \<longrightarrow> (w, i) \<in> S \<longrightarrow> w \<notin> pa_wallet ` set ps)"
  using assms
proof (induction ms arbitrary: a outs)
  case (Cons x ms)
  obtain now m where x: "x = (now, m)" by (cases x)
  from Cons.prems(1) obtain out a1 outs1 where h: "accountant_handle W now m a = Some (out, a1)" "accountant_run W ms a1 = Some (outs1, a')"
    "outs = out @ outs1" unfolding x by (rule accountant_run_ConsE)
  have no: "\<not> confirms m i" if "(w, i) \<in> S" for w i using Cons.prems(3) that x by fastforce
  have "pendings S a1" using handle_pendings [OF h(1) Cons.prems(2) no] .
  then have rest: "pendings S a' \<and> (\<forall>ps c sk w i. QualifiedPayables ps c sk \<in> set outs1 \<longrightarrow> (w, i) \<in> S \<longrightarrow> w \<notin> pa_wallet ` set ps)"
    using Cons.IH [OF h(2)] Cons.prems(3) by simp
  have "w \<notin> pa_wallet ` set ps" if "QualifiedPayables ps c sk \<in> set out" "(w, i) \<in> S" for ps c sk w i
    using handle_qualified [OF h(1) that(1)] non_pending_payables_wallets [OF _ Cons.prems(2) _ that(2)] by auto
  then have "\<forall>ps c sk w i. QualifiedPayables ps c sk \<in> set out \<longrightarrow> (w, i) \<in> S \<longrightarrow> w \<notin> pa_wallet ` set ps" by blast
  with rest show ?case unfolding h(3) set_append Un_iff by blast
qed simp

lemma run_scan_running:
  assumes "accountant_run W ms a = Some (outs, a')" "at_payable_initiated_at_opt a = Some t" "\<forall>(now, m)\<in>set ms. \<not> ends_payable_scan m"
  shows "QualifiedPayables ps c sk \<notin> set outs"
  using assms
proof (induction ms arbitrary: a outs)
  case (Cons x ms)
  obtain now m where x: "x = (now, m)" by (cases x)
  from Cons.prems(1) obtain out a1 outs1 where h: "accountant_handle W now m a = Some (out, a1)" "accountant_run W ms a1 = Some (outs1, a')"
    "outs = out @ outs1" unfolding x by (rule accountant_run_ConsE)
  have "at_payable_initiated_at_opt a1 = Some t" using handle_scan_running [OF h(1) Cons.prems(2)] Cons.prems(3) x by simp
  then have "QualifiedPayables ps c sk \<notin> set outs1" using Cons.IH [OF h(2)] Cons.prems(3) by simp
  moreover have "QualifiedPayables ps c sk \<notin> set out" using handle_qualified [OF h(1)] Cons.prems(2) by auto
  ultimately show ?case using h(3) by simp
qed simp

section \<open>Sent payments are marked\<close>

lemma take_wallets_run:
  assumes "take_wallets hs sent = Some (ws, sent')"
  shows "length ws = length hs" "k < length hs \<Longrightarrow> fmlookup sent (hs ! k) = Some (ws ! k)"
proof -
  have "length ws = length hs \<and> (\<forall>k<length hs. fmlookup sent (hs ! k) = Some (ws ! k))"
    using assms
  proof (induction hs arbitrary: sent ws)
    case (Cons h hs)
    then obtain w ws1 where w: "fmlookup sent h = Some w" "take_wallets hs (fmdrop h sent) = Some (ws1, sent')" "ws = w # ws1"
      by (auto split: option.splits bind_splits)
    from Cons.IH [OF w(2)] have "length ws1 = length hs" "\<forall>k<length hs. fmlookup (fmdrop h sent) (hs ! k) = Some (ws1 ! k)" by auto
    then show ?case using w(1,3) by (auto simp: nth_Cons less_Suc_eq_0_disj split: if_splits nat.split)
  qed simp
  then show "length ws = length hs" "k < length hs \<Longrightarrow> fmlookup sent (hs ! k) = Some (ws ! k)" by auto
qed

lemma sent_lookup:
  assumes "distinct (map pe_hash ps)" "p \<in> set ps"
  shows "fmlookup (fmap_of_list (rev (map (\<lambda>p. (pe_hash p, pe_recipient_wallet p)) ps))) (pe_hash p) = Some (pe_recipient_wallet p)"
proof -
  have "distinct (map fst (rev (map (\<lambda>p. (pe_hash p, pe_recipient_wallet p)) ps)))" using assms(1) by (simp add: rev_map [symmetric] o_def)
  then show ?thesis using assms(2) by (auto simp: fmlookup_of_list intro!: map_of_is_SomeI)
qed

lemma separate_fingerprints_run:
  assumes "separate_existent_and_nonexistent_fingerprints ps db = Some (existent, [])" "distinct (map pe_hash ps)" "p \<in> set ps"
  shows "pe_recipient_wallet p \<in> fst ` set existent"
proof -
  define sent where "sent = fmap_of_list (rev (map (\<lambda>p. (pe_hash p, pe_recipient_wallet p)) ps))"
  define th where "th = fingerprints_rowids (map pe_hash ps) db"
  from assms(1) obtain ws sent1 sent2 where t: "take_wallets (map snd (th_rowid_results th)) sent = Some (ws, sent1)"
    "take_wallets (th_no_rowid_results th) sent1 = Some ([], sent2)" "existent = zip ws (map fst (th_rowid_results th))"
    unfolding separate_existent_and_nonexistent_fingerprints_def Let_def sent_def [symmetric] th_def [symmetric]
    by (auto split: bind_splits if_splits)
  have "th_no_rowid_results th = []" using take_wallets_run(1) [OF t(2)] by simp
  then have "pe_hash p \<in> set (map snd (th_rowid_results th))"
    using assms(3) by (auto simp: th_def fingerprints_rowids_def Let_def filter_empty_conv)
  then obtain k where k: "k < length (th_rowid_results th)" "map snd (th_rowid_results th) ! k = pe_hash p"
    by (auto simp: in_set_conv_nth)
  note run = take_wallets_run [OF t(1)]
  have "ws ! k = pe_recipient_wallet p" using run(2) [of k] k sent_lookup [OF assms(2,3)] by (simp add: sent_def)
  moreover have "ws ! k \<in> fst ` set existent" using k(1) run(1) by (auto simp: t(3) set_zip image_iff)
  ultimately show ?thesis by simp
qed

lemma mark_pending_payables_marks:
  assumes "mark_pending_payables_rowids prs db = Some db'" "distinct (map py_wallet_address (ac_payable db))" "w \<in> fst ` set prs"
  shows "\<exists>i. pending_in (ac_payable db') w i"
proof -
  define hit where "hit = (\<lambda>r :: payable_row. py_pending_payable_rowid r = None \<and> py_wallet_address r \<in> fst ` set prs)"
  have m: "length (filter hit (ac_payable db)) = length prs" "ac_payable db' = map (\<lambda>r. if hit r
      then r\<lparr>py_pending_payable_rowid := map_option uint (map_of prs (py_wallet_address r))\<rparr> else r) (ac_payable db)"
    using assms(1) by (auto simp: mark_pending_payables_rowids_def hit_def Let_def split: if_splits)
  have "distinct (map py_wallet_address (filter hit (ac_payable db)))" using assms(2) by (simp add: distinct_map_filter)
  then have "card (py_wallet_address ` set (filter hit (ac_payable db))) = length prs"
    using distinct_card [of "map py_wallet_address (filter hit (ac_payable db))"] m(1) by simp
  moreover have "card (fst ` set prs) \<le> length prs" using card_length [of "map fst prs"] by simp
  moreover have "py_wallet_address ` set (filter hit (ac_payable db)) \<subseteq> fst ` set prs" by (auto simp: hit_def)
  ultimately have "py_wallet_address ` set (filter hit (ac_payable db)) = fst ` set prs" by (intro card_seteq) auto
  with assms(3) have "w \<in> py_wallet_address ` set (filter hit (ac_payable db))" by simp
  then obtain r where r: "r \<in> set (ac_payable db)" "hit r" "py_wallet_address r = w" by auto
  obtain i where "map_of prs w = Some i" using assms(3) by (metis map_of_eq_None_iff option.exhaust)
  moreover have "(if hit r then r\<lparr>py_pending_payable_rowid := map_option uint (map_of prs (py_wallet_address r))\<rparr> else r) \<in> set (ac_payable db')"
    unfolding m(2) set_map using r(1) by (rule imageI)
  ultimately have "pending_in (ac_payable db') w (uint i)" using r(2,3) unfolding pending_in_def by (intro bexI) auto
  then show ?thesis ..
qed

lemma add_rpc_results: "fst (fold add_rpc_result rs acc) = fst acc @ [p. Correct p \<leftarrow> rs]"
  by (induction rs arbitrary: acc) (auto simp: add_rpc_result_def split: processed_payable_fallible.split)

lemma finish_payable_scan_marks:
  assumes "finish_payable_scan W now (Inr rs) sk a = Some (out, a')" "pendings {} a"
    "distinct (map pe_hash [p. Correct p \<leftarrow> rs])" "Correct p \<in> set rs" "wallet_address W (pe_recipient_wallet p) = Some w"
  shows "\<exists>i. pending_in (ac_payable (at_db a')) w i"
proof -
  let ?ps = "[p. Correct p \<leftarrow> rs]"
  have p: "p \<in> set ?ps" using assms(4) by force
  obtain db1 db2 e where d: "mark_pending_payable W ?ps (at_db a) = Some db1" "handle_sent_payable_errors e db1 = Some db2"
    "at_db a' = db2"
    using assms(1) add_rpc_results [of rs "([], [])"] p
    by (auto simp: finish_payable_scan_def separate_errors_def split: bind_splits if_splits prod.splits)
  from d(1) obtain existent where sep: "separate_existent_and_nonexistent_fingerprints ?ps (at_db a) = Some (existent, [])"
    by (auto simp: mark_pending_payable_def split: bind_splits if_splits)
  have ex: "pe_recipient_wallet p \<in> fst ` set existent" by (rule separate_fingerprints_run [OF sep assms(3) p])
  then have "existent \<noteq> []" by auto
  then obtain addresses where ad: "those (map (\<lambda>(w, _). wallet_address W w) existent) = Some addresses"
    "mark_pending_payables_rowids (zip addresses (map snd existent)) (at_db a) = Some db1"
    using d(1) sep by (auto simp: mark_pending_payable_def split: bind_splits if_splits)
  have l: "list_all2 (\<lambda>x y. wallet_address W (fst x) = Some y) existent addresses"
    using those_all2 [OF ad(1)] by (rule list_all2_mono) auto
  obtain k where k: "k < length existent" "fst (existent ! k) = pe_recipient_wallet p" using ex by (auto simp: in_set_conv_nth image_iff)
  then have "addresses ! k = w" "length addresses = length existent" using l assms(5) by (auto simp: list_all2_conv_all_nth)
  then have "w \<in> fst ` set (zip addresses (map snd existent))" using k(1) by (auto simp: set_zip image_iff)
  from mark_pending_payables_marks [OF ad(2) _ this] assms(2) obtain i where "pending_in (ac_payable db1) w i" by (auto simp: pendings_ok_def)
  then show ?thesis using handle_sent_payable_errors_payable [OF d(2)] d(3) by auto
qed




definition sample_thresholds :: payment_thresholds where
  "sample_thresholds = \<lparr>debt_threshold_gwei = 1000000000, maturity_threshold_sec = 1200, payment_grace_period_sec = 1200,
     permanent_debt_allowed_gwei = 500000000, threshold_interval_sec = 21600, unban_below_gwei = 500000000\<rparr>"

text \<open>An accountant whose payment to the wallet 5 is being sent, while the wallet 6 is owed as much.\<close>

definition sample_accountant :: accountant where
  "sample_accountant = (accountant_new False (Some (WalletAddress 1)) (WalletAddress 2) sample_thresholds
     \<lparr>ac_receivable = [], ac_payable = [\<lparr>py_wallet_address = 5, py_balance_high_b = 1, py_balance_low_b = 0, py_last_paid_timestamp = 0,
         py_pending_payable_rowid = None\<rparr>, \<lparr>py_wallet_address = 6, py_balance_high_b = 1, py_balance_low_b = 0, py_last_paid_timestamp = 0,
         py_pending_payable_rowid = None\<rparr>],
       ac_pending_payable = [\<lparr>pp_rowid = 1, pp_transaction_hash = 7, pp_amount_high_b = 1, pp_amount_low_b = 0, pp_payable_timestamp = 90000,
         pp_attempt = 1, pp_process_error = None\<rparr>],
       ac_banned = [], ac_ban_cache = {||}, ac_start_block = None\<rparr>)\<lparr>at_payable_initiated_at_opt := Some 90000, at_bound := True\<rparr>"


end
