(* ===== verification/Bookkeeping.thy ===== *)
theory Bookkeeping
  imports Accountant
begin

text \<open>
  What the accountant records: the reports of services are added up exactly in the tables of receivables and payables, and the scan
  for receivables bans exactly the delinquent wallets.
\<close>

section \<open>Recording services\<close>

definition charge :: "wallet_ops \<Rightarrow> accountant \<Rightarrow> wallet \<Rightarrow> int \<Rightarrow> (address \<times> int) list" where
  "charge W a wallet n = (if our_wallet W a wallet = Some True then [] else [(the (wallet_address W wallet), n)])"

definition post :: "(address \<times> int) list \<Rightarrow> (address \<Rightarrow> int) \<Rightarrow> address \<Rightarrow> int" where
  "post charges = fold (\<lambda>(w, n) ledger. ledger(w := ledger w + n)) charges"

lemma post_append [simp]: "post (xs @ ys) ledger = post ys (post xs ledger)"
  by (simp add: post_def)

lemma post_Nil [simp]: "post [] ledger = ledger"
  by (simp add: post_def)

lemma post_le: "\<forall>x\<in>set xs. 0 \<le> snd x \<Longrightarrow> post xs ledger w \<le> ledger w + sum_list (map snd xs)"
proof (induction xs arbitrary: ledger)
  case (Cons x xs)
  then have "post xs (ledger(fst x := ledger (fst x) + snd x)) w \<le> (ledger(fst x := ledger (fst x) + snd x)) w + sum_list (map snd xs)"
    by (simp del: fun_upd_apply)
  also have "\<dots> \<le> ledger w + sum_list (map snd (x # xs))" using Cons.prems by simp
  finally show ?case by (cases x) (simp add: post_def)
qed simp

fun receivable_charges :: "wallet_ops \<Rightarrow> accountant \<Rightarrow> 'g accountant_message \<Rightarrow> (address \<times> int) list" where
  "receivable_charges W a (ReportRoutingServiceProvided msg) =
     charge W a (rrs_paying_wallet msg) (total_charge (rrs_service_rate msg) (rrs_byte_rate msg) (rrs_payload_size msg))"
| "receivable_charges W a (ReportExitServiceProvided msg) =
     charge W a (rrs_paying_wallet msg) (total_charge (rrs_service_rate msg) (rrs_byte_rate msg) (rrs_payload_size msg))"
| "receivable_charges W a _ = []"

fun payable_charges :: "wallet_ops \<Rightarrow> accountant \<Rightarrow> 'g accountant_message \<Rightarrow> (address \<times> int) list" where
  "payable_charges W a (ReportServicesConsumed timestamp exit n routing) =
     charge W a (esc_earning_wallet exit) (total_charge (esc_service_rate exit) (esc_byte_rate exit) (esc_payload_size exit)) @
     concat (map (\<lambda>r. charge W a (rsc_earning_wallet r) (total_charge (rsc_service_rate r) (rsc_byte_rate r) n)) routing)"
| "payable_charges W a _ = []"

abbreviation time_ok :: "int \<Rightarrow> bool" where
  "time_ok ts \<equiv> 0 \<le> ts \<and> ts < 2 ^ 63"

definition initialized :: "wallet \<Rightarrow> bool" where
  "initialized w \<longleftrightarrow> w \<noteq> WalletUninitialized"

fun service_report :: "'g accountant_message \<Rightarrow> bool" where
  "service_report (ReportRoutingServiceProvided msg) \<longleftrightarrow> initialized (rrs_paying_wallet msg) \<and> time_ok (rrs_timestamp msg)"
| "service_report (ReportExitServiceProvided msg) \<longleftrightarrow> initialized (rrs_paying_wallet msg) \<and> time_ok (rrs_timestamp msg)"
| "service_report (ReportServicesConsumed ts exit n routing) \<longleftrightarrow> time_ok ts \<and> initialized (esc_earning_wallet exit) \<and>
     list_all (\<lambda>r. initialized (rsc_earning_wallet r)) routing"
| "service_report _ \<longleftrightarrow> False"

definition own_wallets_ok :: "accountant \<Rightarrow> bool" where
  "own_wallets_ok a \<longleftrightarrow> initialized (at_earning_wallet a) \<and> (\<forall>w. at_consuming_wallet_opt a = Some w \<longrightarrow> initialized w)"

lemma initialized_address: "initialized w \<longleftrightarrow> wallet_address W w \<noteq> None"
  by (cases w) (auto simp: initialized_def)

lemma our_wallet_run:
  assumes "own_wallets_ok a" "initialized w"
  shows "\<exists>ours. our_wallet W a w = Some ours"
proof -
  obtain e where e: "wallet_address W (at_earning_wallet a) = Some e" using assms(1) initialized_address [of "at_earning_wallet a" W]
    by (auto simp: own_wallets_ok_def)
  obtain x where x: "wallet_address W w = Some x" using assms(2) initialized_address [of w W] by auto
  show ?thesis
  proof (cases "at_consuming_wallet_opt a")
    case (Some c)
    then obtain y where "wallet_address W c = Some y" using assms(1) initialized_address [of c W] by (auto simp: own_wallets_ok_def)
    then show ?thesis using Some e x by (cases "y = x") (auto simp: our_wallet_def intro: exI [of _ True])
  qed (use e x in \<open>simp add: our_wallet_def\<close>)
qed

lemma our_wallet_db [simp]: "our_wallet W (a\<lparr>at_db := db\<rparr>) w = our_wallet W a w"
  by (simp add: our_wallet_def cong: if_cong)

lemma total_charge_nonneg: "0 \<le> total_charge s b n"
  by (simp add: total_charge_def wrap_u128_def)

text \<open>Room for charges in every balance.\<close>

definition room :: "(address \<Rightarrow> int) \<Rightarrow> (address \<times> int) list \<Rightarrow> bool" where
  "room ledger cs \<longleftrightarrow> (\<forall>x\<in>set cs. 0 \<le> snd x) \<and> sum_list (map snd cs) < 2 ^ 126 \<and> (\<forall>w. ledger w + sum_list (map snd cs) < 2 ^ 126)"

lemma sum_nonneg: "\<forall>x\<in>set cs. 0 \<le> snd x \<Longrightarrow> 0 \<le> sum_list (map snd cs :: int list)"
  by (induction cs) auto

lemma room_append:
  assumes "room ledger (xs @ ys)"
  shows "room ledger xs" "room (post xs ledger) ys"
proof -
  have p: "\<forall>x\<in>set xs. 0 \<le> snd x" "\<forall>x\<in>set ys. 0 \<le> snd x" and s: "sum_list (map snd xs) + sum_list (map snd ys) < 2 ^ 126"
    "\<And>w. ledger w + (sum_list (map snd xs) + sum_list (map snd ys)) < 2 ^ 126" using assms by (auto simp: room_def)
  note n = sum_nonneg [OF p(1)] sum_nonneg [OF p(2)]
  have "ledger w + sum_list (map snd xs) < 2 ^ 126" for w using s(2) [of w] n by linarith
  moreover have "sum_list (map snd xs) < 2 ^ 126" using s(1) n by linarith
  ultimately show "room ledger xs" using p(1) by (simp add: room_def)
  have "post xs ledger w + sum_list (map snd ys) < 2 ^ 126" for w using s(2) [of w] post_le [OF p(1), of ledger w] by linarith
  moreover have "sum_list (map snd ys) < 2 ^ 126" using s(1) n by linarith
  ultimately show "room (post xs ledger) ys" using p(2) by (simp add: room_def)
qed

lemma record_service_provided_run:
  assumes own: "own_wallets_ok a" and w: "initialized w" and ts: "time_ok ts" and ok: "receivables_ok db"
    and room: "room (receivable_book db) (charge W a w (total_charge s b n))"
  shows "\<exists>rows. record_service_provided W s b ts n w (a\<lparr>at_db := db\<rparr>) = Some (a\<lparr>at_db := db\<lparr>ac_receivable := rows\<rparr>\<rparr>) \<and>
    table_ok rr_wallet_address rr_columns rows \<and>
    book rr_wallet_address rr_columns rows = post (charge W a w (total_charge s b n)) (receivable_book db)"
proof -
  obtain ours where o: "our_wallet W a w = Some ours" using our_wallet_run [OF own w] by blast
  show ?thesis
  proof (cases ours)
    case True
    then show ?thesis using o ok by (intro exI [of _ "ac_receivable db"]) (simp add: record_service_provided_def charge_def)
  next
    case False
    obtain address where ad: "wallet_address W w = Some address" using w initialized_address [of w W] by auto
    have c: "charge W a w (total_charge s b n) = [(address, total_charge s b n)]" using o False ad by (simp add: charge_def)
    obtain rows where "more_money_receivable ts address (total_charge s b n) db = Some (Inr (), db\<lparr>ac_receivable := rows\<rparr>)"
      "table_ok rr_wallet_address rr_columns rows" "book rr_wallet_address rr_columns rows =
        (receivable_book db)(address := receivable_book db address + total_charge s b n)"
      using more_money_receivable_run [OF ok, of ts "total_charge s b n" address] ts room total_charge_nonneg [of s b n] by (auto simp: c room_def)
    then show ?thesis using o False ad by (intro exI [of _ rows]) (simp add: c record_service_provided_def post_def)
  qed
qed

lemma record_service_consumed_run:
  assumes own: "own_wallets_ok a" and w: "initialized w" and ts: "time_ok ts" and ok: "payables_ok db"
    and room: "room (payable_book db) (charge W a w (total_charge s b n))"
  shows "\<exists>rows. record_service_consumed W s b ts n w (a\<lparr>at_db := db\<rparr>) = Some (a\<lparr>at_db := db\<lparr>ac_payable := rows\<rparr>\<rparr>) \<and>
    table_ok py_wallet_address py_columns rows \<and>
    book py_wallet_address py_columns rows = post (charge W a w (total_charge s b n)) (payable_book db)"
proof -
  obtain ours where o: "our_wallet W a w = Some ours" using our_wallet_run [OF own w] by blast
  show ?thesis
  proof (cases ours)
    case True
    then show ?thesis using o ok by (intro exI [of _ "ac_payable db"]) (simp add: record_service_consumed_def charge_def)
  next
    case False
    obtain address where ad: "wallet_address W w = Some address" using w initialized_address [of w W] by auto
    have c: "charge W a w (total_charge s b n) = [(address, total_charge s b n)]" using o False ad by (simp add: charge_def)
    obtain rows where "more_money_payable ts address (total_charge s b n) db = Some (Inr (), db\<lparr>ac_payable := rows\<rparr>)"
      "table_ok py_wallet_address py_columns rows" "book py_wallet_address py_columns rows =
        (payable_book db)(address := payable_book db address + total_charge s b n)"
      using more_money_payable_run [OF ok, of ts "total_charge s b n" address] ts room total_charge_nonneg [of s b n] by (auto simp: c room_def)
    then show ?thesis using o False ad by (intro exI [of _ rows]) (simp add: c record_service_consumed_def post_def)
  qed
qed

lemma routing_consumed_run:
  assumes own: "own_wallets_ok a" and ts: "time_ok ts"
  shows "list_all (\<lambda>r. initialized (rsc_earning_wallet r)) routing \<Longrightarrow> payables_ok db \<Longrightarrow>
    room (payable_book db) (concat (map (\<lambda>r. charge W a (rsc_earning_wallet r) (total_charge (rsc_service_rate r) (rsc_byte_rate r) n)) routing)) \<Longrightarrow>
    \<exists>rows. iter_each (\<lambda>r a'. record_service_consumed W (rsc_service_rate r) (rsc_byte_rate r) ts n (rsc_earning_wallet r) a') routing
        (a\<lparr>at_db := db\<rparr>) = Some (a\<lparr>at_db := db\<lparr>ac_payable := rows\<rparr>\<rparr>) \<and> table_ok py_wallet_address py_columns rows \<and>
      book py_wallet_address py_columns rows =
        post (concat (map (\<lambda>r. charge W a (rsc_earning_wallet r) (total_charge (rsc_service_rate r) (rsc_byte_rate r) n)) routing)) (payable_book db)"
proof (induction routing arbitrary: db)
  case Nil
  then show ?case by (intro exI [of _ "ac_payable db"]) simp
next
  case (Cons r routing)
  note room = Cons.prems(3) [unfolded list.map concat.simps]
  obtain rows where rows: "record_service_consumed W (rsc_service_rate r) (rsc_byte_rate r) ts n (rsc_earning_wallet r) (a\<lparr>at_db := db\<rparr>) =
      Some (a\<lparr>at_db := db\<lparr>ac_payable := rows\<rparr>\<rparr>)" "table_ok py_wallet_address py_columns rows"
    "book py_wallet_address py_columns rows =
      post (charge W a (rsc_earning_wallet r) (total_charge (rsc_service_rate r) (rsc_byte_rate r) n)) (payable_book db)"
    using record_service_consumed_run [OF own _ ts Cons.prems(2) room_append(1) [OF room]] Cons.prems(1) by auto
  have "payables_ok (db\<lparr>ac_payable := rows\<rparr>)" "room (payable_book (db\<lparr>ac_payable := rows\<rparr>))
      (concat (map (\<lambda>r. charge W a (rsc_earning_wallet r) (total_charge (rsc_service_rate r) (rsc_byte_rate r) n)) routing))"
    using rows room_append(2) [OF room] by simp_all
  from Cons.IH [OF _ this] Cons.prems(1) rows show ?case by auto
qed


lemma handle_report_run:
  assumes own: "own_wallets_ok a" and report: "service_report m" and ok: "receivables_ok db" "payables_ok db"
    and room: "room (receivable_book db) (receivable_charges W a m)" "room (payable_book db) (payable_charges W a m)"
  shows "\<exists>db'. accountant_handle W now m (a\<lparr>at_db := db\<rparr>) = Some ([], a\<lparr>at_db := db'\<rparr>) \<and> receivables_ok db' \<and> payables_ok db' \<and>
    receivable_book db' = post (receivable_charges W a m) (receivable_book db) \<and>
    payable_book db' = post (payable_charges W a m) (payable_book db)"
proof -
  have provided: ?thesis if "m = ReportRoutingServiceProvided msg \<or> m = ReportExitServiceProvided msg" for msg
  proof -
    have m: "initialized (rrs_paying_wallet msg)" "time_ok (rrs_timestamp msg)" "payable_charges W a m = []" "receivable_charges W a m =
        charge W a (rrs_paying_wallet msg) (total_charge (rrs_service_rate msg) (rrs_byte_rate msg) (rrs_payload_size msg))"
      using report that by auto
    obtain rows where "record_service_provided W (rrs_service_rate msg) (rrs_byte_rate msg) (rrs_timestamp msg) (rrs_payload_size msg)
        (rrs_paying_wallet msg) (a\<lparr>at_db := db\<rparr>) = Some (a\<lparr>at_db := db\<lparr>ac_receivable := rows\<rparr>\<rparr>)"
      "table_ok rr_wallet_address rr_columns rows" "book rr_wallet_address rr_columns rows = post (receivable_charges W a m) (receivable_book db)"
      using record_service_provided_run [OF own m(1,2) ok(1) room(1) [unfolded m(4)]] unfolding m(4) by blast
    then show ?thesis using that ok(2) m(3) by (intro exI [of _ "db\<lparr>ac_receivable := rows\<rparr>"]) (auto simp: handle_report_service_provided_def)
  qed
  show ?thesis
  proof (cases m)
    case (ReportServicesConsumed ts exit n routing)
    have m: "time_ok ts" "initialized (esc_earning_wallet exit)" "list_all (\<lambda>r. initialized (rsc_earning_wallet r)) routing"
      using report ReportServicesConsumed by auto
    note rm = room(2) [unfolded ReportServicesConsumed payable_charges.simps]
    obtain rows where rows: "record_service_consumed W (esc_service_rate exit) (esc_byte_rate exit) ts (esc_payload_size exit)
        (esc_earning_wallet exit) (a\<lparr>at_db := db\<rparr>) = Some (a\<lparr>at_db := db\<lparr>ac_payable := rows\<rparr>\<rparr>)"
      "table_ok py_wallet_address py_columns rows" "book py_wallet_address py_columns rows = post (charge W a (esc_earning_wallet exit)
        (total_charge (esc_service_rate exit) (esc_byte_rate exit) (esc_payload_size exit))) (payable_book db)"
      using record_service_consumed_run [OF own m(2,1) ok(2) room_append(1) [OF rm]] by blast
    have k1: "payables_ok (db\<lparr>ac_payable := rows\<rparr>)" using rows(2) by simp
    have k2: "room (payable_book (db\<lparr>ac_payable := rows\<rparr>))
        (concat (map (\<lambda>r. charge W a (rsc_earning_wallet r) (total_charge (rsc_service_rate r) (rsc_byte_rate r) n)) routing))"
      using room_append(2) [OF rm] rows(3) by simp
    from routing_consumed_run [OF own m(1,3) k1 k2] obtain rows' where "iter_each (\<lambda>r a'. record_service_consumed W (rsc_service_rate r) (rsc_byte_rate r) ts n (rsc_earning_wallet r) a') routing
        (a\<lparr>at_db := db\<lparr>ac_payable := rows\<rparr>\<rparr>) = Some (a\<lparr>at_db := db\<lparr>ac_payable := rows'\<rparr>\<rparr>)" "table_ok py_wallet_address py_columns rows'"
      "book py_wallet_address py_columns rows' = post (payable_charges W a m) (payable_book db)"
      using rows(3) by (auto simp: ReportServicesConsumed)
    then show ?thesis using rows(1) ok(1) ReportServicesConsumed
      by (intro exI [of _ "db\<lparr>ac_payable := rows'\<rparr>"]) (simp add: handle_report_services_consumed_def)
  qed (use report provided in auto)
qed

text \<open>
  C8. The books are exact. Whatever reports of services the accountant gets, in any number and order, it handles them
  all without a panic, and the balance of every wallet in the two tables changes by the sum of what the reports charge to it: the rate of the service and the
  rate per byte for every byte, nothing for the two wallets of its own. The balances are kept in two 64-bit columns, and a carry between them
  is made by a second statement after the first has failed. What is needed is that the wallets are initialized and that no
  balance leaves the 126 bits that the columns have.
\<close>

theorem services_recorded:
  assumes "own_wallets_ok a" "receivables_ok (at_db a)" "payables_ok (at_db a)"
    and "\<forall>(now, m)\<in>set ms. service_report m"
    and "room (receivable_book (at_db a)) (concat (map (\<lambda>(now, m). receivable_charges W a m) ms))"
    and "room (payable_book (at_db a)) (concat (map (\<lambda>(now, m). payable_charges W a m) ms))"
  shows "\<exists>db. accountant_run W ms a = Some ([], a\<lparr>at_db := db\<rparr>) \<and> receivables_ok db \<and> payables_ok db \<and>
    receivable_book db = post (concat (map (\<lambda>(now, m). receivable_charges W a m) ms)) (receivable_book (at_db a)) \<and>
    payable_book db = post (concat (map (\<lambda>(now, m). payable_charges W a m) ms)) (payable_book (at_db a))"
proof -
  have "\<exists>db'. accountant_run W ms (a\<lparr>at_db := db\<rparr>) = Some ([], a\<lparr>at_db := db'\<rparr>) \<and> receivables_ok db' \<and> payables_ok db' \<and>
      receivable_book db' = post (concat (map (\<lambda>(now, m). receivable_charges W a m) ms)) (receivable_book db) \<and>
      payable_book db' = post (concat (map (\<lambda>(now, m). payable_charges W a m) ms)) (payable_book db)"
    if "receivables_ok db" "payables_ok db" "room (receivable_book db) (concat (map (\<lambda>(now, m). receivable_charges W a m) ms))"
      "room (payable_book db) (concat (map (\<lambda>(now, m). payable_charges W a m) ms))" for db
    using assms(4) that
  proof (induction ms arbitrary: db)
    case (Cons x ms)
    obtain now m where x: "x = (now, m)" by (cases x)
    note room = Cons.prems(4,5) [unfolded x list.map concat.simps prod.case]
    obtain db1 where db1: "accountant_handle W now m (a\<lparr>at_db := db\<rparr>) = Some ([], a\<lparr>at_db := db1\<rparr>)" "receivables_ok db1" "payables_ok db1"
      "receivable_book db1 = post (receivable_charges W a m) (receivable_book db)"
      "payable_book db1 = post (payable_charges W a m) (payable_book db)"
      using handle_report_run [OF assms(1) _ Cons.prems(2,3) room_append(1) [OF room(1)] room_append(1) [OF room(2)]] Cons.prems(1) x by auto
    from Cons.IH [OF _ db1(2,3)] room_append(2) [OF room(1)] room_append(2) [OF room(2)] Cons.prems(1) db1 show ?case
      by (auto simp: x)
  qed auto
  from this [OF assms(2,3,5,6)] show ?thesis by simp
qed


theorem services_recorded_witness:
  "\<exists>a. accountant_run sample_wallet_ops
      [(1, ReportRoutingServiceProvided \<lparr>rrs_timestamp = 1, rrs_paying_wallet = WalletAddress 5, rrs_payload_size = 10, rrs_service_rate = 100, rrs_byte_rate = 7\<rparr>),
       (2, ReportServicesConsumed 2 \<lparr>esc_earning_wallet = WalletAddress 6, esc_payload_size = 3, esc_service_rate = 1, esc_byte_rate = 2\<rparr> 4
         [\<lparr>rsc_earning_wallet = WalletAddress 2, rsc_service_rate = 5, rsc_byte_rate = 5\<rparr>,
          \<lparr>rsc_earning_wallet = WalletAddress 6, rsc_service_rate = 1, rsc_byte_rate = 1\<rparr>])]
      (accountant_new True None (WalletAddress 2) DEFAULT_PAYMENT_THRESHOLDS \<lparr>ac_receivable = [], ac_payable = [], ac_pending_payable = [],
        ac_banned = [], ac_ban_cache = {||}, ac_start_block = None\<rparr>) = Some ([] :: unit accountant_output list, a) \<and>
    receivable_book (at_db a) 5 = 170 \<and> payable_book (at_db a) 6 = 12 \<and> payable_book (at_db a) 2 = 0"
proof -
  let ?a = "accountant_new True None (WalletAddress 2) DEFAULT_PAYMENT_THRESHOLDS \<lparr>ac_receivable = [], ac_payable = [], ac_pending_payable = [],
    ac_banned = [], ac_ban_cache = {||}, ac_start_block = None\<rparr>"
  let ?ms = "[(1, ReportRoutingServiceProvided \<lparr>rrs_timestamp = 1, rrs_paying_wallet = WalletAddress 5, rrs_payload_size = 10, rrs_service_rate = 100, rrs_byte_rate = 7\<rparr>),
       (2, ReportServicesConsumed 2 \<lparr>esc_earning_wallet = WalletAddress 6, esc_payload_size = 3, esc_service_rate = 1, esc_byte_rate = 2\<rparr> 4
         [\<lparr>rsc_earning_wallet = WalletAddress 2, rsc_service_rate = 5, rsc_byte_rate = 5\<rparr>,
          \<lparr>rsc_earning_wallet = WalletAddress 6, rsc_service_rate = 1, rsc_byte_rate = 1\<rparr>])] :: (int \<times> unit accountant_message) list"
  have rc: "concat (map (\<lambda>(now, m). receivable_charges sample_wallet_ops ?a m) ?ms) = [(5, 170)]"
    by (simp add: charge_def our_wallet_def accountant_new_def total_charge_def wrap_u128_def)
  have pc: "concat (map (\<lambda>(now, m). payable_charges sample_wallet_ops ?a m) ?ms) = [(6, 7), (6, 5)]"
    by (simp add: charge_def our_wallet_def accountant_new_def total_charge_def wrap_u128_def)
  have b: "receivable_book (at_db ?a) w = 0" "payable_book (at_db ?a) w = 0" for w by (simp_all add: accountant_new_def book_def)
  have "own_wallets_ok ?a" "receivables_ok (at_db ?a)" "payables_ok (at_db ?a)" "\<forall>(now, m)\<in>set ?ms. service_report m"
    by (simp_all add: own_wallets_ok_def accountant_new_def initialized_def table_ok_def)
  moreover have "room (receivable_book (at_db ?a)) [(5, 170)]" "room (payable_book (at_db ?a)) [(6, 7), (6, 5)]" by (simp_all add: room_def b)
  ultimately obtain db where "accountant_run sample_wallet_ops ?ms ?a = Some ([], ?a\<lparr>at_db := db\<rparr>)"
    "receivable_book db = post [(5, 170)] (receivable_book (at_db ?a))" "payable_book db = post [(6, 7), (6, 5)] (payable_book (at_db ?a))"
    using services_recorded [of ?a ?ms sample_wallet_ops, unfolded rc pc] by blast
  then show ?thesis using b by (intro exI [of _ "?a\<lparr>at_db := db\<rparr>"]) (simp add: post_def)
qed

section \<open>The scan for delinquencies\<close>

definition cache_ok :: "accounts \<Rightarrow> bool" where
  "cache_ok db \<longleftrightarrow> (\<forall>w. is_banned w db \<longleftrightarrow> w \<in> set (ac_banned db))"

lemma ban_run: "cache_ok db \<Longrightarrow> cache_ok (ban w db) \<and> set (ac_banned (ban w db)) = insert w (set (ac_banned db)) \<and>
    ac_receivable (ban w db) = ac_receivable db"
  by (auto simp: cache_ok_def ban_def is_banned_def)

lemma unban_run: "cache_ok db \<Longrightarrow> cache_ok (unban w db) \<and> set (ac_banned (unban w db)) = set (ac_banned db) - {w} \<and>
    ac_receivable (unban w db) = ac_receivable db"
  by (auto simp: cache_ok_def unban_def is_banned_def)

definition loggable :: "receivable_account \<Rightarrow> bool" where
  "loggable account \<longleftrightarrow> wei_to_gwei I64 (ra_balance_wei account) \<noteq> None"

lemma wei_to_gwei_run: "- (9 * 10 ^ 27) \<le> n \<Longrightarrow> n \<le> 9 * 10 ^ 27 \<Longrightarrow> wei_to_gwei I64 n \<noteq> None"
proof -
  assume n: "- (9 * 10 ^ 27) \<le> n" "n \<le> 9 * 10 ^ 27"
  have "n sdiv 1000000000 = (if 0 \<le> n then n div 1000000000 else - (- n div 1000000000))"
    using sdiv_neg [of "- n" 1000000000] by (auto simp: signed_divide_int_def sgn_if)
  moreover have "\<bar>n\<bar> div 1000000000 \<le> 9 * 10 ^ 18" using n by (auto simp: abs_if)
  moreover have "0 \<le> \<bar>n\<bar> div 1000000000" by simp
  ultimately have "in_type I64 (n sdiv 1000000000)" by (auto simp: in_type_def split: if_splits)
  then show ?thesis by (simp add: wei_to_gwei_def WEIS_IN_GWEI_def checked_conversion_def sign_conversion_def)
qed

lemma ban_all_run:
  assumes "\<forall>account\<in>set ds. loggable account" "cache_ok db"
  shows "\<exists>db'. iter_each (\<lambda>account db'. do { _ \<leftarrow> wei_to_gwei I64 (ra_balance_wei account); ret (ban (ra_wallet account) db') }) ds db = Some db' \<and>
    cache_ok db' \<and> set (ac_banned db') = set (ac_banned db) \<union> ra_wallet ` set ds \<and> ac_receivable db' = ac_receivable db"
  using assms
proof (induction ds arbitrary: db)
  case (Cons d ds)
  have "\<forall>account\<in>set ds. loggable account" using Cons.prems(1) by simp
  from Cons.IH [OF this, of "ban (ra_wallet d) db"] Cons.prems ban_run [of db "ra_wallet d"] show ?case by (auto simp: loggable_def)
qed simp

lemma unban_all_run:
  assumes "\<forall>account\<in>set ds. loggable account" "cache_ok db"
  shows "\<exists>db'. iter_each (\<lambda>account db'. do { _ \<leftarrow> wei_to_gwei I64 (ra_balance_wei account); ret (unban (ra_wallet account) db') }) ds db = Some db' \<and>
    cache_ok db' \<and> set (ac_banned db') = set (ac_banned db) - ra_wallet ` set ds \<and> ac_receivable db' = ac_receivable db"
  using assms
proof (induction ds arbitrary: db)
  case (Cons d ds)
  have "\<forall>account\<in>set ds. loggable account" using Cons.prems(1) by simp
  from Cons.IH [OF this, of "unban (ra_wallet d) db"] Cons.prems unban_run [of db "ra_wallet d"] show ?case by (auto simp: loggable_def)
qed simp

definition receivables_readable :: "accounts \<Rightarrow> bool" where
  "receivables_readable db \<longleftrightarrow> receivables_ok db \<and> (\<forall>r\<in>set (ac_receivable db). 0 \<le> rr_last_received_timestamp r \<and>
     rr_last_received_timestamp r < 2 ^ 63 \<and> - (9 * 10 ^ 27) \<le> wei_of (rr_columns r) \<and> wei_of (rr_columns r) \<le> 9 * 10 ^ 27)"

lemma readable_loggable: "receivables_readable db \<Longrightarrow> r \<in> set (ac_receivable db) \<Longrightarrow> loggable (receivable_of_row r)"
  by (simp add: receivables_readable_def loggable_def receivable_of_row_def wei_to_gwei_run)

lemma scan_for_delinquencies_run:
  assumes fit: "thresholds_fit t" "gwei_to_wei (uint (permanent_debt_allowed_gwei t)) < 2 ^ 63" "0 \<le> now" "now < 2 ^ 63"
    and db: "receivables_readable db" "cache_ok db"
  shows "\<exists>db'. scan_for_delinquencies now t db = Some db' \<and> cache_ok db' \<and> ac_receivable db' = ac_receivable db \<and>
    set (ac_banned db') = (set (ac_banned db) \<union> rr_wallet_address ` {r \<in> set (ac_receivable db). delinquent now t db r}) -
      rr_wallet_address ` {r \<in> set (ac_receivable db). wei_of (rr_columns r) \<le> gwei_to_wei (uint (unban_below_gwei t))}"
proof -
  let ?ds = "map receivable_of_row (filter (delinquent now t db) (ac_receivable db))"
  have wallet: "ra_wallet (receivable_of_row r) = rr_wallet_address r" for r by (simp add: receivable_of_row_def)
  have nd: "new_delinquencies now t db = Some ?ds" using db(1) by (intro new_delinquencies_run [OF fit]) (auto simp: receivables_readable_def)
  have "\<forall>account\<in>set ?ds. loggable account" using readable_loggable [OF db(1)] by auto
  from ban_all_run [OF this db(2)] obtain db1 where db1: "find_and_ban_delinquents now t db = Some db1" "cache_ok db1"
    "set (ac_banned db1) = set (ac_banned db) \<union> rr_wallet_address ` {r \<in> set (ac_receivable db). delinquent now t db r}"
    "ac_receivable db1 = ac_receivable db"
    by (auto simp: find_and_ban_delinquents_def nd image_image wallet)
  have readable: "receivables_readable db1" using db(1) db1(4) by (simp add: receivables_readable_def)
  let ?rs = "map receivable_of_row (filter (reformed t db1) (ac_receivable db1))"
  have pd: "paid_delinquencies t db1 = Some ?rs" using readable by (intro paid_delinquencies_run) (auto simp: receivables_readable_def)
  have "\<forall>account\<in>set ?rs. loggable account" using readable_loggable [OF readable] by auto
  from unban_all_run [OF this db1(2)] obtain db2 where db2: "find_and_unban_reformed_nodes t db1 = Some db2" "cache_ok db2"
    "set (ac_banned db2) = set (ac_banned db1) - rr_wallet_address ` {r \<in> set (ac_receivable db1). reformed t db1 r}"
    "ac_receivable db2 = ac_receivable db1"
    by (auto simp: find_and_unban_reformed_nodes_def pd image_image wallet)
  have "set (ac_banned db2) = set (ac_banned db1) -
      rr_wallet_address ` {r \<in> set (ac_receivable db). wei_of (rr_columns r) \<le> gwei_to_wei (uint (unban_below_gwei t))}"
    unfolding db2(3) db1(4) by (auto simp: reformed_def)
  then show ?thesis using db1 db2 by (auto simp: scan_for_delinquencies_def)
qed

text \<open>
  C35. A scan for receivables bans and pardons exactly whom it should. With thresholds that fit and a permanent debt below 2^63 wei, a wallet is banned
  after the scan, in the table and in the cache alike, if and only if it was banned before or owes more than the limit of its age, grace taken off, and more than the permanent
  debt, and does not owe less than the amount below which bans are lifted.
\<close>

theorem receivable_scan_bans_exactly:
  assumes "thresholds_fit (at_payment_thresholds a)" "gwei_to_wei (uint (permanent_debt_allowed_gwei (at_payment_thresholds a))) < 2 ^ 63"
    and "0 \<le> now" "now < 2 ^ 63" "receivables_readable (at_db a)" "cache_ok (at_db a)" "at_receivable_initiated_at_opt a = None" "at_bound a"
  shows "\<exists>a'. accountant_handle W now (ScanFor Receivables sk) a =
      Some ([RetrieveTransactions (at_earning_wallet a) sk, ScheduleScan Receivables], a') \<and>
    at_receivable_initiated_at_opt a' = Some now \<and> cache_ok (at_db a') \<and> ac_receivable (at_db a') = ac_receivable (at_db a) \<and>
    (\<forall>w. is_banned w (at_db a') \<longleftrightarrow>
      (is_banned w (at_db a) \<or> (\<exists>r\<in>set (ac_receivable (at_db a)). rr_wallet_address r = w \<and> delinquent now (at_payment_thresholds a) (at_db a) r)) \<and>
      (\<forall>r\<in>set (ac_receivable (at_db a)). rr_wallet_address r = w \<longrightarrow>
        gwei_to_wei (uint (unban_below_gwei (at_payment_thresholds a))) < wei_of (rr_columns r)))"
proof -
  from scan_for_delinquencies_run [OF assms(1-6)] obtain db where db: "scan_for_delinquencies now (at_payment_thresholds a) (at_db a) = Some db"
    "cache_ok db" "ac_receivable db = ac_receivable (at_db a)"
    "set (ac_banned db) = (set (ac_banned (at_db a)) \<union> rr_wallet_address ` {r \<in> set (ac_receivable (at_db a)). delinquent now (at_payment_thresholds a) (at_db a) r}) -
      rr_wallet_address ` {r \<in> set (ac_receivable (at_db a)). wei_of (rr_columns r) \<le> gwei_to_wei (uint (unban_below_gwei (at_payment_thresholds a)))}"
    by blast
  have "is_banned w db \<longleftrightarrow>
      (is_banned w (at_db a) \<or> (\<exists>r\<in>set (ac_receivable (at_db a)). rr_wallet_address r = w \<and> delinquent now (at_payment_thresholds a) (at_db a) r)) \<and>
      (\<forall>r\<in>set (ac_receivable (at_db a)). rr_wallet_address r = w \<longrightarrow>
        gwei_to_wei (uint (unban_below_gwei (at_payment_thresholds a))) < wei_of (rr_columns r))" for w
  proof -
    have k: "is_banned w db \<longleftrightarrow> w \<in> set (ac_banned db)" "is_banned w (at_db a) \<longleftrightarrow> w \<in> set (ac_banned (at_db a))"
      using db(2) assms(6) by (simp_all add: cache_ok_def)
    have im: "w \<in> rr_wallet_address ` {r \<in> set (ac_receivable (at_db a)). Q r} \<longleftrightarrow>
        (\<exists>r\<in>set (ac_receivable (at_db a)). rr_wallet_address r = w \<and> Q r)" for Q by auto
    show ?thesis unfolding k db(4) Diff_iff Un_iff im not_le [symmetric] by simp
  qed
  then show ?thesis using db(1-3) assms(7,8)
    by (intro exI [of _ "a\<lparr>at_db := db, at_receivable_initiated_at_opt := Some now\<rparr>"])
      (simp add: handle_request_of_scan_def handle_request_of_scan_for_receivable_def begin_receivable_scan_def send_scan_message_def)
qed


theorem receivable_scan_bans_exactly_witness:
  "\<exists>a'. accountant_handle sample_wallet_ops 100000 (ScanFor Receivables None)
      ((accountant_new False None (WalletAddress 2) \<lparr>debt_threshold_gwei = 1000000000, maturity_threshold_sec = 1200, payment_grace_period_sec = 1200,
     permanent_debt_allowed_gwei = 500000000, threshold_interval_sec = 21600, unban_below_gwei = 500000000\<rparr>
     \<lparr>ac_receivable = [\<lparr>rr_wallet_address = 5, rr_balance_high_b = 1, rr_balance_low_b = 0, rr_last_received_timestamp = 0\<rparr>,
        \<lparr>rr_wallet_address = 6, rr_balance_high_b = 0, rr_balance_low_b = 9, rr_last_received_timestamp = 0\<rparr>],
       ac_payable = [], ac_pending_payable = [], ac_banned = [6], ac_ban_cache = {|WalletAddress 6|}, ac_start_block = None\<rparr>)\<lparr>at_bound := True\<rparr>) =
      Some ([RetrieveTransactions (WalletAddress 2) None, ScheduleScan Receivables] :: unit accountant_output list, a') \<and>
    is_banned 5 (at_db a') \<and> \<not> is_banned 6 (at_db a')"
proof -
  let ?t = "\<lparr>debt_threshold_gwei = 1000000000, maturity_threshold_sec = 1200, payment_grace_period_sec = 1200,
     permanent_debt_allowed_gwei = 500000000, threshold_interval_sec = 21600, unban_below_gwei = 500000000\<rparr>"
  let ?r = "\<lparr>rr_wallet_address = 5, rr_balance_high_b = 1, rr_balance_low_b = 0, rr_last_received_timestamp = 0\<rparr>"
  let ?s = "\<lparr>rr_wallet_address = 6, rr_balance_high_b = 0, rr_balance_low_b = 9, rr_last_received_timestamp = 0\<rparr>"
  let ?db = "\<lparr>ac_receivable = [?r, ?s], ac_payable = [], ac_pending_payable = [], ac_banned = [6], ac_ban_cache = {|WalletAddress 6|},
     ac_start_block = None\<rparr>"
  let ?a = "(accountant_new False None (WalletAddress 2) ?t ?db)\<lparr>at_bound := True\<rparr>"
  have "thresholds_fit ?t" by (simp add: thresholds_fit_def check_payment_thresholds_def gwei_to_wei_def WEIS_IN_GWEI_def)
  then have fit: "thresholds_fit (at_payment_thresholds ?a)" "gwei_to_wei (uint (permanent_debt_allowed_gwei (at_payment_thresholds ?a))) < 2 ^ 63"
    by (simp_all add: accountant_new_def gwei_to_wei_def WEIS_IN_GWEI_def)
  have db: "receivables_readable (at_db ?a)" "cache_ok (at_db ?a)" "at_receivable_initiated_at_opt ?a = None" "at_bound ?a"
    by (simp_all add: accountant_new_def receivables_readable_def table_ok_def column_ok_def in_type_def wei_of_def cache_ok_def is_banned_def)
  have d: "delinquent 100000 ?t ?db ?r"
    by (simp add: delinquent_def debt_line_def gwei_to_wei_def WEIS_IN_GWEI_def wei_of_def)
  from receivable_scan_bans_exactly [OF fit _ _ db, of 100000 sample_wallet_ops None]
  obtain a' where a': "accountant_handle sample_wallet_ops 100000 (ScanFor Receivables None) ?a =
      Some ([RetrieveTransactions (WalletAddress 2) None, ScheduleScan Receivables] :: unit accountant_output list, a')"
    and b: "\<forall>w. is_banned w (at_db a') \<longleftrightarrow>
      (is_banned w ?db \<or> (\<exists>r\<in>set [?r, ?s]. rr_wallet_address r = w \<and> delinquent 100000 ?t ?db r)) \<and>
      (\<forall>r\<in>set [?r, ?s]. rr_wallet_address r = w \<longrightarrow> gwei_to_wei (uint (unban_below_gwei ?t)) < wei_of (rr_columns r))"
    by (auto simp: accountant_new_def)
  have "is_banned 5 (at_db a')" unfolding b [rule_format] using d by (simp add: gwei_to_wei_def WEIS_IN_GWEI_def wei_of_def)
  moreover have "\<not> is_banned 6 (at_db a')" unfolding b [rule_format] by (simp add: gwei_to_wei_def WEIS_IN_GWEI_def wei_of_def)
  ultimately show ?thesis using a' by blast
qed

section \<open>Confirmed payments\<close>

lemma transaction_confirmed_run:
  assumes ok: "payables_ok db" and one: "filter (\<lambda>r. py_pending_payable_rowid r = Some (uint (fp_rowid fp))) (ac_payable db) = [r]"
    and fp: "uint (fp_rowid fp) < 2 ^ 63" "0 \<le> fp_timestamp fp" "fp_timestamp fp < 2 ^ 63" "0 \<le> fp_amount fp" "fp_amount fp < 2 ^ 126"
    and bound: "- (2 ^ 126) \<le> payable_book db (py_wallet_address r) - fp_amount fp"
  shows "\<exists>rows. transaction_confirmed fp db = Some (Inr (), db\<lparr>ac_payable := rows\<rparr>) \<and> table_ok py_wallet_address py_columns rows \<and>
    book py_wallet_address py_columns rows =
      (payable_book db)(py_wallet_address r := payable_book db (py_wallet_address r) - fp_amount fp) \<and>
    (\<forall>r'\<in>set rows. py_pending_payable_rowid r' \<noteq> Some (uint (fp_rowid fp)))"
proof -
  define key where "key = (\<lambda>r :: payable_row. py_pending_payable_rowid r = Some (uint (fp_rowid fp)))"
  define other where "other = (\<lambda>r :: payable_row. r\<lparr>py_last_paid_timestamp := fp_timestamp fp, py_pending_payable_rowid := None\<rparr>)"
  define w where "w = py_wallet_address r"
  define v where "v = payable_book db w - fp_amount fp"
  define f where "f = (\<lambda>r'. if key r' then other (r'\<lparr>py_balance_high_b := fst (columns_of v), py_balance_low_b := snd (columns_of v)\<rparr>) else r')"
  have one': "filter key (ac_payable db) = [r]" using one by (simp add: key_def)
  then have "r \<in> set (filter key (ac_payable db))" by simp
  then have r: "r \<in> set (ac_payable db)" "key r" by simp_all
  have only: "r' = r" if "r' \<in> set (ac_payable db)" "key r'" for r'
  proof -
    have "r' \<in> set (filter key (ac_payable db))" using that by simp
    then show ?thesis by (simp add: one')
  qed
  have dist: "distinct (map py_wallet_address (ac_payable db))" using ok by (simp add: table_ok_def)
  have row: "filter (\<lambda>r'. py_wallet_address r' = w) (ac_payable db) = [r]"
    using dist
  proof (rule filter_key_cases [of _ _ w])
    fix r'
    assume "filter (\<lambda>r. py_wallet_address r = w) (ac_payable db) = [r']" "r' \<in> set (ac_payable db)" "py_wallet_address r' = w"
    then show ?thesis using r(1) dist by (simp add: w_def distinct_map inj_on_def)
  qed (use r(1) in \<open>auto simp: w_def\<close>)
  have st: "storable v" using book_storable [OF ok, of w] fp(4) bound by (simp add: v_def w_def storable_def)
  have "wei_of (py_columns r) = payable_book db w" using row by (simp add: book_def)
  then have val: "wei_of (py_columns r) + wei_of (columns_of (- fp_amount fp)) = v" by (simp add: v_def)
  have f: "py_wallet_address (f r') = py_wallet_address r'" "py_balance_high_b (f r') = (if key r' then fst (columns_of v) else py_balance_high_b r')"
    "py_balance_low_b (f r') = (if key r' then snd (columns_of v) else py_balance_low_b r')" "\<not> key (f r')" for r'
    by (simp_all add: f_def other_def key_def)
  have "execute (payable_config key other None (columns_of (- fp_amount fp))) (ac_payable db) = Some (Inr (), map f (ac_payable db))"
    using execute_hit [of "payable_config key other None (columns_of (- fp_amount fp))" "ac_payable db" r v] one' ok r(1) val st
      columns_of_ok [OF storable_nonneg(2) [OF fp(4,5)]]
    by (simp add: table_ok_def f_def case_prod_beta)
  then have "transaction_confirmed fp db = Some (Inr (), db\<lparr>ac_payable := map f (ac_payable db)\<rparr>)"
    using fp by (simp add: transaction_confirmed_def checked_u64 to_time_t_run wei_change_run columns_of_def key_def other_def)
  moreover have "table_ok py_wallet_address py_columns (map f (ac_payable db))"
    using ok columns_of_ok [OF st] by (simp add: table_ok_def f(1-3) o_def)
  moreover have "book py_wallet_address py_columns (map f (ac_payable db)) = (payable_book db)(w := v)"
    using row r(2) only by (intro book_map [of _ _ _ _ _ r]) (auto simp: f(1-3) w_def)
  moreover have "\<forall>r'\<in>set (map f (ac_payable db)). \<not> key r'" using f(4) by simp
  ultimately show ?thesis unfolding w_def v_def key_def by blast
qed


text \<open>
  C36. A confirmed payment settles the account. When the receipt of a transaction says that it succeeded, and one account is
  waiting for the fingerprint of it, exactly the amount of the transaction is taken off the balance of that account and of no other, the account is not pending any
  more, the fingerprint and no other is deleted, the statistics count the amount as paid, and the scan is over.
\<close>

theorem confirmed_payment_settles:
  assumes ok: "payables_ok (at_db a)" and one: "filter (\<lambda>r. py_pending_payable_rowid r = Some (uint (fp_rowid fp))) (ac_payable (at_db a)) = [r]"
    and known: "length (filter (\<lambda>p. pp_rowid p = uint (fp_rowid fp)) (ac_pending_payable (at_db a))) = 1"
    and fp: "uint (fp_rowid fp) < 2 ^ 63" "0 \<le> fp_timestamp fp" "fp_timestamp fp < 2 ^ 63" "0 \<le> fp_amount fp" "fp_amount fp < 2 ^ 126"
    and bound: "- (2 ^ 126) \<le> payable_book (at_db a) (py_wallet_address r) - fp_amount fp"
    and clock: "case at_pending_payable_initiated_at_opt a of None \<Rightarrow> True | Some t \<Rightarrow> t \<le> now"
  shows "\<exists>a'. accountant_handle W now (ReportTransactionReceipts [(RpcResponse TxSucceeded, fp)] None) a = Some ([], a') \<and> payables_ok (at_db a') \<and>
    payable_book (at_db a') = (payable_book (at_db a))(py_wallet_address r := payable_book (at_db a) (py_wallet_address r) - fp_amount fp) \<and>
    (\<forall>r'\<in>set (ac_payable (at_db a')). py_pending_payable_rowid r' \<noteq> Some (uint (fp_rowid fp))) \<and>
    ac_pending_payable (at_db a') = filter (\<lambda>p. pp_rowid p \<noteq> uint (fp_rowid fp)) (ac_pending_payable (at_db a)) \<and>
    total_paid_payable_wei (at_financial_statistics a') = wrap_u128 (total_paid_payable_wei (at_financial_statistics a) + fp_amount fp) \<and>
    at_pending_payable_initiated_at_opt a' = None"
proof -
  from transaction_confirmed_run [OF ok one fp bound] obtain rows where rows:
    "transaction_confirmed fp (at_db a) = Some (Inr (), (at_db a)\<lparr>ac_payable := rows\<rparr>)" "table_ok py_wallet_address py_columns rows"
    "book py_wallet_address py_columns rows =
      (payable_book (at_db a))(py_wallet_address r := payable_book (at_db a) (py_wallet_address r) - fp_amount fp)"
    "\<forall>r'\<in>set rows. py_pending_payable_rowid r' \<noteq> Some (uint (fp_rowid fp))" by blast
  have "List.map_filter (\<lambda>p. if pp_rowid p = x then None else Some p) ps = filter (\<lambda>p. pp_rowid p \<noteq> x) ps" for x and ps :: "pending_payable_row list"
    by (induction ps) (simp_all add: map_filter_simps)
  then have del: "delete_fingerprints [fp_rowid fp] ((at_db a)\<lparr>ac_payable := rows\<rparr>) = Some ((at_db a)\<lparr>ac_payable := rows,
      ac_pending_payable := filter (\<lambda>p. pp_rowid p \<noteq> uint (fp_rowid fp)) (ac_pending_payable (at_db a))\<rparr>)"
    using known by (simp add: delete_fingerprints_def change_fingerprints_def Let_def)
  have "signal_scanner_completion now (at_pending_payable_initiated_at_opt a) = Some ()"
    using clock by (simp add: signal_scanner_completion_def split: option.splits)
  with rows del show ?thesis
    by (simp add: respond_def finish_pending_payable_scan_def handle_receipts_for_pending_transactions_def handle_receipt_def
      process_transactions_by_reported_state_def confirm_transactions_def cancel_failed_transactions_def update_remaining_fingerprints_def
      scan_response_def add_to_the_total_of_paid_payable_def)
qed

theorem confirmed_payment_settles_witness:
  "let a = (accountant_new False None (WalletAddress 2) DEFAULT_PAYMENT_THRESHOLDS \<lparr>ac_receivable = [],
      ac_payable = [\<lparr>py_wallet_address = 5, py_balance_high_b = 0, py_balance_low_b = 30, py_last_paid_timestamp = 0, py_pending_payable_rowid = Some 1\<rparr>],
      ac_pending_payable = [\<lparr>pp_rowid = 1, pp_transaction_hash = 7, pp_amount_high_b = 0, pp_amount_low_b = 20, pp_payable_timestamp = 90,
        pp_attempt = 1, pp_process_error = None\<rparr>], ac_banned = [], ac_ban_cache = {||}, ac_start_block = None\<rparr>)
   in \<exists>a'. accountant_handle sample_wallet_ops 100 (ReportTransactionReceipts [(RpcResponse TxSucceeded, \<lparr>fp_rowid = 1, fp_timestamp = 90, fp_hash = 7,
      fp_attempt = 1, fp_amount = 20, fp_process_error = None\<rparr>)] None) a = Some ([] :: unit accountant_output list, a') \<and>
     payable_book (at_db a') 5 = 10 \<and> ac_pending_payable (at_db a') = []"
proof -
  let ?r = "\<lparr>py_wallet_address = 5, py_balance_high_b = 0, py_balance_low_b = 30, py_last_paid_timestamp = 0, py_pending_payable_rowid = Some 1\<rparr>"
  let ?fp = "\<lparr>fp_rowid = 1, fp_timestamp = 90, fp_hash = 7, fp_attempt = 1, fp_amount = 20, fp_process_error = None\<rparr>"
  let ?a = "accountant_new False None (WalletAddress 2) DEFAULT_PAYMENT_THRESHOLDS \<lparr>ac_receivable = [], ac_payable = [?r],
    ac_pending_payable = [\<lparr>pp_rowid = 1, pp_transaction_hash = 7, pp_amount_high_b = 0, pp_amount_low_b = 20, pp_payable_timestamp = 90,
        pp_attempt = 1, pp_process_error = None\<rparr>], ac_banned = [], ac_ban_cache = {||}, ac_start_block = None\<rparr>"
  have b: "payable_book (at_db ?a) 5 = 30" by (simp add: accountant_new_def book_def wei_of_def)
  have "payables_ok (at_db ?a)" "filter (\<lambda>r. py_pending_payable_rowid r = Some (uint (fp_rowid ?fp))) (ac_payable (at_db ?a)) = [?r]"
    "length (filter (\<lambda>p. pp_rowid p = uint (fp_rowid ?fp)) (ac_pending_payable (at_db ?a))) = 1"
    "case at_pending_payable_initiated_at_opt ?a of None \<Rightarrow> True | Some t \<Rightarrow> t \<le> (100 :: int)"
    by (simp_all add: accountant_new_def table_ok_def column_ok_def in_type_def)
  from confirmed_payment_settles [OF this(1-3) _ _ _ _ _ _ this(4), of sample_wallet_ops] b
  obtain a' where "accountant_handle sample_wallet_ops 100 (ReportTransactionReceipts [(RpcResponse TxSucceeded, ?fp)] None) ?a =
      Some ([] :: unit accountant_output list, a')" "payable_book (at_db a') = (payable_book (at_db ?a))(5 := 10)"
    "ac_pending_payable (at_db a') = filter (\<lambda>p. pp_rowid p \<noteq> uint (fp_rowid ?fp)) (ac_pending_payable (at_db ?a))"
    by (auto simp: b)
  then show ?thesis unfolding Let_def by (intro exI [of _ a']) (simp add: accountant_new_def)
qed

end
