(* ===== verification/Spec2Isabelle.thy ===== *)
theory Spec2Isabelle
  imports Exit_Locations Country_Lookup Payments Bookkeeping Delivery
begin

text \<open>
  \<^bold>\<open>The program.\<close> PulseMesh is a mesh of Nodes that route data for each other. Each Node runs a set of actors that exchange
  messages. The Neighborhood keeps a database of the Nodes it has heard of, exchanges it with its neighbors as Gossip, and
  answers queries for routes. The Hopper sends packages along routes that are encrypted in layers, and for a relayed package tells the Accountant
  whom to charge. The Accountant keeps the books of what is owed to and by this Node, bans wallets that do not pay and has its own debts paid through
  the blockchain bridge. A table of the countries of IP addresses, made when the Node is built, gives the Neighborhood
  the countries for choosing exit Nodes. This development models these four parts and proves what they
  promise, each alone and together. The paths below are under \<^verbatim>\<open>src/\<close>.

  \<^bold>\<open>Conventions.\<close> Theory \<open>Prelude\<close> has the monad of code that may panic: \<open>'a run\<close> is an option, \<open>ret x\<close> a result and
  \<open>panic\<close>, that is \<open>None\<close>, a panic of the source (\<open>panic!\<close>, \<open>expect\<close>, \<open>unwrap\<close>, an index out of range, a division by zero). A
  \<open>Result\<close> is a sum, its error on the left. A method that changes its object returns the new object. A \<open>HashMap\<close> is a finite map
  and a \<open>HashSet\<close> a finite set; where the code depends on the order of iteration, the order is a parameter (locale \<open>hash_iteration\<close>).
  Unsigned integers of the packages and the database are words and wrap as in a release build; signed ones, and the amounts of money, are integers with the
  wrapping or the check of the source written out. What an actor sends is the list of its outputs, in order. Texts for the log are left out, and an error text is a constructor. Times are
  whole seconds, and the clock, random numbers, encryption, serialization and the services of other crates are parameters, with what
  the code relies on as hypotheses named \<open>..._ok\<close>, which the witnesses discharge for concrete functions.

  \<^bold>\<open>Records and database\<close> (\<^verbatim>\<open>node/src/neighborhood\<close>). \<open>Node_Addr\<close> models \<^verbatim>\<open>sub_lib/node_addr.rs\<close>, \<open>Node_Record\<close>
  the records of \<^verbatim>\<open>node_record.rs\<close>, \<open>Chains\<close> the blockchains of \<^verbatim>\<open>pulsemesh_lib/src/blockchains\<close>, \<open>Neighborhood_Types\<close> the rate
  packs and modes of \<^verbatim>\<open>sub_lib/neighborhood.rs\<close> and \<open>Neighborhood_Database\<close> the type \<open>NeighborhoodDatabase\<close>, with the index by key and the index by address. The lemmas
  show that every operation keeps the two indices consistent, and what adding, removing and culling do.

  \<^bold>\<open>Gossip.\<close> \<open>Gossip\<close> models \<^verbatim>\<open>gossip.rs\<close> and \<^verbatim>\<open>gossip_producer.rs\<close>: what is told to whom, and that it is read back. \<open>Gossip_Acceptor\<close>
  has the five handlers of \<^verbatim>\<open>gossip_acceptor.rs\<close> and \<open>Exit_Preferences\<close> the preferences that they apply. \<open>Acceptor_Safety\<close>
  proves that Gossip with distinct keys never makes a handler panic and keeps the database well-formed, with lemmas that follow the order of the handlers; it also has
  the bounds of the patch of Nodes that is taken into account. \<open>Connection_Status\<close> refines \<^verbatim>\<open>overall_connection_status.rs\<close> to a diagram of stages.

  \<^bold>\<open>Routes.\<close> \<open>Cryptde\<close> has the interface of \<^verbatim>\<open>sub_lib/cryptde.rs\<close>, its null implementation and wallets; the locale \<open>cryptde_network\<close> is what
  its clients rely on, and its interpretation \<open>null\<close> discharges it. \<open>Route\<close> models \<^verbatim>\<open>sub_lib/route.rs\<close>: a round trip is taken
  apart by exactly its Nodes. \<open>Routing\<close> has the search for the best route in \<^verbatim>\<open>neighborhood/mod.rs\<close>, and \<open>Best_Routes\<close> shows that it returns an admissible route of
  least cost whenever there is one. The search is a total function: the Nodes that
  a path has not used yet are its measure.

  \<^bold>\<open>Packages.\<close> \<open>Text\<close> and \<open>Versioned_Data\<close> model \<^verbatim>\<open>pulsemesh_lib/src/data_version.rs\<close> and \<^verbatim>\<open>sub_lib/versioned_data.rs\<close> with the
  table of migrations. Following the table takes fuel, and three more than the table has entries is shown to be enough for every table that the code can build. \<open>Hopper\<close> models \<^verbatim>\<open>node/src/hopper\<close>, and
  \<open>Delivery\<close> proves that a request and its response get through a network of Hoppers and that each relay reports once.

  \<^bold>\<open>The Neighborhood actor\<close> (\<^verbatim>\<open>neighborhood/mod.rs\<close>). \<open>Neighborhood_Actor\<close> has its state and the handlers of its messages. \<open>Actor_Routes\<close>
  shows that a route query is answered with a route that delivers, \<open>Actor_Gossip\<close> and \<open>Actor_Messages\<close> that a started actor keeps its invariant and handles every
  message of the expected kind without a panic, and on which messages it panics. \<open>Exit_Locations\<close> is the command for exit countries.

  \<^bold>\<open>Countries of addresses\<close> (\<^verbatim>\<open>ip_country/src\<close>). \<open>Bit_Queue\<close> is the queue of bits, refined to a list of bits through the locale \<open>bit_fifo\<close>.
  \<open>Country_Blocks\<close> has the blocks, the compression and the search, and \<open>Country_Lookup\<close> the equivalence of writing, reading and searching with the blocks themselves, proved once in the
  locale \<open>ip_traits\<close> for the two versions of IP. The search is total by the length of its interval. The loops that
  write and read all the bits of a queue are partial functions, and the equivalence shows that they return.

  \<^bold>\<open>The Accountant\<close> (\<^verbatim>\<open>node/src/accountant\<close>). \<open>Big_Integers\<close> has the amounts of money, their division into two columns of the database and the
  thresholds of debts. \<open>Accounts\<close> has the tables as lists of rows and the statements of the data access objects; the locale \<open>account_table\<close> is what the processor of
  big integers needs of a table, interpreted for receivables and payables, and its lemmas show that balances are added up exactly through the overflow of the low
  column. \<open>Accountant\<close> has the actor and its three scanners. \<open>Bookkeeping\<close> proves that reports of services are recorded exactly, that confirmed payments settle
  accounts and that exactly the delinquent wallets are banned; \<open>Payments\<close> proves that no debt is paid twice. This theory joins the Hopper and the Accountant, which share the
  cache of banned wallets.

  \<^bold>\<open>Bounds.\<close> A balance must lie between \<open>- (2 ^ 126)\<close> and \<open>2 ^ 126\<close> to fit its two columns of 63 bits each; beyond that the code panics, which the lemmas on columns
  include and the theorems on the books exclude by the hypothesis \<open>room\<close>. Sizes of databases, routes, tables and packages are not bounded.

  \<^bold>\<open>Not modelled.\<close> Code that is input and output or a thin layer over a library has no content that could be stated without modelling that library: the stream handlers, framers
  and masqueraders, the proxy server and proxy client, the entry DNS, the dispatcher, the UI gateway and its web sockets, the bridge to the blockchain and its interface over
  web3, the initialization and migration of the database, the configurators, the daemon, the command line, the browser, the DNS utility, automap and the port exposer. The real
  cryptography is a parameter. Of the Accountant, the queries of the financials command are missing, and of the Neighborhood the rendering of its database as a graph and the
  start-up of its actor system. The readers of country files depend on the formats of other crates.
\<close>

section \<open>Relaying and charging\<close>

text \<open>
  C9. A relayed package is charged to its payer, and a banned payer is refused. The Hopper asks the cache of banned wallets that the Accountant maintains. If the payer
  of a package is banned, nothing is sent. If anything is sent, the first message is the one report to the Accountant, and when the Accountant handles it, the receivable of the payer grows by exactly the
  rate of the service and the rate per byte for the bytes of the payload, unless the payer is the Node itself, and nothing else in the two books changes.
\<close>

theorem relayed_data_charged_or_refused:
  assumes cache: "hp_ban_cache hp = ac_ban_cache (at_db a)"
    and relay: "route_data_externally Q hp live_package (Some payer) last_data = Some outs"
    and payer: "wallet_address (cw_wallet_ops Q) (payer_wallet payer) = Some w" and time: "0 \<le> cw_now Q" "cw_now Q < 2 ^ 63"
    and books: "own_wallets_ok a" "receivables_ok (at_db a)" "payables_ok (at_db a)"
    and room: "room (receivable_book (at_db a)) (charge (cw_wallet_ops Q) a (payer_wallet payer)
      (total_charge (hp_per_routing_service hp) (hp_per_routing_byte hp) (length (lcp_payload live_package))))"
  shows "(is_banned w (at_db a) \<longrightarrow> outs = []) \<and>
    (outs \<noteq> [] \<longrightarrow> (\<exists>r rest db. outs = ToAccountant r # rest \<and> (\<forall>r'. ToAccountant r' \<notin> set rest) \<and>
      accountant_handle (cw_wallet_ops Q) now (ReportRoutingServiceProvided r :: 'g accountant_message) a = Some ([], a\<lparr>at_db := db\<rparr>) \<and>
      receivable_book db = post (charge (cw_wallet_ops Q) a (payer_wallet payer)
        (total_charge (hp_per_routing_service hp) (hp_per_routing_byte hp) (length (lcp_payload live_package)))) (receivable_book (at_db a)) \<and>
      payable_book db = payable_book (at_db a)))"
proof -
  let ?W = "cw_wallet_ops Q"
  let ?r = "\<lparr>rrs_timestamp = cw_now Q, rrs_paying_wallet = payer_wallet payer, rrs_payload_size = length (lcp_payload live_package),
    rrs_service_rate = hp_per_routing_service hp, rrs_byte_rate = hp_per_routing_byte hp\<rparr>"
  let ?m = "ReportRoutingServiceProvided ?r :: 'g accountant_message"
  have del: "is_delinquent ?W (hp_ban_cache hp) payer = Some (is_banned w (at_db a))"
    using payer by (simp add: is_delinquent_def as_address_wallet_def cache is_banned_def)
  have refused: "is_banned w (at_db a) \<longrightarrow> outs = []"
    using relay by (auto simp: route_data_externally_def del split: bind_splits if_splits)
  have shape: "outs = [] \<or> (\<exists>rest. outs = ToAccountant ?r # rest \<and> (\<forall>r'. ToAccountant r' \<notin> set rest))"
    using relay by (auto simp: route_data_externally_def del Let_def split: bind_splits if_splits sum.splits)
  have report: "service_report ?m" using payer time initialized_address [of "payer_wallet payer" ?W] by simp
  have "room (receivable_book (at_db a)) (receivable_charges ?W a ?m)"
    "room (payable_book (at_db a)) (payable_charges ?W a ?m)"
    using room book_storable [OF books(3)] by (simp_all add: room_def storable_def)
  from handle_report_run [OF books(1) report books(2,3) this, of now] obtain db where db:
    "accountant_handle ?W now ?m a = Some ([], a\<lparr>at_db := db\<rparr>)"
    "receivable_book db = post (receivable_charges ?W a ?m) (receivable_book (at_db a))"
    "payable_book db = post (payable_charges ?W a ?m) (payable_book (at_db a))" by auto
  show ?thesis
  proof (rule conjI [OF refused], rule impI)
    assume "outs \<noteq> []"
    with shape obtain rest where "outs = ToAccountant ?r # rest" "\<forall>r'. ToAccountant r' \<notin> set rest" by blast
    then show "\<exists>r rest db. outs = ToAccountant r # rest \<and> (\<forall>r'. ToAccountant r' \<notin> set rest) \<and>
        accountant_handle ?W now (ReportRoutingServiceProvided r :: 'g accountant_message) a = Some ([], a\<lparr>at_db := db\<rparr>) \<and>
        receivable_book db = post (charge ?W a (payer_wallet payer)
          (total_charge (hp_per_routing_service hp) (hp_per_routing_byte hp) (length (lcp_payload live_package)))) (receivable_book (at_db a)) \<and>
        payable_book db = payable_book (at_db a)"
      using db by (intro exI [of _ ?r] exI [of _ rest] exI [of _ db] conjI) simp_all
  qed
qed


theorem relayed_data_charged_or_refused_witness:
  "\<exists>r rest db. route_data_externally sample_cores_world (sample_hoppers [2])
      \<lparr>lcp_version = PackedVersion 0 0 0, lcp_route = \<lparr>rt_hops = []\<rparr>, lcp_payload = [1, 2, 3]\<rparr>
      (Some \<lparr>payer_wallet = WalletAddress 1, payer_proof = [9]\<rparr>) False = Some (ToAccountant r # rest) \<and>
    accountant_handle sample_wallet_ops 7 (ReportRoutingServiceProvided r)
      (accountant_new True None (WalletAddress 2) DEFAULT_PAYMENT_THRESHOLDS \<lparr>ac_receivable = [], ac_payable = [], ac_pending_payable = [],
        ac_banned = [], ac_ban_cache = {||}, ac_start_block = None\<rparr>) =
      Some ([] :: unit accountant_output list, (accountant_new True None (WalletAddress 2) DEFAULT_PAYMENT_THRESHOLDS \<lparr>ac_receivable = [],
        ac_payable = [], ac_pending_payable = [], ac_banned = [], ac_ban_cache = {||}, ac_start_block = None\<rparr>)\<lparr>at_db := db\<rparr>) \<and>
    receivable_book db 1 = 11"
proof -
  let ?p = "\<lparr>lcp_version = PackedVersion 0 0 0, lcp_route = \<lparr>rt_hops = []\<rparr>, lcp_payload = [1, 2, 3]\<rparr>" and ?payer = "\<lparr>payer_wallet = WalletAddress 1, payer_proof = [9]\<rparr>"
  let ?a = "accountant_new True None (WalletAddress 2) DEFAULT_PAYMENT_THRESHOLDS \<lparr>ac_receivable = [], ac_payable = [], ac_pending_payable = [],
    ac_banned = [], ac_ban_cache = {||}, ac_start_block = None\<rparr>"
  have W: "cw_wallet_ops sample_cores_world = sample_wallet_ops" "cw_now sample_cores_world = 0" by (simp_all add: sample_cores_world_def)
  obtain outs where outs: "route_data_externally sample_cores_world (sample_hoppers [2]) ?p (Some ?payer) False = Some outs" "outs \<noteq> []"
    by (auto simp: route_data_externally_def W owns_secret_key_def sample_wallet_ops_def is_delinquent_def as_address_wallet_def sample_hoppers_def
      to_transmit_data_msg_def into_next_live_def shift_def)
  have c: "charge (cw_wallet_ops sample_cores_world) ?a (payer_wallet ?payer) (total_charge (hp_per_routing_service (sample_hoppers [2]))
      (hp_per_routing_byte (sample_hoppers [2])) (length (lcp_payload ?p))) = [(1, 11)]"
    by (simp add: W charge_def our_wallet_def accountant_new_def total_charge_def wrap_u128_def sample_hoppers_def)
  have b: "receivable_book (at_db ?a) w = 0" for w by (simp add: accountant_new_def book_def)
  have k: "hp_ban_cache (sample_hoppers [2]) = ac_ban_cache (at_db ?a)" "own_wallets_ok ?a" "receivables_ok (at_db ?a)" "payables_ok (at_db ?a)"
    "wallet_address (cw_wallet_ops sample_cores_world) (payer_wallet ?payer) = Some 1" "0 \<le> cw_now sample_cores_world"
    "cw_now sample_cores_world < 2 ^ 63"
    by (simp_all add: sample_hoppers_def accountant_new_def own_wallets_ok_def initialized_def table_ok_def W)
  have room: "room (receivable_book (at_db ?a)) (charge (cw_wallet_ops sample_cores_world) ?a (payer_wallet ?payer)
      (total_charge (hp_per_routing_service (sample_hoppers [2])) (hp_per_routing_byte (sample_hoppers [2])) (length (lcp_payload ?p))))"
    unfolding c by (simp add: room_def b)
  from relayed_data_charged_or_refused [OF k(1) outs(1) k(5-7) k(2-4) room, where 'g = unit and now = 7, THEN conjunct2, THEN mp, OF outs(2), unfolded c]
  obtain r rest db where "outs = ToAccountant r # rest"
    "accountant_handle (cw_wallet_ops sample_cores_world) 7 (ReportRoutingServiceProvided r) ?a = Some ([] :: unit accountant_output list, ?a\<lparr>at_db := db\<rparr>)"
    "receivable_book db = post [(1, 11)] (receivable_book (at_db ?a))"
    by (elim exE conjE) (rule that)
  then show ?thesis using outs(1) b by (intro exI [of _ r] exI [of _ rest] exI [of _ db]) (simp add: post_def W)
qed

end
